(* ===== verification/Prelude.thy ===== *)
theory Prelude
  imports Main "HOL-Library.Finite_Map" "HOL-Library.List_Lexorder" "HOL-Library.Char_ord"
    "HOL-Library.Sublist"
begin

text \<open>
  Shared vocabulary of the development: panics as values, Go maps as finite maps, the
  order in which a Go \<open>range\<close> loop visits a map as an explicit list of keys, and the
  generic lemmas on finite maps and folds that the component proofs use.
\<close>

section \<open>Lemma collections\<close>

named_theorems map_simps \<open>lookups in the maps that the operations build\<close>
named_theorems step_simps \<open>unfolding of one handler or one request\<close>
named_theorems str_simps \<open>strings and the characters they may contain\<close>

section \<open>Panics\<close>

text \<open>
  The run-time panics the code can raise: a nil pointer that is dereferenced and a slice
  index out of range. A panic ends the process, so it is the left injection of a sum and
  every caller passes it on.
\<close>

datatype go_panic = NilDeref | IndexOutOfRange

type_synonym 'a result = "go_panic + 'a"

definition bindr :: "'e + 'a \<Rightarrow> ('a \<Rightarrow> 'e + 'b) \<Rightarrow> 'e + 'b" where
  "bindr m f = (case m of Inl e \<Rightarrow> Inl e | Inr a \<Rightarrow> f a)"

lemma bindr_simps [simp]:
  "bindr (Inl e) f = Inl e"
  "bindr (Inr a) f = f a"
  by (simp_all add: bindr_def)

lemma bindr_Inr_iff: "bindr m f = Inr b \<longleftrightarrow> (\<exists>a. m = Inr a \<and> f a = Inr b)"
  by (cases m) simp_all

lemma bindr_return [simp]: "bindr m Inr = m"
  by (cases m) simp_all

lemma bindr_Inl_iff: "bindr m f = Inl e \<longleftrightarrow> m = Inl e \<or> (\<exists>a. m = Inr a \<and> f a = Inl e)"
  by (cases m) simp_all

text \<open>A loop whose body can panic: the first panic ends it.\<close>

fun foldr_r :: "('s \<Rightarrow> 'a \<Rightarrow> 'e + 's) \<Rightarrow> 's \<Rightarrow> 'a list \<Rightarrow> 'e + 's" where
  "foldr_r f s [] = Inr s"
| "foldr_r f s (x # xs) = bindr (f s x) (\<lambda>s'. foldr_r f s' xs)"

lemma foldr_r_append: "foldr_r f s (xs @ ys) = bindr (foldr_r f s xs) (\<lambda>t. foldr_r f t ys)"
  by (induction xs arbitrary: s) (auto simp: bindr_def split: sum.splits)

lemma foldr_r_Inr:
  assumes "\<And>s x. x \<in> set xs \<Longrightarrow> f s x = Inr (g s x)"
  shows "foldr_r f s xs = Inr (foldl g s xs)"
  using assms by (induction xs arbitrary: s) auto

lemma foldr_r_invariant:
  assumes "foldr_r f s xs = Inr t" and "P s"
    and "\<And>u v x. x \<in> set xs \<Longrightarrow> P u \<Longrightarrow> f u x = Inr v \<Longrightarrow> P v"
  shows "P t"
  using assms
proof (induction xs arbitrary: s)
  case Nil
  then show ?case by simp
next
  case (Cons x xs)
  from Cons.prems(1) obtain u where u: "f s x = Inr u" "foldr_r f u xs = Inr t"
    by (auto simp: bindr_Inr_iff)
  have "P u" using Cons.prems(2) u(1) Cons.prems(3) by force
  then show ?case using Cons.IH u(2) Cons.prems(3) by (metis list.set_intros(2))
qed

section \<open>Go maps\<close>

text \<open>
  A Go map is a finite map. A nil map, which \<open>reflect.DeepEqual\<close> tells apart from an empty
  one, is \<open>None\<close> of an option; reading it is reading the empty map.
\<close>

definition nilmap :: "('k, 'v) fmap option \<Rightarrow> ('k, 'v) fmap" where
  "nilmap m = (case m of None \<Rightarrow> fmempty | Some m' \<Rightarrow> m')"

lemma nilmap_simps [simp]: "nilmap None = fmempty" "nilmap (Some m) = m"
  by (simp_all add: nilmap_def)

text \<open>
  \<open>range\<close> visits every key once, in an order the runtime chooses. Where the order could be
  seen, an operation takes it as a list of keys; a legal order is one that \<open>visits\<close> the map.
\<close>

definition visits :: "'k list \<Rightarrow> ('k, 'v) fmap \<Rightarrow> bool" where
  "visits ks m \<longleftrightarrow> distinct ks \<and> set ks = fset (fmdom m)"

lemma visits_distinct: "visits ks m \<Longrightarrow> distinct ks"
  by (simp add: visits_def)

lemma visits_mem: "visits ks m \<Longrightarrow> k \<in> set ks \<longleftrightarrow> (\<exists>v. fmlookup m k = Some v)"
  by (simp add: visits_def fmlookup_dom_iff)

lemma visits_Nil [simp]: "visits [] m \<longleftrightarrow> m = fmempty"
proof
  assume "visits [] m"
  then have "\<And>k. fmlookup m k = None" by (auto simp: visits_def fmlookup_dom_iff)
  then show "m = fmempty" by (intro fmap_ext) simp
qed (simp add: visits_def)

lemma visits_exists: "\<exists>ks. visits ks m"
proof -
  obtain xs where "fset (fmdom m) = set xs" "distinct xs"
    using finite_distinct_list [OF finite_fset] by metis
  then show ?thesis by (auto simp: visits_def)
qed

lemma visits_sorted: "visits (sorted_list_of_fset (fmdom m)) m"
  by (simp add: visits_def sorted_list_of_fset.rep_eq)

section \<open>Merging, deleting and counting in finite maps\<close>

text \<open>
  Replacing one owner's entries: the old keys go, the new entries win. Both ways the code
  has of applying a change (merge then delete what is left, delete then merge) come to this.
\<close>

definition replace_entries ::
    "('k, 'v) fmap \<Rightarrow> ('k, 'v) fmap \<Rightarrow> ('k, 'v) fmap \<Rightarrow> ('k, 'v) fmap" where
  "replace_entries old new m = fmdrop_fset (fmdom old) m ++\<^sub>f new"

lemma lookup_replace_entries [map_simps]:
  "fmlookup (replace_entries old new m) k =
     (case fmlookup new k of Some v \<Rightarrow> Some v
      | None \<Rightarrow> if k |\<in>| fmdom old then None else fmlookup m k)"
  by (auto simp: replace_entries_def split: option.splits dest: fmdomI)

lemma fmlookup_eq_NoneI: "k |\<notin>| fmdom m \<Longrightarrow> fmlookup m k = None"
  by (simp add: fmdom_notD)

lemma fold_other_key:
  assumes "\<And>x s. x \<in> set xs \<Longrightarrow> obs (f x s) = obs s"
  shows "obs (fold f xs s) = obs s"
  using assms by (induction xs arbitrary: s) auto

text \<open>A fold in which only the visit of \<open>x\<close> touches what is observed.\<close>

lemma fold_one_key:
  assumes "x \<in> set xs" and "distinct xs"
    and "\<And>y s. y \<in> set xs \<Longrightarrow> y \<noteq> x \<Longrightarrow> obs (f y s) = obs s"
    and "\<And>s s'. obs s = obs s' \<Longrightarrow> obs (f x s) = obs (f x s')"
  shows "obs (fold f xs s) = obs (f x s)"
proof -
  obtain ys zs where xs: "xs = ys @ x # zs" using assms(1) by (auto simp: in_set_conv_decomp)
  have "x \<notin> set ys" "x \<notin> set zs" using assms(2) xs by auto
  have 1: "obs (fold f ys s) = obs s"
    by (rule fold_other_key) (use assms(3) xs \<open>x \<notin> set ys\<close> in auto)
  have 2: "obs (fold f zs t) = obs t" for t
    by (rule fold_other_key) (use assms(3) xs \<open>x \<notin> set zs\<close> in auto)
  have "obs (fold f xs s) = obs (fold f zs (f x (fold f ys s)))" by (simp add: xs)
  also have "\<dots> = obs (f x (fold f ys s))" by (rule 2)
  also have "\<dots> = obs (f x s)" by (rule assms(4)) (rule 1)
  finally show ?thesis .
qed

section \<open>Range loops\<close>

text \<open>
  \<open>for k, v := range m { s = f(k, v, s) }\<close> with the keys visited in the order \<open>ks\<close>. Loops that
  only store or delete under the visited key do not depend on the order: the two lemmas
  after the definition say what they compute, for every legal order.
\<close>

definition range_in ::
    "'k list \<Rightarrow> ('k \<Rightarrow> 'v \<Rightarrow> 's \<Rightarrow> 's) \<Rightarrow> ('k, 'v) fmap \<Rightarrow> 's \<Rightarrow> 's" where
  "range_in ks f m s = fold (\<lambda>k s. case fmlookup m k of Some v \<Rightarrow> f k v s | None \<Rightarrow> s) ks s"

lemma range_in_Nil [simp]: "range_in [] f m s = s"
  by (simp add: range_in_def)

lemma range_in_Cons [simp]:
  "range_in (k # ks) f m s =
     range_in ks f m (case fmlookup m k of Some v \<Rightarrow> f k v s | None \<Rightarrow> s)"
  by (simp add: range_in_def)

lemma lookup_range_store:
  "fmlookup (range_in ks fmupd m s) k =
     (if k \<in> set ks \<and> k |\<in>| fmdom m then fmlookup m k else fmlookup s k)"
  by (induction ks arbitrary: s) (auto split: option.splits dest: fmdomI)

lemma range_store:
  assumes "visits ks m"
  shows "range_in ks fmupd m s = s ++\<^sub>f m"
  using assms by (intro fmap_ext) (simp add: lookup_range_store visits_def)

lemma lookup_range_delete:
  "fmlookup (range_in ks (\<lambda>k _. fmdrop k) m s) k =
     (if k \<in> set ks \<and> k |\<in>| fmdom m then None else fmlookup s k)"
  by (induction ks arbitrary: s) (auto split: option.splits dest: fmdomI)

lemma range_delete:
  assumes "visits ks m"
  shows "range_in ks (\<lambda>k _. fmdrop k) m s = fmdrop_fset (fmdom m) s"
  using assms by (intro fmap_ext) (simp add: lookup_range_delete visits_def)

text \<open>Splitting strings at a separator that occurs in neither first part.\<close>

lemma append_sep_inject:
  assumes "c \<notin> set a" and "c \<notin> set a'"
  shows "a @ c # b = a' @ c # b' \<longleftrightarrow> a = a' \<and> b = b'"
  using assms by (induction a a' rule: list_induct2') auto

lemma foldr_r_ok:
  assumes "\<And>s x. x \<in> set xs \<Longrightarrow> \<exists>t. f s x = Inr t"
  shows "\<exists>t. foldr_r f s xs = Inr t"
  using assms
proof (induction xs arbitrary: s)
  case (Cons y ys)
  obtain t where "f s y = Inr t" using Cons.prems by auto
  then show ?case using Cons by simp
qed simp

lemma fmmap_empty_iff [simp]: "fmmap f m = fmempty \<longleftrightarrow> m = fmempty"
proof
  assume "fmmap f m = fmempty"
  then have "map_option f (fmlookup m k) = None" for k
    by (metis fmlookup_map fmempty_lookup)
  then show "m = fmempty" by (intro fmap_ext) simp
qed simp

lemma visits_UN:
  assumes "visits ks m"
  shows "x \<in> (\<Union>k \<in> set ks. case fmlookup m k of Some v \<Rightarrow> G k v | None \<Rightarrow> {}) \<longleftrightarrow>
     (\<exists>k v. fmlookup m k = Some v \<and> x \<in> G k v)" (is "?l \<longleftrightarrow> ?r")
proof
  assume ?l
  then show ?r by (auto split: option.splits)
next
  assume ?r
  then obtain k v where kv: "fmlookup m k = Some v" "x \<in> G k v" by blast
  then have "k \<in> set ks" using visits_mem [OF assms] by blast
  then show ?l using kv by (intro UN_I [of k]) simp_all
qed

lemma visits_singleton [simp]: "visits [k] (fmupd k v fmempty)"
  by (simp add: visits_def)

text \<open>Collecting what a loop has seen: after the loop the invariant holds of all of it.\<close>

lemma foldr_r_collect:
  assumes "foldr_r f s xs = Inr t" and "P A s"
    and "\<And>A s x t. x \<in> set xs \<Longrightarrow> P A s \<Longrightarrow> f s x = Inr t \<Longrightarrow> P (A \<union> g x) t"
  shows "P (A \<union> (\<Union>x \<in> set xs. g x)) t"
  using assms
proof (induction xs arbitrary: s A)
  case Nil
  then show ?case by simp
next
  case (Cons x xs)
  obtain u where u: "f s x = Inr u" "foldr_r f u xs = Inr t"
    using Cons.prems(1) by (auto simp: bindr_Inr_iff)
  have "P (A \<union> g x) u" using Cons.prems(2,3) u(1) by simp
  then have "P (A \<union> g x \<union> (\<Union>x \<in> set xs. g x)) t"
    using Cons.IH [OF u(2)] Cons.prems(3) by (meson list.set_intros(2))
  then show ?case by (simp add: Un_assoc)
qed


lemma fmmap_keys_empty [simp]: "fmmap_keys f fmempty = fmempty"
  by (rule fmap_ext) simp

end
