(* ===== verification/Go_Strings.thy ===== *)
theory Go_Strings
  imports Prelude
begin

text \<open>
  The part of Go's standard library for strings that the program uses: \<open>strings.Trim\<close>,
  \<open>TrimSpace\<close>, \<open>ToLower\<close>, \<open>ReplaceAll\<close> and \<open>Contains\<close>, \<open>strconv.Itoa\<close> and \<open>Atoi\<close>,
  \<open>net.JoinHostPort\<close>. A Go string is its bytes, so a \<open>string\<close> here is a list of byte
  characters; case mapping and white space are those of ASCII.
\<close>

section \<open>Trimming and replacing\<close>

definition is_space :: "char \<Rightarrow> bool" where
  "is_space c \<longleftrightarrow> of_char c \<in> {9::nat, 10, 11, 12, 13, 32}"

definition trim_by :: "('a \<Rightarrow> bool) \<Rightarrow> 'a list \<Rightarrow> 'a list" where
  "trim_by P s = rev (dropWhile P (rev (dropWhile P s)))"

definition TrimSpace :: "string \<Rightarrow> string" where
  "TrimSpace = trim_by is_space"

text \<open>\<open>strings.Trim(s, cutset)\<close> removes characters of a set, not a prefix.\<close>

definition Trim :: "string \<Rightarrow> string \<Rightarrow> string" where
  "Trim s cutset = trim_by (\<lambda>c. c \<in> set cutset) s"

definition lower_char :: "char \<Rightarrow> char" where
  "lower_char c = (if 65 \<le> (of_char c :: nat) \<and> of_char c \<le> (90::nat)
     then char_of (of_char c + 32 :: nat) else c)"

definition ToLower :: "string \<Rightarrow> string" where
  "ToLower = map lower_char"

text \<open>\<open>ReplaceAll\<close> with a one-character pattern and replacement, the only use made of it.\<close>

definition ReplaceAll :: "string \<Rightarrow> char \<Rightarrow> char \<Rightarrow> string" where
  "ReplaceAll s old new = map (\<lambda>c. if c = old then new else c) s"

definition Contains :: "string \<Rightarrow> string \<Rightarrow> bool" where
  "Contains s sub \<longleftrightarrow> sublist sub s"

lemma trim_by_id:
  assumes "s = [] \<or> \<not> P (hd s) \<and> \<not> P (last s)"
  shows "trim_by P s = s"
proof (cases s)
  case Nil
  then show ?thesis by (simp add: trim_by_def)
next
  case (Cons x xs)
  then have "\<not> P x" and "\<not> P (last s)" using assms by auto
  moreover have "rev s = last s # rev (butlast s)"
    using Cons by (metis append_butlast_last_id list.distinct(1) rev.simps(2) rev_rev_ident)
  ultimately show ?thesis by (simp add: trim_by_def Cons)
qed

lemma trim_by_append:
  assumes "\<forall>c \<in> set pre. P c" and "s = [] \<or> \<not> P (hd s) \<and> \<not> P (last s)"
  shows "trim_by P (pre @ s) = s"
proof -
  have "dropWhile P (pre @ s) = dropWhile P s"
    using assms(1) by (simp add: dropWhile_append3 dropWhile_append2)
  then have "trim_by P (pre @ s) = trim_by P s" by (simp add: trim_by_def)
  then show ?thesis using assms(2) by (simp add: trim_by_id)
qed

section \<open>Decimal numbers\<close>

definition digit_char :: "nat \<Rightarrow> char" where
  "digit_char d = char_of (48 + d)"

definition is_digit :: "char \<Rightarrow> bool" where
  "is_digit c \<longleftrightarrow> 48 \<le> (of_char c :: nat) \<and> of_char c \<le> (57::nat)"

definition digit_val :: "char \<Rightarrow> nat" where
  "digit_val c = of_char c - 48"

fun digits :: "nat \<Rightarrow> string" where
  "digits n = (if n < 10 then [digit_char n] else digits (n div 10) @ [digit_char (n mod 10)])"

declare digits.simps [simp del]

definition Itoa :: "int \<Rightarrow> string" where
  "Itoa i = (if i < 0 then CHR ''-'' # digits (nat (- i)) else digits (nat i))"

definition decimal :: "string \<Rightarrow> nat" where
  "decimal s = foldl (\<lambda>a c. 10 * a + digit_val c) 0 s"

definition max_int :: int where "max_int = 2 ^ 63 - 1"
definition min_int :: int where "min_int = - (2 ^ 63)"

datatype num_error = ErrSyntax | ErrRange

text \<open>
  \<open>strconv.Atoi\<close> on a 64-bit platform: an optional sign, then digits only; a value out of
  range is clamped to the nearest \<open>int\<close> and reported.
\<close>

definition Atoi :: "string \<Rightarrow> int \<times> num_error option" where
  "Atoi s =
     (let neg = (case s of c # _ \<Rightarrow> c = CHR ''-'' | [] \<Rightarrow> False);
          ds = (case s of c # cs \<Rightarrow> if c = CHR ''-'' \<or> c = CHR ''+'' then cs else s | [] \<Rightarrow> [])
      in if ds = [] \<or> \<not> list_all is_digit ds then (0, Some ErrSyntax)
         else let v = (if neg then - int (decimal ds) else int (decimal ds))
              in if v < min_int then (min_int, Some ErrRange)
                 else if max_int < v then (max_int, Some ErrRange)
                 else (v, None))"

lemma of_char_digit [simp]: "d < 10 \<Longrightarrow> of_char (digit_char d) = (48 + d :: nat)"
  by (simp add: digit_char_def)

lemma is_digit_digit [simp]: "d < 10 \<Longrightarrow> is_digit (digit_char d)"
  by (simp add: is_digit_def)

lemma digit_val_digit [simp]: "d < 10 \<Longrightarrow> digit_val (digit_char d) = d"
  by (simp add: digit_val_def)

lemma decimal_snoc: "decimal (s @ [c]) = 10 * decimal s + digit_val c"
  by (simp add: decimal_def)

lemma decimal_digits [simp]: "decimal (digits n) = n"
proof (induction n rule: digits.induct)
  case (1 n)
  show ?case
  proof (cases "n < 10")
    case True
    then show ?thesis by (simp add: digits.simps [of n] decimal_def)
  next
    case False
    with "1.IH" show ?thesis by (simp add: digits.simps [of n] decimal_snoc)
  qed
qed

lemma digits_are_digits: "list_all is_digit (digits n)"
proof (induction n rule: digits.induct)
  case (1 n)
  then show ?case by (cases "n < 10") (simp_all add: digits.simps [of n])
qed

lemma digits_nonempty [simp]: "digits n \<noteq> []"
  by (simp add: digits.simps [of n])

lemma digit_not_sign: "is_digit c \<Longrightarrow> c \<noteq> CHR ''-'' \<and> c \<noteq> CHR ''+''"
  by (auto simp: is_digit_def)

lemma Atoi_digits:
  assumes "int n \<le> max_int"
  shows "Atoi (digits n) = (int n, None)"
proof -
  obtain c cs where cs: "digits n = c # cs" by (meson digits_nonempty list.exhaust)
  have "is_digit c" using digits_are_digits [of n] cs by simp
  moreover have "\<not> int n < min_int" by (simp add: min_int_def)
  ultimately show ?thesis using assms digits_are_digits [of n] decimal_digits [of n] cs
    by (auto simp: Atoi_def Let_def dest: digit_not_sign)
qed

lemma Atoi_neg_digits:
  assumes "min_int \<le> - int n"
  shows "Atoi (CHR ''-'' # digits n) = (- int n, None)"
proof -
  have "\<not> max_int < - int n" by (simp add: max_int_def)
  then show ?thesis using assms digits_are_digits [of n]
    by (simp add: Atoi_def Let_def)
qed

text \<open>Printing an \<open>int\<close> and reading it back gives the same \<open>int\<close>.\<close>

lemma Atoi_Itoa:
  assumes "min_int \<le> i" and "i \<le> max_int"
  shows "Atoi (Itoa i) = (i, None)"
proof (cases "i < 0")
  case True
  then show ?thesis using assms Atoi_neg_digits [of "nat (- i)"] by (simp add: Itoa_def)
next
  case False
  then show ?thesis using assms Atoi_digits [of "nat i"] by (simp add: Itoa_def)
qed

lemma digits_chars: "c \<in> set (digits n) \<Longrightarrow> is_digit c"
  using digits_are_digits [of n] by (simp add: list_all_iff)

lemma Itoa_chars: "c \<in> set (Itoa i) \<Longrightarrow> is_digit c \<or> c = CHR ''-''"
  by (auto simp: Itoa_def dest: digits_chars split: if_splits)

lemma digits_inject: "digits m = digits n \<Longrightarrow> m = n"
  by (metis decimal_digits)

lemma digits_no_minus: "digits n \<noteq> CHR ''-'' # s"
  using digits_chars [of "CHR ''-''" n] by (auto dest: digit_not_sign)

lemma Itoa_inject: "Itoa i = Itoa j \<Longrightarrow> i = j"
proof -
  assume eq: "Itoa i = Itoa j"
  consider "i < 0" "j < 0" | "\<not> i < 0" "\<not> j < 0" | "i < 0" "\<not> j < 0" | "\<not> i < 0" "j < 0"
    by blast
  then show "i = j"
  proof cases
    case 1
    then have "nat (- i) = nat (- j)" using eq by (intro digits_inject) (simp add: Itoa_def)
    then show ?thesis using 1 by simp
  next
    case 2
    then have "nat i = nat j" using eq by (intro digits_inject) (simp add: Itoa_def)
    then show ?thesis using 2 by simp
  next
    case 3
    then show ?thesis using eq digits_no_minus [of "nat j" "digits (nat (- i))"]
      by (simp add: Itoa_def)
  next
    case 4
    then show ?thesis using eq digits_no_minus [of "nat i" "digits (nat (- j))"]
      by (simp add: Itoa_def)
  qed
qed

section \<open>Host and port\<close>

definition JoinHostPort :: "string \<Rightarrow> string \<Rightarrow> string" where
  "JoinHostPort host port =
     (if CHR '':'' \<in> set host then ''['' @ host @ '']:'' @ port else host @ '':'' @ port)"


text \<open>To evaluate \<open>Itoa\<close> on a numeral.\<close>

lemmas Itoa_eval = Itoa_def digits.simps digit_char_def char_of_def bit_0


lemma trim_by_around:
  assumes "\<forall>c \<in> set pre. P c" "\<forall>c \<in> set post. P c" and "s = [] \<or> \<not> P (hd s) \<and> \<not> P (last s)"
  shows "trim_by P (pre @ s @ post) = s"
proof (cases s)
  case Nil
  then have "\<forall>c \<in> set (pre @ s @ post). P c" using assms(1,2) by auto
  then have "dropWhile P (pre @ s @ post) = []" by (simp only: dropWhile_eq_Nil_conv)
  then show ?thesis unfolding trim_by_def by (simp only: Nil) simp
next
  case (Cons c t)
  have "dropWhile P (pre @ s @ post) = s @ post"
    using assms Cons by (simp add: dropWhile_append2)
  moreover have "dropWhile P (rev (s @ post)) = rev s"
  proof -
    have "s \<noteq> []" "\<not> P (last s)" using assms(3) Cons by auto
    then have "\<not> P (hd (rev s))" "rev s \<noteq> []" by (simp_all add: hd_rev)
    then have "dropWhile P (rev s) = rev s" by (cases "rev s") auto
    moreover have "dropWhile P (rev post @ rev s) = dropWhile P (rev s)"
      using assms(2) by (intro dropWhile_append2) simp
    ultimately show ?thesis by simp
  qed
  ultimately show ?thesis by (simp add: trim_by_def)
qed

lemma Itoa_not_Nil [simp]: "Itoa i \<noteq> []"
  by (simp add: Itoa_def digits.simps [of "nat i"])

lemma Itoa_no_space: "c \<in> set (Itoa i) \<Longrightarrow> \<not> is_space c"
  by (auto dest!: Itoa_chars simp: is_digit_def is_space_def)

lemma TrimSpace_Itoa:
  assumes "\<forall>c \<in> set pre. is_space c" "\<forall>c \<in> set post. is_space c"
  shows "TrimSpace (pre @ Itoa i @ post) = Itoa i"
  unfolding TrimSpace_def
  by (rule trim_by_around) (use assms Itoa_no_space [OF hd_in_set] Itoa_no_space [OF last_in_set] in auto)

end
