(* ===== verification/Api.thy ===== *)
theory Api
  imports Go_Strings "HOL-Library.Product_Lexorder"
begin

text \<open>
  The names and the API objects that every component speaks of: \<open>api/types.go\<close>
  (\<open>ServicePortName\<close>, its string form, \<open>ServiceEndpoint\<close>) and the fields of the Kubernetes
  objects that the code reads (\<open>v1.Service\<close>, \<open>v1.Endpoints\<close>, \<open>discovery.EndpointSlice\<close>).
  Functions of packages outside the repository are the fields of one record, \<open>k8s_ext\<close>, which
  the operations that call them take as an argument.
\<close>

section \<open>Names\<close>

datatype namespaced_name = NamespacedName (Namespace: string) (Name: string)

datatype service_port_name =
  ServicePortName (NamespacedName_of: namespaced_name) (Port: string) (Protocol: string)

text \<open>
  Names are compared componentwise, so a set of names can be listed in order.
\<close>

instantiation namespaced_name :: linorder
begin

definition less_eq_namespaced_name :: "namespaced_name \<Rightarrow> namespaced_name \<Rightarrow> bool" where
  "less_eq_namespaced_name a b \<longleftrightarrow> (Namespace a, Name a) \<le> (Namespace b, Name b)"

definition less_namespaced_name :: "namespaced_name \<Rightarrow> namespaced_name \<Rightarrow> bool" where
  "less_namespaced_name a b \<longleftrightarrow> (Namespace a, Name a) < (Namespace b, Name b)"

instance
proof
  fix x y z :: namespaced_name
  show "x < y \<longleftrightarrow> x \<le> y \<and> \<not> y \<le> x"
    by (auto simp: less_eq_namespaced_name_def less_namespaced_name_def)
  show "x \<le> x" by (simp add: less_eq_namespaced_name_def)
  show "x \<le> y \<Longrightarrow> y \<le> z \<Longrightarrow> x \<le> z"
    unfolding less_eq_namespaced_name_def by (rule order_trans)
  show "x \<le> y \<Longrightarrow> y \<le> x \<Longrightarrow> x = y"
    unfolding less_eq_namespaced_name_def
    by (cases x; cases y) (metis antisym prod.inject namespaced_name.sel)
  show "x \<le> y \<or> y \<le> x"
    unfolding less_eq_namespaced_name_def by (rule linear)
qed

end

instantiation service_port_name :: linorder
begin

definition less_eq_service_port_name :: "service_port_name \<Rightarrow> service_port_name \<Rightarrow> bool" where
  "less_eq_service_port_name a b \<longleftrightarrow>
     (NamespacedName_of a, Port a, Protocol a) \<le> (NamespacedName_of b, Port b, Protocol b)"

definition less_service_port_name :: "service_port_name \<Rightarrow> service_port_name \<Rightarrow> bool" where
  "less_service_port_name a b \<longleftrightarrow>
     (NamespacedName_of a, Port a, Protocol a) < (NamespacedName_of b, Port b, Protocol b)"

instance
proof
  fix x y z :: service_port_name
  show "x < y \<longleftrightarrow> x \<le> y \<and> \<not> y \<le> x"
    by (auto simp: less_eq_service_port_name_def less_service_port_name_def)
  show "x \<le> x" by (simp add: less_eq_service_port_name_def)
  show "x \<le> y \<Longrightarrow> y \<le> z \<Longrightarrow> x \<le> z"
    unfolding less_eq_service_port_name_def by (rule order_trans)
  show "x \<le> y \<Longrightarrow> y \<le> x \<Longrightarrow> x = y"
    unfolding less_eq_service_port_name_def
    by (cases x; cases y) (metis antisym prod.inject service_port_name.sel)
  show "x \<le> y \<or> y \<le> x"
    unfolding less_eq_service_port_name_def by (rule linear)
qed

end

text \<open>\<open>types.NamespacedName.String\<close>: namespace, a slash, name.\<close>

definition NamespacedName_String :: "namespaced_name \<Rightarrow> string" where
  "NamespacedName_String n = Namespace n @ ''/'' @ Name n"

definition fmtPortName :: "string \<Rightarrow> string" where
  "fmtPortName s = (if s = '''' then '''' else '':'' @ s)"

definition ServicePortName_String :: "service_port_name \<Rightarrow> string" where
  "ServicePortName_String spn =
     NamespacedName_String (NamespacedName_of spn) @ fmtPortName (Port spn)"

record service_endpoint =
  se_Endpoint :: string
  se_ServicePortName :: service_port_name

text \<open>The protocols the code names are strings: \<open>v1.ProtocolUDP\<close>.\<close>

definition ProtocolUDP :: string where "ProtocolUDP = ''UDP''"

section \<open>Services\<close>

record v1_service_port =
  sp_Name :: string
  sp_Protocol :: string
  sp_Port :: int
  sp_NodePort :: int

text \<open>
  The fields of \<open>v1.Service\<close> that are read. \<open>ClientIPTimeout\<close> is
  \<open>Spec.SessionAffinityConfig.ClientIP.TimeoutSeconds\<close>, \<open>None\<close> when one of the three pointers
  on the way is nil. \<open>Ingress\<close> is \<open>Status.LoadBalancer.Ingress\<close>.
\<close>

record ingress =
  ing_IP :: string
  ing_Hostname :: string

record v1_service =
  svc_Namespace :: string
  svc_Name :: string
  ClusterIP :: string
  Ports :: "v1_service_port list"
  SessionAffinity :: string
  ClientIPTimeout :: "int option"
  ExternalIPs :: "string list"
  LoadBalancerSourceRanges :: "string list"
  HealthCheckNodePort :: int
  TopologyKeys :: "string list"
  Ingress :: "ingress list"
  svc_Type :: string
  ExternalTrafficPolicy :: string

section \<open>Endpoints\<close>

record v1_endpoint_port =
  ep_Name :: string
  ep_Port :: int
  ep_Protocol :: string

record v1_endpoint_address =
  addr_IP :: string
  NodeName :: "string option"

record v1_endpoint_subset =
  Addresses :: "v1_endpoint_address list"
  ss_Ports :: "v1_endpoint_port list"

type_synonym annotations = "(string, string) fmap"

record v1_endpoints =
  eps_Namespace :: string
  eps_Name :: string
  eps_Annotations :: annotations
  Subsets :: "v1_endpoint_subset list"

section \<open>Endpoint slices\<close>

text \<open>In a slice the fields of a port are pointers.\<close>

record slice_port =
  slp_Name :: "string option"
  slp_Port :: "int option"
  slp_Protocol :: "string option"
  slp_AppProtocol :: "string option"

record slice_endpoint =
  sle_Addresses :: "string list"
  Ready :: "bool option"
  sle_Topology :: "(string, string) fmap option"

record endpoint_slice =
  es_Namespace :: string
  es_Name :: string
  es_Labels :: "(string, string) fmap"
  es_Annotations :: annotations
  AddressType :: string
  es_Endpoints :: "slice_endpoint list"
  es_Ports :: "slice_port list"

section \<open>Functions outside the repository\<close>

text \<open>
  \<open>ShouldSkipService\<close>, \<open>FilterIncorrectIPVersion\<close>, \<open>FilterIncorrectCIDRVersion\<close>, \<open>IPPart\<close> and
  \<open>PortPart\<close> are \<open>k8s.io/kubernetes/pkg/proxy/util\<close>, \<open>RequestsOnlyLocalTraffic\<close> and
  \<open>NeedsHealthCheck\<close> its \<open>api/v1/service\<close>, \<open>IsIPv6String\<close> is \<open>k8s.io/utils/net\<close>,
  \<open>IsClearConntrackNeeded\<close> is \<open>util/conntrack\<close>. \<open>ParseIP\<close> and \<open>IPString\<close> are \<open>net.ParseIP\<close> and
  \<open>net.IP.String\<close>, the empty byte list being the nil address; \<open>ParseTime\<close> is
  \<open>time.Parse(time.RFC3339Nano, _)\<close>, 0 being the zero time it returns with an error.
\<close>

type_synonym net_ip = "nat list"
type_synonym time = nat

record k8s_ext =
  ShouldSkipService :: "v1_service \<Rightarrow> bool"
  RequestsOnlyLocalTraffic :: "v1_service \<Rightarrow> bool"
  NeedsHealthCheck :: "v1_service \<Rightarrow> bool"
  FilterIncorrectIPVersion :: "string list \<Rightarrow> bool \<Rightarrow> string list \<times> string list"
  FilterIncorrectCIDRVersion :: "string list \<Rightarrow> bool \<Rightarrow> string list \<times> string list"
  IsIPv6String :: "string \<Rightarrow> bool"
  IPPart :: "string \<Rightarrow> string"
  PortPart :: "string \<Rightarrow> int \<times> string option"
  IsClearConntrackNeeded :: "string \<Rightarrow> bool"
  ParseIP :: "string \<Rightarrow> net_ip"
  IPString :: "net_ip \<Rightarrow> string"
  ParseTime :: "string \<Rightarrow> time"

text \<open>
  A simple instance of these functions, on which closed examples are evaluated: an address is
  IPv6 when it holds a colon, addresses are kept as their characters, the host of
  \<open>host:port\<close> is what precedes the last colon, without brackets.
\<close>

definition host_of :: "string \<Rightarrow> string" where
  "host_of s = (let h = rev (drop 1 (dropWhile (\<lambda>c. c \<noteq> CHR '':'') (rev s)))
     in if CHR '':'' \<notin> set s then s
        else if h \<noteq> [] \<and> hd h = CHR ''['' then butlast (tl h) else h)"

definition port_of :: "string \<Rightarrow> int \<times> string option" where
  "port_of s = (let p = rev (takeWhile (\<lambda>c. c \<noteq> CHR '':'') (rev s)) in
     case Atoi p of (v, None) \<Rightarrow> (v, None) | (_, Some _) \<Rightarrow> (-1, Some ''error parsing port''))"

definition simple_ext :: k8s_ext where
  "simple_ext = \<lparr>
     ShouldSkipService = (\<lambda>s. ClusterIP s = ''None'' \<or> ClusterIP s = ''''),
     RequestsOnlyLocalTraffic = (\<lambda>s. ExternalTrafficPolicy s = ''Local''),
     NeedsHealthCheck = (\<lambda>s. svc_Type s = ''LoadBalancer'' \<and> ExternalTrafficPolicy s = ''Local''),
     FilterIncorrectIPVersion = (\<lambda>ips v6. (filter (\<lambda>ip. (CHR '':'' \<in> set ip) = v6) ips,
                                            filter (\<lambda>ip. (CHR '':'' \<in> set ip) \<noteq> v6) ips)),
     FilterIncorrectCIDRVersion = (\<lambda>ips v6. (filter (\<lambda>ip. (CHR '':'' \<in> set ip) = v6) ips,
                                              filter (\<lambda>ip. (CHR '':'' \<in> set ip) \<noteq> v6) ips)),
     IsIPv6String = (\<lambda>ip. CHR '':'' \<in> set ip),
     IPPart = host_of,
     PortPart = port_of,
     IsClearConntrackNeeded = (\<lambda>p. p = ''UDP'' \<or> p = ''SCTP''),
     ParseIP = map of_char,
     IPString = map char_of,
     ParseTime = length \<rparr>"

section \<open>What the string form of a name determines\<close>

text \<open>
  Kubernetes names are DNS labels and port names: no slash, colon or dot occurs in them.
\<close>

definition plain :: "string \<Rightarrow> bool" where
  "plain s \<longleftrightarrow> CHR ''/'' \<notin> set s \<and> CHR '':'' \<notin> set s \<and> CHR ''.'' \<notin> set s"

definition plain_name :: "service_port_name \<Rightarrow> bool" where
  "plain_name spn \<longleftrightarrow> plain (Namespace (NamespacedName_of spn)) \<and>
     plain (Name (NamespacedName_of spn)) \<and> plain (Port spn)"

section \<open>Sample objects\<close>

text \<open>A UDP service and a TCP service, used to evaluate the model on closed examples.\<close>

definition dns_service :: v1_service where
  "dns_service = \<lparr>svc_Namespace = ''kube'', svc_Name = ''dns'', ClusterIP = ''10.0.0.10'',
     Ports = [\<lparr>sp_Name = ''dns'', sp_Protocol = ''UDP'', sp_Port = 53, sp_NodePort = 0\<rparr>],
     SessionAffinity = ''None'', ClientIPTimeout = None, ExternalIPs = [],
     LoadBalancerSourceRanges = [], HealthCheckNodePort = 0, TopologyKeys = [], Ingress = [],
     svc_Type = ''ClusterIP'', ExternalTrafficPolicy = ''''\<rparr>"

definition web_service :: v1_service where
  "web_service = \<lparr>svc_Namespace = ''shop'', svc_Name = ''web'', ClusterIP = ''10.0.0.20'',
     Ports = [\<lparr>sp_Name = ''http'', sp_Protocol = ''TCP'', sp_Port = 80, sp_NodePort = 30080\<rparr>],
     SessionAffinity = ''ClientIP'', ClientIPTimeout = Some 10800, ExternalIPs = [],
     LoadBalancerSourceRanges = [], HealthCheckNodePort = 30500, TopologyKeys = [], Ingress = [],
     svc_Type = ''LoadBalancer'', ExternalTrafficPolicy = ''Local''\<rparr>"

definition dns_name :: service_port_name where
  "dns_name = ServicePortName (NamespacedName ''kube'' ''dns'') ''dns'' ''UDP''"

definition web_name :: service_port_name where
  "web_name = ServicePortName (NamespacedName ''shop'' ''web'') ''http'' ''TCP''"

lemma IPString_simple: "IPString simple_ext (map of_char s) = s"
  by (simp add: simple_ext_def map_idI comp_def)

end
