(* ===== verification/Tracker_Spec.thy ===== *)
theory Tracker_Spec
  imports Api
begin

text \<open>
  What the change trackers of \<open>controller/\<close> promise the proxier, as two interfaces.

  A \<^emph>\<open>change source\<close> holds, for every owner (a namespaced name), at most one pending change: the
  entries the owner had when its last change was applied and the entries it has now. Applying
  the pending changes to a map replaces, for each such owner, the old entries by the new ones.
  An \<^emph>\<open>object tracker\<close> is a change source that is fed with the events of an informer, pairs of
  the previous and the current object.

  The client's theorem, proved here once, is that the map the proxier keeps is, after a sync,
  the map of the objects that are alive, whatever events were delivered before and however
  they were grouped between syncs. The service tracker, the endpoints tracker and the
  endpoint slice cache provide these interfaces.
\<close>

type_synonym ('k, 'p, 'v) pending =
  "('k, ('p, 'v) fmap option \<times> ('p, 'v) fmap option) fmap"

text \<open>
  The map and the pending changes are in step with the present entries \<open>now\<close> of every owner:
  an owner with nothing pending has its present entries in the map, an owner with a pending
  change has its previous entries in the map and its present ones in the change.
\<close>

definition in_step ::
    "('p \<Rightarrow> 'k) \<Rightarrow> ('k \<Rightarrow> ('p, 'v) fmap) \<Rightarrow> ('k, 'p, 'v) pending \<Rightarrow> ('p, 'v) fmap \<Rightarrow> bool" where
  "in_step owner now pd m \<longleftrightarrow>
     (\<forall>p. case fmlookup pd (owner p) of
            None \<Rightarrow> fmlookup m p = fmlookup (now (owner p)) p
          | Some (prev, cur) \<Rightarrow>
              fmlookup m p = fmlookup (nilmap prev) p \<and>
              fmlookup (nilmap cur) p = fmlookup (now (owner p)) p)"

lemma in_step_None:
  "in_step owner now pd m \<Longrightarrow> fmlookup pd (owner p) = None \<Longrightarrow>
     fmlookup m p = fmlookup (now (owner p)) p"
  by (auto simp: in_step_def split: option.splits dest: spec [of _ p])

lemma in_step_Some:
  assumes "in_step owner now pd m" and "fmlookup pd (owner p) = Some (prev, cur)"
  shows "fmlookup m p = fmlookup (nilmap prev) p \<and>
         fmlookup (nilmap cur) p = fmlookup (now (owner p)) p"
  using assms by (auto simp: in_step_def split: option.splits dest: spec [of _ p])

section \<open>Change sources\<close>

locale change_source =
  fixes owner :: "'p \<Rightarrow> 'k"
    and pend :: "'t \<Rightarrow> ('k, 'p, 'v) pending"
    and good :: "'t \<Rightarrow> bool"
    and legal :: "'o \<Rightarrow> 't \<Rightarrow> bool"
    and commit :: "'o \<Rightarrow> 't \<Rightarrow> ('p, 'v) fmap \<Rightarrow> ('p, 'v) fmap"
    and drain :: "'o \<Rightarrow> 't \<Rightarrow> 't"
  assumes lookup_commit:
      "good t \<Longrightarrow> legal ord t \<Longrightarrow>
         fmlookup (commit ord t m) p =
           (case fmlookup (pend t) (owner p) of
              None \<Rightarrow> fmlookup m p
            | Some (prev, cur) \<Rightarrow>
                fmlookup (replace_entries (nilmap prev) (nilmap cur) m) p)"
    and pend_drain: "good t \<Longrightarrow> legal ord t \<Longrightarrow> pend (drain ord t) = fmempty"
    and good_drain: "good t \<Longrightarrow> legal ord t \<Longrightarrow> good (drain ord t)"
begin

text \<open>
  What the entry of \<open>p\<close> becomes, if the previous entries of a pending change cover the one in
  the map: the values of the previous entries do not matter, only their keys.
\<close>

lemma commit_current:
  assumes "good t" "legal ord t"
    and "\<And>prev cur. fmlookup (pend t) (owner p) = Some (prev, cur) \<Longrightarrow> p |\<in>| fmdom m \<Longrightarrow>
      p |\<in>| fmdom (nilmap prev)"
  shows "fmlookup (commit ord t m) p =
     (case fmlookup (pend t) (owner p) of
        None \<Rightarrow> fmlookup m p
      | Some (prev, cur) \<Rightarrow> fmlookup (nilmap cur) p)"
proof (cases "fmlookup (pend t) (owner p)")
  case None
  then show ?thesis using assms by (simp add: lookup_commit)
next
  case (Some c)
  obtain prev cur where c: "c = (prev, cur)" by (cases c)
  show ?thesis
  proof (cases "fmlookup (nilmap cur) p")
    case None
    then show ?thesis using assms(1,2) assms(3) [OF Some [unfolded c]] Some c
      by (auto simp: lookup_commit lookup_replace_entries fmdom_notD)
  next
    case v: (Some v)
    then show ?thesis using assms(1,2) Some c by (simp add: lookup_commit lookup_replace_entries)
  qed
qed

lemma commit_now:
  assumes "good t" "legal ord t" "in_step owner now (pend t) m"
  shows "fmlookup (commit ord t m) p = fmlookup (now (owner p)) p"
proof -
  have "p |\<in>| fmdom (nilmap prev)"
    if "fmlookup (pend t) (owner p) = Some (prev, cur)" "p |\<in>| fmdom m" for prev cur
    using in_step_Some [OF assms(3) that(1)] that(2) by (auto simp: fmlookup_dom_iff)
  then show ?thesis
    using commit_current [OF assms(1,2)] in_step_None [OF assms(3)] in_step_Some [OF assms(3)]
    by (auto split: option.split)
qed

lemma commit_in_step:
  assumes "good t" "legal ord t" "in_step owner now (pend t) m"
  shows "in_step owner now (pend (drain ord t)) (commit ord t m)"
  using assms by (simp add: in_step_def pend_drain commit_now)

lemma commit_order_irrelevant:
  assumes "good t" "legal ord t" "legal ord' t"
  shows "commit ord t m = commit ord' t m"
  using assms by (intro fmap_ext) (simp add: lookup_commit)

lemma commit_nothing:
  assumes "good t" "legal ord t" "pend t = fmempty"
  shows "commit ord t m = m"
  using assms by (intro fmap_ext) (simp add: lookup_commit)

lemma commit_twice:
  assumes "good t" "legal ord t" "legal ord' (drain ord t)"
  shows "commit ord' (drain ord t) (commit ord t m) = commit ord t m"
  using assms by (intro commit_nothing) (simp_all add: pend_drain good_drain)

end

section \<open>Object trackers\<close>

text \<open>
  An informer delivers the object it last delivered under a name (none, for a new object)
  together with the object that is there now (none, when it was deleted). \<open>live\<close> is what it
  has delivered so far.
\<close>

definition event_key :: "('a \<Rightarrow> 'k) \<Rightarrow> 'a option \<Rightarrow> 'a option \<Rightarrow> 'k option" where
  "event_key key prev cur =
     (case cur of Some b \<Rightarrow> Some (key b) | None \<Rightarrow> map_option key prev)"

definition informer_event :: "('a \<Rightarrow> 'k) \<Rightarrow> ('k \<rightharpoonup> 'a) \<Rightarrow> 'a option \<Rightarrow> 'a option \<Rightarrow> bool" where
  "informer_event key live prev cur \<longleftrightarrow>
     (case event_key key prev cur of None \<Rightarrow> False | Some k \<Rightarrow> prev = live k)"

definition live_after :: "('a \<Rightarrow> 'k) \<Rightarrow> ('k \<rightharpoonup> 'a) \<Rightarrow> 'a option \<Rightarrow> 'a option \<Rightarrow> ('k \<rightharpoonup> 'a)" where
  "live_after key live prev cur =
     (case event_key key prev cur of None \<Rightarrow> live | Some k \<Rightarrow> live(k := cur))"

definition entries_of :: "('a \<Rightarrow> ('p, 'v) fmap option) \<Rightarrow> 'a option \<Rightarrow> ('p, 'v) fmap option" where
  "entries_of tomap obj = (case obj of None \<Rightarrow> None | Some a \<Rightarrow> tomap a)"

lemma entries_of_simps [simp]:
  "entries_of tomap None = None" "entries_of tomap (Some a) = tomap a"
  by (simp_all add: entries_of_def)

text \<open>The pending changes after an event: the previous entries are kept from the first event
  since the last sync, and a change back to them cancels the pending change.\<close>

definition pend_after ::
    "('k, 'p, 'v) pending \<Rightarrow> 'k \<Rightarrow> ('p, 'v) fmap option \<Rightarrow> ('p, 'v) fmap option \<Rightarrow>
     ('k, 'p, 'v) pending" where
  "pend_after pd k mprev mcur =
     (let prev = (case fmlookup pd k of Some (prev, _) \<Rightarrow> prev | None \<Rightarrow> mprev)
      in if prev = mcur then fmdrop k pd else fmupd k (prev, mcur) pd)"

text \<open>A run: events are delivered and syncs are made, in any order.\<close>

inductive tracker_run ::
    "('a \<Rightarrow> 'k) \<Rightarrow> ('a \<Rightarrow> bool) \<Rightarrow> ('a option \<Rightarrow> 'a option \<Rightarrow> 't \<Rightarrow> (bool \<times> 't) result) \<Rightarrow>
     ('o \<Rightarrow> 't \<Rightarrow> bool) \<Rightarrow> ('o \<Rightarrow> 't \<Rightarrow> ('p, 'v) fmap \<Rightarrow> ('p, 'v) fmap) \<Rightarrow> ('o \<Rightarrow> 't \<Rightarrow> 't) \<Rightarrow> 't \<Rightarrow>
     ('k \<rightharpoonup> 'a) \<Rightarrow> 't \<Rightarrow> ('p, 'v) fmap \<Rightarrow> bool"
  for key ok update legal commit drain t0 where
  start: "tracker_run key ok update legal commit drain t0 Map.empty t0 fmempty"
| deliver: "tracker_run key ok update legal commit drain t0 live t m \<Longrightarrow>
     informer_event key live prev cur \<Longrightarrow> pred_option ok cur \<Longrightarrow>
     update prev cur t = Inr (r, t') \<Longrightarrow>
     tracker_run key ok update legal commit drain t0 (live_after key live prev cur) t' m"
| sync: "tracker_run key ok update legal commit drain t0 live t m \<Longrightarrow> legal ord t \<Longrightarrow>
     tracker_run key ok update legal commit drain t0 live (drain ord t) (commit ord t m)"

locale object_tracker = change_source owner pend good legal commit drain
  for owner :: "'p \<Rightarrow> 'k" and pend :: "'t \<Rightarrow> ('k, 'p, 'v) pending"
    and good :: "'t \<Rightarrow> bool" and legal :: "'o \<Rightarrow> 't \<Rightarrow> bool"
    and commit :: "'o \<Rightarrow> 't \<Rightarrow> ('p, 'v) fmap \<Rightarrow> ('p, 'v) fmap"
    and drain :: "'o \<Rightarrow> 't \<Rightarrow> 't" +
  fixes key :: "'a \<Rightarrow> 'k"
    and ok :: "'a \<Rightarrow> bool"
    and tomap :: "'a \<Rightarrow> ('p, 'v) fmap option"
    and update :: "'a option \<Rightarrow> 'a option \<Rightarrow> 't \<Rightarrow> (bool \<times> 't) result"
  assumes tomap_owned: "ok a \<Longrightarrow> p |\<in>| fmdom (nilmap (tomap a)) \<Longrightarrow> owner p = key a"
    and update_pend:
      "good t \<Longrightarrow> pred_option ok prev \<Longrightarrow> pred_option ok cur \<Longrightarrow>
         event_key key prev cur = Some k \<Longrightarrow> pred_option (\<lambda>a. key a = k) prev \<Longrightarrow>
         \<exists>t'. update prev cur t = Inr (pend t' \<noteq> fmempty, t') \<and> good t' \<and>
              pend t' = pend_after (pend t) k (entries_of tomap prev) (entries_of tomap cur)"
begin

abbreviation now :: "('k \<rightharpoonup> 'a) \<Rightarrow> 'k \<Rightarrow> ('p, 'v) fmap" where
  "now live k \<equiv> nilmap (entries_of tomap (live k))"

text \<open>Every live object is well formed and filed under its own name.\<close>

definition filed :: "('k \<rightharpoonup> 'a) \<Rightarrow> bool" where
  "filed live \<longleftrightarrow> (\<forall>k a. live k = Some a \<longrightarrow> ok a \<and> key a = k)"

lemma filed_ok: "filed live \<Longrightarrow> pred_option ok (live k) \<and> pred_option (\<lambda>a. key a = k) (live k)"
  by (cases "live k") (auto simp: filed_def)

lemma filed_after:
  assumes "filed live" and "informer_event key live prev cur" and "pred_option ok cur"
  shows "filed (live_after key live prev cur)"
  using assms
  by (auto simp: filed_def live_after_def informer_event_def event_key_def split: option.splits)

lemma in_step_pend_after:
  assumes step: "in_step owner (now live) pd m"
    and prev: "prev = live k"
  shows "in_step owner (now (live(k := cur)))
           (pend_after pd k (entries_of tomap prev) (entries_of tomap cur)) m"
  unfolding in_step_def
proof
  fix p
  show "case fmlookup (pend_after pd k (entries_of tomap prev) (entries_of tomap cur)) (owner p) of
          None \<Rightarrow> fmlookup m p = fmlookup (now (live(k := cur)) (owner p)) p
        | Some (old, new) \<Rightarrow> fmlookup m p = fmlookup (nilmap old) p \<and>
            fmlookup (nilmap new) p = fmlookup (now (live(k := cur)) (owner p)) p"
  proof (cases "owner p = k")
    case False
    then show ?thesis using step
      by (auto simp: pend_after_def Let_def in_step_def split: option.splits
            dest: spec [of _ p])
  next
    case True
    show ?thesis
    proof (cases "fmlookup pd k")
      case None
      then show ?thesis using True in_step_None [OF step, of p] prev
        by (simp add: pend_after_def Let_def)
    next
      case (Some c)
      obtain old new where c: "c = (old, new)" by (cases c)
      then show ?thesis using True Some in_step_Some [OF step, of p old new]
        by (simp add: pend_after_def Let_def)
    qed
  qed
qed

lemma deliver_in_step:
  assumes good: "good t" and live: "filed live" and step: "in_step owner (now live) (pend t) m"
    and ev: "informer_event key live prev cur" and ok: "pred_option ok cur"
    and upd: "update prev cur t = Inr (r, t')"
  shows "good t' \<and> in_step owner (now (live_after key live prev cur)) (pend t') m"
proof -
  obtain k where k: "event_key key prev cur = Some k" and prev: "prev = live k"
    using ev by (auto simp: informer_event_def split: option.splits)
  have "pred_option ok prev" "pred_option (\<lambda>a. key a = k) prev"
    using filed_ok [OF live] prev by simp_all
  then obtain t'' where t'': "update prev cur t = Inr (pend t'' \<noteq> fmempty, t'')" "good t''"
      "pend t'' = pend_after (pend t) k (entries_of tomap prev) (entries_of tomap cur)"
    using update_pend [OF good _ ok k] by blast
  then have "t' = t''" using upd by simp
  then show ?thesis using t'' in_step_pend_after [OF step prev] k by (simp add: live_after_def)
qed

text \<open>Deliveries never panic: a run can always go on.\<close>

lemma deliver_progress:
  assumes "good t" "filed live" "informer_event key live prev cur" "pred_option ok cur"
  shows "\<exists>r t'. update prev cur t = Inr (r, t')"
proof -
  obtain k where k: "event_key key prev cur = Some k" and prev: "prev = live k"
    using assms(3) by (auto simp: informer_event_def split: option.splits)
  have "pred_option ok prev" "pred_option (\<lambda>a. key a = k) prev"
    using filed_ok [OF assms(2)] prev by simp_all
  then show ?thesis using update_pend [OF assms(1) _ assms(4) k] by blast
qed

lemma run_invariant:
  assumes "tracker_run key ok update legal commit drain t0 live t m"
    and "good t0" and "pend t0 = fmempty"
  shows "good t \<and> filed live \<and> in_step owner (now live) (pend t) m"
  using assms
proof (induction rule: tracker_run.induct)
  case start
  then show ?case by (simp add: filed_def in_step_def)
next
  case (deliver live t m prev cur r t')
  then show ?case using deliver_in_step filed_after by blast
next
  case (sync live t m ord)
  then show ?case using commit_in_step good_drain by blast
qed

theorem run_sync_exact:
  assumes "tracker_run key ok update legal commit drain t0 live t m"
    and "good t0" and "pend t0 = fmempty" and "legal ord t"
  shows "fmlookup (commit ord t m) p = fmlookup (now live (owner p)) p"
  using run_invariant [OF assms(1-3)] assms(4) commit_now by blast

text \<open>At any time, every entry of the map is one of a well-formed object of that owner.\<close>

lemma run_values:
  assumes "tracker_run key ok update legal commit drain t0 live t m"
    and "good t0" and "pend t0 = fmempty" and "fmlookup m p = Some v"
  shows "\<exists>a. ok a \<and> key a = owner p \<and> fmlookup (nilmap (tomap a)) p = Some v"
  using assms(1,4)
proof (induction rule: tracker_run.induct)
  case (sync live t m ord)
  then have v: "fmlookup (now live (owner p)) p = Some v"
    using run_sync_exact [OF sync.hyps(1) assms(2,3) sync.hyps(2)] by simp
  then obtain a where "live (owner p) = Some a" by (cases "live (owner p)") auto
  then show ?case using v run_invariant [OF sync.hyps(1) assms(2,3)] by (auto simp: filed_def)
qed simp_all

end

end
