(* ===== verification/Service_Tracker.thy ===== *)
theory Service_Tracker
  imports Tracker_Spec
begin

text \<open>
  \<open>controller/service.go\<close>: the service map (one entry per port of a service), the tracker of
  uncommitted service changes, and how the changes are applied to the map.
  \<open>sct_update\<close> is \<open>ServiceChangeTracker.Update\<close>, \<open>UpdateServiceMap\<close> and \<open>service_map_apply\<close>
  apply the changes; the tracker provides the object tracker interface of \<open>Tracker_Spec\<close>.
  The callback \<open>processServiceMapChange\<close> is nil in the only call of the constructor and is left
  out, as are the logs, the events and the metrics gauge.
\<close>

section \<open>Service information\<close>

record base_service_info =
  clusterIP :: net_ip
  port :: int
  protocol :: string
  nodePort :: int
  loadBalancerStatus :: "ingress list"
  sessionAffinityType :: string
  stickyMaxAgeSeconds :: int
  externalIPs :: "string list"
  loadBalancerSourceRanges :: "string list"
  healthCheckNodePort :: int
  onlyNodeLocalEndpoints :: bool
  topologyKeys :: "string list"

text \<open>
  The implementations of the interface \<open>api.ServicePort\<close>: the base information itself and the
  proxier's \<open>serviceInfo\<close>, which embeds it and adds the printed name.
\<close>

datatype service_port =
    BaseServiceInfo (base_of: base_service_info)
  | ServiceInfo (base_of: base_service_info) (serviceNameString: string)

type_synonym service_map = "(service_port_name, service_port) fmap"

definition BaseServiceInfo_String :: "k8s_ext \<Rightarrow> base_service_info \<Rightarrow> string" where
  "BaseServiceInfo_String x info =
     IPString x (clusterIP info) @ '':'' @ Itoa (port info) @ ''/'' @ protocol info"

definition LoadBalancerIPStrings :: "base_service_info \<Rightarrow> string list" where
  "LoadBalancerIPStrings info = map ing_IP (loadBalancerStatus info)"

record service_change =
  previous :: "service_map option"
  current :: "service_map option"

record service_change_tracker =
  items :: "(namespaced_name, service_change) fmap"
  makeServiceInfo :: "(v1_service_port \<Rightarrow> v1_service \<Rightarrow> base_service_info \<Rightarrow> service_port) option"
  isIPv6Mode :: "bool option"

definition NewServiceChangeTracker ::
    "(v1_service_port \<Rightarrow> v1_service \<Rightarrow> base_service_info \<Rightarrow> service_port) option \<Rightarrow>
     service_change_tracker" where
  "NewServiceChangeTracker mk =
     \<lparr>items = fmempty, makeServiceInfo = mk, isIPv6Mode = None\<rparr>"

text \<open>
  \<open>newBaseServiceInfo\<close>. The timeout of a service with client affinity is read through three
  pointers without a check. Without an IP family the lists are copied; with one, the addresses
  of the other family are dropped and the hostnames of the ingress points with them.
\<close>

definition newBaseServiceInfo ::
    "k8s_ext \<Rightarrow> service_change_tracker \<Rightarrow> v1_service_port \<Rightarrow> v1_service \<Rightarrow>
     base_service_info result" where
  "newBaseServiceInfo x sct p s =
     bindr (if SessionAffinity s = ''ClientIP''
            then (case ClientIPTimeout s of None \<Rightarrow> Inl NilDeref | Some t \<Rightarrow> Inr t)
            else Inr 0)
       (\<lambda>sticky.
         let ranges = map TrimSpace (LoadBalancerSourceRanges s);
             (ext, rngs, lb) =
               (case isIPv6Mode sct of
                  None \<Rightarrow> (ExternalIPs s, ranges, Ingress s)
                | Some v6 \<Rightarrow>
                    (fst (FilterIncorrectIPVersion x (ExternalIPs s) v6),
                     fst (FilterIncorrectCIDRVersion x ranges v6),
                     (if Ingress s = [] then []
                      else map (\<lambda>ip. \<lparr>ing_IP = ip, ing_Hostname = ''''\<rparr>)
                             (fst (FilterIncorrectIPVersion x (map ing_IP (Ingress s)) v6)))))
         in Inr \<lparr>clusterIP = ParseIP x (ClusterIP s),
                 port = sp_Port p,
                 protocol = sp_Protocol p,
                 nodePort = sp_NodePort p,
                 loadBalancerStatus = lb,
                 sessionAffinityType = SessionAffinity s,
                 stickyMaxAgeSeconds = sticky,
                 externalIPs = ext,
                 loadBalancerSourceRanges = rngs,
                 healthCheckNodePort =
                   (if NeedsHealthCheck x s then HealthCheckNodePort s else 0),
                 onlyNodeLocalEndpoints = RequestsOnlyLocalTraffic x s,
                 topologyKeys = TopologyKeys s\<rparr>)"

section \<open>From a service to its entries\<close>

definition service_key :: "v1_service \<Rightarrow> namespaced_name" where
  "service_key s = NamespacedName (svc_Namespace s) (svc_Name s)"

definition svcPortName_of :: "v1_service \<Rightarrow> v1_service_port \<Rightarrow> service_port_name" where
  "svcPortName_of s p = ServicePortName (service_key s) (sp_Name p) (sp_Protocol p)"

definition add_service_port ::
    "k8s_ext \<Rightarrow> service_change_tracker \<Rightarrow> v1_service \<Rightarrow> service_map \<Rightarrow> v1_service_port \<Rightarrow>
     service_map result" where
  "add_service_port x sct s m p =
     bindr (newBaseServiceInfo x sct p s) (\<lambda>info.
       Inr (fmupd (svcPortName_of s p)
              (case makeServiceInfo sct of
                 Some mk \<Rightarrow> mk p s info
               | None \<Rightarrow> BaseServiceInfo info) m))"

definition serviceToServiceMap ::
    "k8s_ext \<Rightarrow> service_change_tracker \<Rightarrow> v1_service option \<Rightarrow> service_map option result" where
  "serviceToServiceMap x sct service =
     (case service of
        None \<Rightarrow> Inr None
      | Some s \<Rightarrow>
          if ShouldSkipService x s then Inr None
          else if ClusterIP s \<noteq> '''' \<and>
               (case isIPv6Mode sct of None \<Rightarrow> False
                | Some v6 \<Rightarrow> IsIPv6String x (ClusterIP s) \<noteq> v6) then Inr None
          else bindr (foldr_r (add_service_port x sct s) fmempty (Ports s)) (\<lambda>m. Inr (Some m)))"

section \<open>Tracking changes\<close>

text \<open>
  \<open>Update(previous, current)\<close>: the previous entries are computed only for the first event
  since the last sync; the current ones always. When both agree (\<open>reflect.DeepEqual\<close>, so a nil
  map differs from an empty one) nothing is left to do for this service.
\<close>

definition sct_update ::
    "k8s_ext \<Rightarrow> v1_service option \<Rightarrow> v1_service option \<Rightarrow> service_change_tracker \<Rightarrow>
     (bool \<times> service_change_tracker) result" where
  "sct_update x prev cur sct =
     (case (case cur of Some s \<Rightarrow> Some s | None \<Rightarrow> prev) of
        None \<Rightarrow> Inr (False, sct)
      | Some svc \<Rightarrow>
          let nn = service_key svc in
          bindr (case fmlookup (items sct) nn of
                   Some change \<Rightarrow> Inr (previous change)
                 | None \<Rightarrow> serviceToServiceMap x sct prev)
            (\<lambda>mprev. bindr (serviceToServiceMap x sct cur)
              (\<lambda>mcur.
                let sct' = sct\<lparr>items :=
                      (if mprev = mcur then fmdrop nn (items sct)
                       else fmupd nn \<lparr>previous = mprev, current = mcur\<rparr> (items sct))\<rparr>
                in Inr (items sct' \<noteq> fmempty, sct'))))"

section \<open>Applying changes\<close>

text \<open>\<open>merge\<close> also returns the printed names of what it stored.\<close>

definition service_map_merge :: "service_map \<Rightarrow> service_map \<Rightarrow> service_map \<times> string fset" where
  "service_map_merge sm other = (sm ++\<^sub>f other, ServicePortName_String |`| fmdom other)"

definition service_map_filter :: "service_map \<Rightarrow> service_map \<Rightarrow> service_map" where
  "service_map_filter sm other = fmfilter (\<lambda>spn. spn |\<notin>| fmdom other) sm"

text \<open>\<open>unmerge\<close>: one visit per name of \<open>other\<close>, recording the cluster IP of a UDP entry.\<close>

definition unmerge_step ::
    "k8s_ext \<Rightarrow> service_port_name \<Rightarrow> service_map \<times> string fset \<Rightarrow> service_map \<times> string fset" where
  "unmerge_step x spn st =
     (case st of (sm, stale) \<Rightarrow>
        (case fmlookup sm spn of
           Some info \<Rightarrow>
             (fmdrop spn sm,
              if protocol (base_of info) = ProtocolUDP
              then finsert (IPString x (clusterIP (base_of info))) stale else stale)
         | None \<Rightarrow> (sm, stale)))"

definition service_map_unmerge ::
    "k8s_ext \<Rightarrow> service_map \<Rightarrow> service_map \<Rightarrow> string fset \<Rightarrow> service_map \<times> string fset" where
  "service_map_unmerge x sm other stale =
     fold (unmerge_step x) (sorted_list_of_fset (fmdom other)) (sm, stale)"

definition apply_service_change ::
    "k8s_ext \<Rightarrow> service_change \<Rightarrow> service_map \<times> string fset \<Rightarrow> service_map \<times> string fset" where
  "apply_service_change x change st =
     (case st of (sm, stale) \<Rightarrow>
        let merged = fst (service_map_merge sm (nilmap (current change)));
            gone = service_map_filter (nilmap (previous change)) (nilmap (current change))
        in service_map_unmerge x merged gone stale)"

definition service_map_apply ::
    "k8s_ext \<Rightarrow> namespaced_name list \<Rightarrow> service_change_tracker \<Rightarrow> service_map \<Rightarrow>
     string fset \<Rightarrow> (service_map \<times> string fset) \<times> service_change_tracker" where
  "service_map_apply x ord changes sm stale =
     (range_in ord (\<lambda>_. apply_service_change x) (items changes) (sm, stale),
      changes\<lparr>items := fmempty\<rparr>)"

record update_service_map_result =
  HCServiceNodePorts :: "(namespaced_name, int) fmap"
  UDPStaleClusterIP :: "string fset"

text \<open>\<open>uint16(info.HealthCheckNodePort())\<close> keeps the low 16 bits.\<close>

definition to_uint16 :: "int \<Rightarrow> int" where
  "to_uint16 i = i mod 65536"

definition UpdateServiceMap ::
    "k8s_ext \<Rightarrow> namespaced_name list \<Rightarrow> (service_map \<Rightarrow> service_port_name list) \<Rightarrow>
     service_map \<Rightarrow> service_change_tracker \<Rightarrow>
     service_map \<times> service_change_tracker \<times> update_service_map_result" where
  "UpdateServiceMap x ord visit sm changes =
     (let ((sm', stale), changes') = service_map_apply x ord changes sm {||};
          hc = range_in (visit sm')
                 (\<lambda>spn info hc.
                    if healthCheckNodePort (base_of info) \<noteq> 0
                    then fmupd (NamespacedName_of spn)
                           (to_uint16 (healthCheckNodePort (base_of info))) hc
                    else hc) sm' fmempty
      in (sm', changes', \<lparr>HCServiceNodePorts = hc, UDPStaleClusterIP = stale\<rparr>))"

section \<open>Lemmas: a service and its entries\<close>

text \<open>The API server sets a timeout when the affinity is \<open>ClientIP\<close>; only this excludes a panic.\<close>

definition ok_service :: "v1_service \<Rightarrow> bool" where
  "ok_service s \<longleftrightarrow> (SessionAffinity s = ''ClientIP'' \<longrightarrow> ClientIPTimeout s \<noteq> None)"

definition same_config :: "service_change_tracker \<Rightarrow> service_change_tracker \<Rightarrow> bool" where
  "same_config sct sct' \<longleftrightarrow>
     makeServiceInfo sct = makeServiceInfo sct' \<and> isIPv6Mode sct = isIPv6Mode sct'"

lemma newBaseServiceInfo_panics_iff:
  "(\<exists>e. newBaseServiceInfo x sct p s = Inl e) \<longleftrightarrow> \<not> ok_service s"
  by (auto simp: newBaseServiceInfo_def ok_service_def bindr_Inl_iff Let_def
      split: option.splits prod.splits if_splits)

lemma newBaseServiceInfo_ok: "ok_service s \<Longrightarrow> \<exists>info. newBaseServiceInfo x sct p s = Inr info"
  by (metis newBaseServiceInfo_panics_iff obj_sumE)

lemma newBaseServiceInfo_config:
  "same_config sct sct' \<Longrightarrow> newBaseServiceInfo x sct p s = newBaseServiceInfo x sct' p s"
  by (simp add: newBaseServiceInfo_def same_config_def)

lemma serviceToServiceMap_config:
  "same_config sct sct' \<Longrightarrow> serviceToServiceMap x sct svc = serviceToServiceMap x sct' svc"
proof -
  assume same: "same_config sct sct'"
  then have "add_service_port x sct = add_service_port x sct'"
    by (intro ext) (simp add: add_service_port_def newBaseServiceInfo_config [OF same]
      same_config_def)
  then show ?thesis using same
    by (cases svc) (simp_all add: serviceToServiceMap_def same_config_def)
qed

lemma serviceToServiceMap_ok:
  assumes "pred_option ok_service svc"
  shows "\<exists>m. serviceToServiceMap x sct svc = Inr m"
proof (cases svc)
  case None
  then show ?thesis by (simp add: serviceToServiceMap_def)
next
  case (Some s)
  then have ok: "ok_service s" using assms by simp
  have "\<exists>t. add_service_port x sct s m p = Inr t" for m p
    using newBaseServiceInfo_ok [OF ok, of x sct p] by (auto simp: add_service_port_def)
  then have "\<exists>t. foldr_r (add_service_port x sct s) fmempty (Ports s) = Inr t"
    by (intro foldr_r_ok) blast
  then show ?thesis using Some by (auto simp: serviceToServiceMap_def)
qed

lemma serviceToServiceMap_owned:
  assumes "serviceToServiceMap x sct (Some s) = Inr m" and "spn |\<in>| fmdom (nilmap m)"
  shows "NamespacedName_of spn = service_key s"
proof (cases m)
  case None
  then show ?thesis using assms(2) by simp
next
  case (Some m')
  then have fold: "foldr_r (add_service_port x sct s) fmempty (Ports s) = Inr m'"
    using assms(1) by (auto simp: serviceToServiceMap_def bindr_Inr_iff split: if_splits)
  have "\<forall>spn. spn |\<in>| fmdom m' \<longrightarrow> NamespacedName_of spn = service_key s"
    by (rule foldr_r_invariant [OF fold])
      (auto simp: add_service_port_def svcPortName_of_def bindr_Inr_iff)
  then show ?thesis using assms(2) Some by simp
qed

section \<open>Lemmas: applying changes\<close>

definition udp_entry :: "service_map \<Rightarrow> service_port_name \<Rightarrow> bool" where
  "udp_entry sm spn \<longleftrightarrow>
     (case fmlookup sm spn of Some info \<Rightarrow> protocol (base_of info) = ProtocolUDP | None \<Rightarrow> False)"

definition entry_ip :: "k8s_ext \<Rightarrow> service_map \<Rightarrow> service_port_name \<Rightarrow> string" where
  "entry_ip x sm spn = (case fmlookup sm spn of
     Some info \<Rightarrow> IPString x (clusterIP (base_of info)) | None \<Rightarrow> '''')"

lemma udp_entry_drop: "udp_entry (fmdrop a sm) spn \<longleftrightarrow> spn \<noteq> a \<and> udp_entry sm spn"
  by (simp add: udp_entry_def)

lemma entry_ip_drop: "spn \<noteq> a \<Longrightarrow> entry_ip x (fmdrop a sm) spn = entry_ip x sm spn"
  by (simp add: entry_ip_def)

lemma unmerge_step_eq:
  "unmerge_step x a (sm, stale) =
     (fmdrop a sm, if udp_entry sm a then finsert (entry_ip x sm a) stale else stale)"
proof (cases "fmlookup sm a")
  case None
  then have "fmdrop a sm = sm" by (intro fmap_ext) simp
  then show ?thesis using None by (simp add: unmerge_step_def udp_entry_def)
qed (simp add: unmerge_step_def udp_entry_def entry_ip_def)

lemma unmerge_fold_fst:
  "fst (fold (unmerge_step x) ks (sm, stale)) = fmdrop_fset (fset_of_list ks) sm"
  by (induction ks arbitrary: sm stale) (simp_all add: unmerge_step_eq)

lemma unmerge_fold_snd:
  "ip |\<in>| snd (fold (unmerge_step x) ks (sm, stale)) \<longleftrightarrow>
     ip |\<in>| stale \<or> (\<exists>spn \<in> set ks. udp_entry sm spn \<and> ip = entry_ip x sm spn)"
proof (induction ks arbitrary: sm stale)
  case (Cons a ks)
  have "(\<exists>spn \<in> set ks. udp_entry (fmdrop a sm) spn \<and> ip = entry_ip x (fmdrop a sm) spn) \<longleftrightarrow>
        (\<exists>spn \<in> set ks. spn \<noteq> a \<and> udp_entry sm spn \<and> ip = entry_ip x sm spn)"
    by (metis udp_entry_drop entry_ip_drop)
  then show ?case by (auto simp: Cons.IH unmerge_step_eq)
qed simp

text \<open>\<open>unmerge\<close> computes the same for every order in which \<open>range\<close> visits \<open>other\<close>.\<close>

lemma unmerge_any_order:
  assumes "visits ks other"
  shows "fold (unmerge_step x) ks (sm, stale) = service_map_unmerge x sm other stale"
proof (rule prod_eqI)
  have "fset_of_list ks = fmdom other"
    using assms by (auto simp: visits_def fset_eq_iff fset_of_list.rep_eq)
  then show "fst (fold (unmerge_step x) ks (sm, stale)) = fst (service_map_unmerge x sm other stale)"
    by (simp add: service_map_unmerge_def unmerge_fold_fst)
  show "snd (fold (unmerge_step x) ks (sm, stale)) = snd (service_map_unmerge x sm other stale)"
    using assms by (auto simp: fset_eq_iff service_map_unmerge_def unmerge_fold_snd visits_def
        sorted_list_of_fset.rep_eq)
qed

lemma fst_unmerge: "fst (service_map_unmerge x sm other stale) = fmdrop_fset (fmdom other) sm"
  by (simp add: service_map_unmerge_def unmerge_fold_fst)

lemma snd_unmerge:
  "ip |\<in>| snd (service_map_unmerge x sm other stale) \<longleftrightarrow>
     ip |\<in>| stale \<or> (\<exists>spn. spn |\<in>| fmdom other \<and> udp_entry sm spn \<and> ip = entry_ip x sm spn)"
  by (auto simp: service_map_unmerge_def unmerge_fold_snd sorted_list_of_fset.rep_eq)

lemma fst_apply_service_change:
  "fst (apply_service_change x change (sm, stale)) =
     replace_entries (nilmap (previous change)) (nilmap (current change)) sm"
proof (rule fmap_ext)
  fix spn
  show "fmlookup (fst (apply_service_change x change (sm, stale))) spn =
        fmlookup (replace_entries (nilmap (previous change)) (nilmap (current change)) sm) spn"
    by (auto simp: apply_service_change_def fst_unmerge service_map_merge_def
        service_map_filter_def map_simps fmdom_filter Let_def split: option.splits
        dest: fmdomI fmdom_notD)
qed

text \<open>
  A cluster IP becomes stale when an entry that the owner no longer has was a UDP entry.
\<close>

lemma snd_apply_service_change:
  "ip |\<in>| snd (apply_service_change x change (sm, stale)) \<longleftrightarrow>
     ip |\<in>| stale \<or>
     (\<exists>spn. spn |\<in>| fmdom (nilmap (previous change)) \<and> spn |\<notin>| fmdom (nilmap (current change)) \<and>
        udp_entry sm spn \<and> ip = entry_ip x sm spn)"
proof -
  have "udp_entry (sm ++\<^sub>f nilmap (current change)) spn = udp_entry sm spn \<and>
        entry_ip x (sm ++\<^sub>f nilmap (current change)) spn = entry_ip x sm spn"
    if "spn |\<notin>| fmdom (nilmap (current change))" for spn
    using that by (simp add: udp_entry_def entry_ip_def)
  then show ?thesis
    by (auto simp: apply_service_change_def snd_unmerge service_map_merge_def
        service_map_filter_def Let_def)
qed

section \<open>The tracker as an object tracker\<close>

text \<open>
  The entries a service stands for under a configuration, the pending changes of a tracker,
  and applying them without looking at the stale addresses.
\<close>

definition service_entries ::
    "k8s_ext \<Rightarrow> service_change_tracker \<Rightarrow> v1_service \<Rightarrow> service_map option" where
  "service_entries x sct s =
     (case serviceToServiceMap x sct (Some s) of Inr m \<Rightarrow> m | Inl _ \<Rightarrow> None)"

definition service_pending ::
    "service_change_tracker \<Rightarrow> (namespaced_name, service_port_name, service_port) pending" where
  "service_pending sct = fmmap (\<lambda>c. (previous c, current c)) (items sct)"

definition service_legal :: "namespaced_name list \<Rightarrow> service_change_tracker \<Rightarrow> bool" where
  "service_legal ord sct \<longleftrightarrow> visits ord (items sct)"

definition service_commit ::
    "k8s_ext \<Rightarrow> namespaced_name list \<Rightarrow> service_change_tracker \<Rightarrow> service_map \<Rightarrow> service_map" where
  "service_commit x ord sct sm = fst (fst (service_map_apply x ord sct sm {||}))"

definition service_drain ::
    "k8s_ext \<Rightarrow> namespaced_name list \<Rightarrow> service_change_tracker \<Rightarrow> service_change_tracker" where
  "service_drain x ord sct = snd (service_map_apply x ord sct fmempty {||})"

definition change_owned :: "namespaced_name \<Rightarrow> service_change \<Rightarrow> bool" where
  "change_owned nn c \<longleftrightarrow>
     (\<forall>spn. spn |\<in>| fmdom (nilmap (previous c)) \<or> spn |\<in>| fmdom (nilmap (current c)) \<longrightarrow>
        NamespacedName_of spn = nn)"

definition service_good :: "service_change_tracker \<Rightarrow> service_change_tracker \<Rightarrow> bool" where
  "service_good sct0 sct \<longleftrightarrow> same_config sct0 sct \<and> fmpred change_owned (items sct)"

lemma service_entries_Inr:
  assumes "same_config sct0 sct" and "ok_service s"
  shows "serviceToServiceMap x sct (Some s) = Inr (service_entries x sct0 s)"
proof -
  have "pred_option ok_service (Some s)" using assms(2) by simp
  then obtain m where "serviceToServiceMap x sct (Some s) = Inr m"
    using serviceToServiceMap_ok by blast
  moreover have "serviceToServiceMap x sct0 (Some s) = serviceToServiceMap x sct (Some s)"
    by (rule serviceToServiceMap_config [OF assms(1)])
  ultimately show ?thesis by (simp add: service_entries_def)
qed

lemma serviceToServiceMap_entries:
  assumes "same_config sct0 sct" and "pred_option ok_service svc"
  shows "serviceToServiceMap x sct svc = Inr (entries_of (service_entries x sct0) svc)"
proof (cases svc)
  case None
  then show ?thesis by (simp add: serviceToServiceMap_def)
next
  case (Some s)
  then show ?thesis using assms by (simp add: service_entries_Inr)
qed

lemma service_entries_owned:
  assumes "ok_service s" and "spn |\<in>| fmdom (nilmap (service_entries x sct0 s))"
  shows "NamespacedName_of spn = service_key s"
proof -
  have "same_config sct0 sct0" by (simp add: same_config_def)
  then show ?thesis
    using serviceToServiceMap_owned [OF service_entries_Inr [OF _ assms(1)] assms(2)] by blast
qed

text \<open>Only the change of the entry's owner touches the entry.\<close>

lemma lookup_apply_other:
  assumes "change_owned nn c" and "NamespacedName_of spn \<noteq> nn"
  shows "fmlookup (fst (apply_service_change x c st)) spn = fmlookup (fst st) spn"
proof -
  have "spn |\<notin>| fmdom (nilmap (previous c))" "spn |\<notin>| fmdom (nilmap (current c))"
    using assms by (auto simp: change_owned_def)
  then show ?thesis by (cases st) (simp add: fst_apply_service_change map_simps fmdom_notD)
qed

lemma lookup_service_commit:
  assumes good: "service_good sct0 sct" and ord: "visits ord (items sct)"
  shows "fmlookup (fst (fst (service_map_apply x ord sct sm stale))) spn =
     (case fmlookup (service_pending sct) (NamespacedName_of spn) of
        None \<Rightarrow> fmlookup sm spn
      | Some (prev, cur) \<Rightarrow> fmlookup (replace_entries (nilmap prev) (nilmap cur) sm) spn)"
proof -
  let ?nn = "NamespacedName_of spn"
  let ?step = "\<lambda>nn st. case fmlookup (items sct) nn of
      Some c \<Rightarrow> apply_service_change x c st | None \<Rightarrow> st"
  let ?obs = "\<lambda>st :: service_map \<times> string fset. fmlookup (fst st) spn"
  have owned: "fmlookup (items sct) nn = Some c \<Longrightarrow> change_owned nn c" for nn c
    using good by (auto simp: service_good_def)
  have other: "nn \<noteq> ?nn \<Longrightarrow> ?obs (?step nn st) = ?obs st" for nn st
    using lookup_apply_other [OF owned, of nn _ spn x st]
    by (cases "fmlookup (items sct) nn") auto
  have commit: "?obs (fst (service_map_apply x ord sct sm stale)) = ?obs (fold ?step ord (sm, stale))"
    by (simp add: service_map_apply_def range_in_def)
  show ?thesis
  proof (cases "fmlookup (items sct) ?nn")
    case None
    then have "?nn \<notin> set ord" using ord by (auto simp: visits_mem)
    then have "?obs (fold ?step ord (sm, stale)) = ?obs (sm, stale)"
      by (intro fold_other_key) (metis other)
    then show ?thesis using None commit by (simp add: service_pending_def)
  next
    case (Some c)
    then have "?nn \<in> set ord" using ord by (auto simp: visits_mem)
    then have "?obs (fold ?step ord (sm, stale)) = ?obs (?step ?nn (sm, stale))"
      by (rule fold_one_key)
        (use ord other Some in \<open>auto simp: visits_def fst_apply_service_change map_simps
            split: option.splits prod.splits\<close>)
    then show ?thesis using Some commit
      by (simp add: service_pending_def fst_apply_service_change)
  qed
qed

lemma service_good_drain: "service_good sct0 sct \<Longrightarrow> service_good sct0 (service_drain x ord sct)"
  by (simp add: service_good_def service_drain_def service_map_apply_def same_config_def)

lemma service_pending_drain: "service_pending (service_drain x ord sct) = fmempty"
  by (simp add: service_pending_def service_drain_def service_map_apply_def)

interpretation svc_source: change_source NamespacedName_of service_pending "service_good sct0"
    service_legal "service_commit x" "service_drain x" for x sct0
  by unfold_locales
    (simp_all add: service_legal_def service_commit_def lookup_service_commit
      service_pending_drain service_good_drain)

lemma event_key_object:
  "event_key service_key prev cur = Some k \<longleftrightarrow>
     (\<exists>s. (case cur of Some s \<Rightarrow> Some s | None \<Rightarrow> prev) = Some s \<and> k = service_key s)"
  by (cases cur; cases prev) (auto simp: event_key_def)

lemma sct_update_pend:
  assumes good: "service_good sct0 sct"
    and ok: "pred_option ok_service prev" "pred_option ok_service cur"
    and key: "event_key service_key prev cur = Some k"
    and prevkey: "pred_option (\<lambda>s. service_key s = k) prev"
  shows "\<exists>sct'. sct_update x prev cur sct = Inr (service_pending sct' \<noteq> fmempty, sct') \<and>
           service_good sct0 sct' \<and>
           service_pending sct' = pend_after (service_pending sct) k
             (entries_of (service_entries x sct0) prev) (entries_of (service_entries x sct0) cur)"
proof -
  let ?E = "entries_of (service_entries x sct0)"
  obtain s where s: "(case cur of Some s \<Rightarrow> Some s | None \<Rightarrow> prev) = Some s" "k = service_key s"
    using key by (auto simp: event_key_object)
  have same: "same_config sct0 sct" using good by (simp add: service_good_def)
  have entries: "serviceToServiceMap x sct prev = Inr (?E prev)"
      "serviceToServiceMap x sct cur = Inr (?E cur)"
    using serviceToServiceMap_entries [OF same] ok by blast+
  have ownedE: "spn |\<in>| fmdom (nilmap (?E svc)) \<Longrightarrow> NamespacedName_of spn = k"
    if "pred_option ok_service svc" "pred_option (\<lambda>s. service_key s = k) svc" for svc spn
    using that service_entries_owned by (cases svc) auto
  have curkey: "pred_option (\<lambda>s. service_key s = k) cur" using s by (cases cur) auto
  define mprev where
    "mprev = (case fmlookup (items sct) k of Some c \<Rightarrow> previous c | None \<Rightarrow> ?E prev)"
  define sct' where "sct' = sct\<lparr>items := (if mprev = ?E cur then fmdrop k (items sct)
      else fmupd k \<lparr>previous = mprev, current = ?E cur\<rparr> (items sct))\<rparr>"
  have upd: "sct_update x prev cur sct = Inr (items sct' \<noteq> fmempty, sct')"
    using s entries by (auto simp: sct_update_def sct'_def mprev_def Let_def split: option.splits)
  have "NamespacedName_of spn = k" if "spn |\<in>| fmdom (nilmap mprev)" for spn
    using that good ownedE [OF ok(1) prevkey]
    by (auto simp: mprev_def service_good_def change_owned_def split: option.splits)
  then have "service_good sct0 sct'" using good ownedE [OF ok(2) curkey]
    by (auto simp: service_good_def sct'_def same_config_def change_owned_def)
  moreover have "service_pending sct' = pend_after (service_pending sct) k (?E prev) (?E cur)"
    by (auto simp: service_pending_def sct'_def mprev_def pend_after_def Let_def fmmap_fmupd
        split: option.splits)
  ultimately show ?thesis using upd by (auto simp: service_pending_def)
qed

interpretation svc_tracker: object_tracker NamespacedName_of service_pending "service_good sct0"
    service_legal "service_commit x" "service_drain x" service_key ok_service
    "service_entries x sct0" "sct_update x" for x sct0
  by unfold_locales (use service_entries_owned sct_update_pend in auto)

section \<open>Stale addresses and health check ports\<close>

lemma udp_entry_replace_other:
  assumes "change_owned nn c" and "NamespacedName_of spn \<noteq> nn"
  shows "udp_entry (fst (apply_service_change x c st)) spn = udp_entry (fst st) spn"
    and "entry_ip x (fst (apply_service_change x c st)) spn = entry_ip x (fst st) spn"
  using lookup_apply_other [OF assms] by (simp_all add: udp_entry_def entry_ip_def)

lemma stale_range:
  assumes "distinct ord" and owned: "fmpred change_owned cs"
  shows "ip |\<in>| snd (range_in ord (\<lambda>_. apply_service_change x) cs (sm, stale)) \<longleftrightarrow>
     ip |\<in>| stale \<or>
     (\<exists>nn \<in> set ord. \<exists>c. fmlookup cs nn = Some c \<and>
        (\<exists>spn. spn |\<in>| fmdom (nilmap (previous c)) \<and> spn |\<notin>| fmdom (nilmap (current c)) \<and>
           udp_entry sm spn \<and> ip = entry_ip x sm spn))"
  using assms(1)
proof (induction ord arbitrary: sm stale)
  case (Cons nn ord)
  show ?case
  proof (cases "fmlookup cs nn")
    case None
    then show ?thesis using Cons by simp
  next
    case (Some c)
    have own: "change_owned nn' c'" if "fmlookup cs nn' = Some c'" for nn' c'
      using owned that by auto
    let ?st = "apply_service_change x c (sm, stale)"
    have st: "?st = (fst ?st, snd ?st)" by simp
    have same: "udp_entry (fst ?st) spn = udp_entry sm spn \<and>
        entry_ip x (fst ?st) spn = entry_ip x sm spn"
      if "nn' \<in> set ord" "fmlookup cs nn' = Some c'" "spn |\<in>| fmdom (nilmap (previous c'))"
      for nn' c' spn
    proof -
      have "NamespacedName_of spn = nn'" using own [OF that(2)] that(3) by (auto simp: change_owned_def)
      moreover have "nn' \<noteq> nn" using that(1) Cons.prems by auto
      ultimately show ?thesis
        using udp_entry_replace_other [OF own [OF Some], of spn x "(sm, stale)"] by auto
    qed
    have "ip |\<in>| snd (range_in (nn # ord) (\<lambda>_. apply_service_change x) cs (sm, stale)) \<longleftrightarrow>
        ip |\<in>| snd (range_in ord (\<lambda>_. apply_service_change x) cs (fst ?st, snd ?st))"
      using Some by simp
    also have "\<dots> \<longleftrightarrow> ip |\<in>| snd ?st \<or>
       (\<exists>nn \<in> set ord. \<exists>c. fmlookup cs nn = Some c \<and>
        (\<exists>spn. spn |\<in>| fmdom (nilmap (previous c)) \<and> spn |\<notin>| fmdom (nilmap (current c)) \<and>
           udp_entry (fst ?st) spn \<and> ip = entry_ip x (fst ?st) spn))"
      by (rule Cons.IH) (use Cons.prems in simp)
    also have "\<dots> \<longleftrightarrow> ip |\<in>| snd ?st \<or>
       (\<exists>nn \<in> set ord. \<exists>c. fmlookup cs nn = Some c \<and>
        (\<exists>spn. spn |\<in>| fmdom (nilmap (previous c)) \<and> spn |\<notin>| fmdom (nilmap (current c)) \<and>
           udp_entry sm spn \<and> ip = entry_ip x sm spn))"
      using same by metis
    finally show ?thesis using Some by (auto simp: snd_apply_service_change)
  qed
qed simp

lemma stale_apply:
  assumes good: "service_good sct0 sct" and ord: "visits ord (items sct)"
  shows "ip |\<in>| snd (fst (service_map_apply x ord sct sm {||})) \<longleftrightarrow>
     (\<exists>spn. udp_entry sm spn \<and> spn |\<notin>| fmdom (service_commit x ord sct sm) \<and>
        ip = entry_ip x sm spn)"
proof -
  have owned: "fmpred change_owned (items sct)" using good by (simp add: service_good_def)
  have gone: "(\<exists>c. fmlookup (items sct) (NamespacedName_of spn) = Some c \<and>
         spn |\<in>| fmdom (nilmap (previous c)) \<and> spn |\<notin>| fmdom (nilmap (current c))) \<longleftrightarrow>
      spn |\<notin>| fmdom (service_commit x ord sct sm)" if "udp_entry sm spn" for spn
  proof (cases "fmlookup sm spn")
    case None
    then show ?thesis using that by (simp add: udp_entry_def)
  next
    case (Some info)
    then show ?thesis
      by (auto simp: service_commit_def fmlookup_dom_iff lookup_service_commit [OF good ord]
          service_pending_def map_simps split: option.splits)
  qed
  have "ip |\<in>| snd (fst (service_map_apply x ord sct sm {||})) \<longleftrightarrow>
     (\<exists>nn \<in> set ord. \<exists>c. fmlookup (items sct) nn = Some c \<and>
        (\<exists>spn. spn |\<in>| fmdom (nilmap (previous c)) \<and> spn |\<notin>| fmdom (nilmap (current c)) \<and>
           udp_entry sm spn \<and> ip = entry_ip x sm spn))"
    using stale_range [OF visits_distinct [OF ord] owned] by (simp add: service_map_apply_def)
  also have "\<dots> \<longleftrightarrow> (\<exists>spn. udp_entry sm spn \<and> ip = entry_ip x sm spn \<and>
      (\<exists>c. fmlookup (items sct) (NamespacedName_of spn) = Some c \<and>
         spn |\<in>| fmdom (nilmap (previous c)) \<and> spn |\<notin>| fmdom (nilmap (current c))))"
  proof -
    have "NamespacedName_of spn = nn"
      if "fmlookup (items sct) nn = Some c" "spn |\<in>| fmdom (nilmap (previous c))" for nn c spn
      using fmpredD [OF owned that(1)] that(2) by (auto simp: change_owned_def)
    moreover have "nn \<in> set ord" if "fmlookup (items sct) nn = Some c" for nn c
      using that visits_mem [OF ord] by blast
    ultimately show ?thesis by metis
  qed
  also have "\<dots> \<longleftrightarrow> (\<exists>spn. udp_entry sm spn \<and> spn |\<notin>| fmdom (service_commit x ord sct sm) \<and>
        ip = entry_ip x sm spn)"
    using gone by blast
  finally show ?thesis .
qed

lemma to_uint16_bounds: "0 \<le> to_uint16 i \<and> to_uint16 i < 65536"
  by (simp add: to_uint16_def)

lemma to_uint16_id: "0 \<le> i \<Longrightarrow> i < 65536 \<Longrightarrow> to_uint16 i = i"
  by (simp add: to_uint16_def)

lemma UpdateServiceMap_fst: "fst (UpdateServiceMap x ord visit sm sct) = service_commit x ord sct sm"
  by (simp add: UpdateServiceMap_def service_commit_def Let_def split: prod.splits)

lemma UpdateServiceMap_tracker:
  "fst (snd (UpdateServiceMap x ord visit sm sct)) = sct\<lparr>items := fmempty\<rparr>"
  by (simp add: UpdateServiceMap_def service_map_apply_def Let_def split: prod.splits)

lemma UpdateServiceMap_stale:
  "UDPStaleClusterIP (snd (snd (UpdateServiceMap x ord visit sm sct))) =
     snd (fst (service_map_apply x ord sct sm {||}))"
  by (simp add: UpdateServiceMap_def Let_def split: prod.splits)

definition hc_ports ::
    "service_port_name list \<Rightarrow> service_map \<Rightarrow> (namespaced_name, int) fmap \<Rightarrow>
     (namespaced_name, int) fmap" where
  "hc_ports ks sm = range_in ks
     (\<lambda>spn info hc.
        if healthCheckNodePort (base_of info) \<noteq> 0
        then fmupd (NamespacedName_of spn) (to_uint16 (healthCheckNodePort (base_of info))) hc
        else hc) sm"

lemma UpdateServiceMap_hc:
  "HCServiceNodePorts (snd (snd (UpdateServiceMap x ord visit sm sct))) =
     hc_ports (visit (service_commit x ord sct sm)) (service_commit x ord sct sm) fmempty"
  by (simp add: UpdateServiceMap_def service_commit_def hc_ports_def Let_def split: prod.splits)

lemma hc_ports_sound:
  "fmlookup (hc_ports ks sm hc) nn = Some v \<Longrightarrow>
     fmlookup hc nn = Some v \<or>
     (\<exists>spn info. spn \<in> set ks \<and> fmlookup sm spn = Some info \<and> NamespacedName_of spn = nn \<and>
        healthCheckNodePort (base_of info) \<noteq> 0 \<and>
        v = to_uint16 (healthCheckNodePort (base_of info)))"
proof (induction ks arbitrary: hc)
  case (Cons spn ks)
  then show ?case
    by (cases "fmlookup sm spn") (fastforce simp: hc_ports_def split: if_splits)+
qed (simp add: hc_ports_def)

lemma hc_ports_complete:
  "fmlookup hc nn \<noteq> None \<or>
   (\<exists>spn \<in> set ks. \<exists>info. fmlookup sm spn = Some info \<and> NamespacedName_of spn = nn \<and>
      healthCheckNodePort (base_of info) \<noteq> 0) \<Longrightarrow>
   fmlookup (hc_ports ks sm hc) nn \<noteq> None"
proof (induction ks arbitrary: hc)
  case (Cons spn ks)
  then show ?case
    by (cases "fmlookup sm spn") (fastforce simp: hc_ports_def split: if_splits)+
qed (simp add: hc_ports_def)

section \<open>Runs of the tracker\<close>

definition service_run ::
    "k8s_ext \<Rightarrow> (v1_service_port \<Rightarrow> v1_service \<Rightarrow> base_service_info \<Rightarrow> service_port) option \<Rightarrow>
     (namespaced_name \<rightharpoonup> v1_service) \<Rightarrow> service_change_tracker \<Rightarrow> service_map \<Rightarrow> bool" where
  "service_run x mk =
     tracker_run service_key ok_service (sct_update x) service_legal (service_commit x)
       (service_drain x) (NewServiceChangeTracker mk)"

lemma service_run_start: "service_run x mk Map.empty (NewServiceChangeTracker mk) fmempty"
  unfolding service_run_def by (rule tracker_run.start)

lemma service_run_deliver:
  "service_run x mk live sct sm \<Longrightarrow> informer_event service_key live prev cur \<Longrightarrow>
   pred_option ok_service cur \<Longrightarrow> sct_update x prev cur sct = Inr (r, sct') \<Longrightarrow>
   service_run x mk (live_after service_key live prev cur) sct' sm"
  unfolding service_run_def by (rule tracker_run.deliver)

lemma service_run_sync:
  "service_run x mk live sct sm \<Longrightarrow> service_legal ord sct \<Longrightarrow>
   service_run x mk live (service_drain x ord sct) (service_commit x ord sct sm)"
  unfolding service_run_def by (rule tracker_run.sync)

lemma service_good_New: "service_good (NewServiceChangeTracker mk) (NewServiceChangeTracker mk)"
  by (simp add: service_good_def same_config_def NewServiceChangeTracker_def)

lemma service_pending_New: "service_pending (NewServiceChangeTracker mk) = fmempty"
  by (simp add: service_pending_def NewServiceChangeTracker_def)

lemma service_run_good:
  "service_run x mk live sct sm \<Longrightarrow> service_good (NewServiceChangeTracker mk) sct"
  unfolding service_run_def
  using svc_tracker.run_invariant service_good_New service_pending_New by blast

section \<open>Properties\<close>

text \<open>
  C12. However the informer's events were delivered and grouped between syncs, the service map
  after \<open>UpdateServiceMap\<close> is the union of the entries of the services that are alive, no more
  and no less; the order in which the pending changes are visited does not matter, and nothing
  is left pending.
\<close>

theorem service_map_exact:
  assumes "service_run x mk live sct sm" and "visits ord (items sct)"
  shows "fmlookup (fst (UpdateServiceMap x ord visit sm sct)) spn =
     (case live (NamespacedName_of spn) of
        None \<Rightarrow> None
      | Some s \<Rightarrow> fmlookup (nilmap (service_entries x (NewServiceChangeTracker mk) s)) spn) \<and>
     items (fst (snd (UpdateServiceMap x ord visit sm sct))) = fmempty"
proof -
  have "fmlookup (service_commit x ord sct sm) spn =
      fmlookup (nilmap (entries_of (service_entries x (NewServiceChangeTracker mk))
        (live (NamespacedName_of spn)))) spn"
    using svc_tracker.run_sync_exact [OF assms(1) [unfolded service_run_def] service_good_New
        service_pending_New] assms(2) by (simp add: service_legal_def)
  then show ?thesis
    by (simp add: UpdateServiceMap_fst UpdateServiceMap_tracker split: option.splits)
qed

text \<open>
  C36. The stale UDP addresses that \<open>UpdateServiceMap\<close> reports are exactly the cluster IPs of
  the UDP entries that were in the map and that this update removed.
\<close>

theorem stale_udp_exact:
  assumes "service_run x mk live sct sm" and "visits ord (items sct)"
  shows "ip |\<in>| UDPStaleClusterIP (snd (snd (UpdateServiceMap x ord visit sm sct))) \<longleftrightarrow>
     (\<exists>spn info. fmlookup sm spn = Some info \<and> protocol (base_of info) = ProtocolUDP \<and>
        spn |\<notin>| fmdom (fst (UpdateServiceMap x ord visit sm sct)) \<and>
        ip = IPString x (clusterIP (base_of info)))"
  using stale_apply [OF service_run_good [OF assms(1)] assms(2)]
  by (fastforce simp: UpdateServiceMap_stale UpdateServiceMap_fst udp_entry_def entry_ip_def
      split: option.splits)

text \<open>
  The health check ports reported after an update: a service is listed exactly when one of
  its entries in the new map has a port, and the number is that entry's port cut to 16 bits.
\<close>

theorem health_check_ports_exact:
  assumes "\<And>m. visits (visit m) m"
  shows "(fmlookup (HCServiceNodePorts (snd (snd (UpdateServiceMap x ord visit sm sct)))) nn \<noteq> None
      \<longleftrightarrow> (\<exists>spn info. fmlookup (fst (UpdateServiceMap x ord visit sm sct)) spn = Some info \<and>
            NamespacedName_of spn = nn \<and> healthCheckNodePort (base_of info) \<noteq> 0)) \<and>
     (\<forall>v. fmlookup (HCServiceNodePorts (snd (snd (UpdateServiceMap x ord visit sm sct)))) nn = Some v
        \<longrightarrow> 0 \<le> v \<and> v < 65536 \<and>
          (\<exists>spn info. fmlookup (fst (UpdateServiceMap x ord visit sm sct)) spn = Some info \<and>
             NamespacedName_of spn = nn \<and>
             v = to_uint16 (healthCheckNodePort (base_of info))))"
proof -
  let ?sm = "service_commit x ord sct sm"
  have "spn \<in> set (visit ?sm)" if "fmlookup ?sm spn = Some info" for spn info
    using assms that visits_mem by metis
  then have complete: "fmlookup ?sm spn = Some info \<Longrightarrow> NamespacedName_of spn = nn \<Longrightarrow>
      healthCheckNodePort (base_of info) \<noteq> 0 \<Longrightarrow>
      fmlookup (hc_ports (visit ?sm) ?sm fmempty) nn \<noteq> None" for spn info
    using hc_ports_complete [of fmempty nn "visit ?sm" ?sm] by blast
  have sound: "\<exists>spn info. fmlookup ?sm spn = Some info \<and> NamespacedName_of spn = nn \<and>
        healthCheckNodePort (base_of info) \<noteq> 0 \<and>
        v = to_uint16 (healthCheckNodePort (base_of info))"
    if "fmlookup (hc_ports (visit ?sm) ?sm fmempty) nn = Some v" for v
    using hc_ports_sound [OF that] by auto
  show ?thesis unfolding UpdateServiceMap_hc UpdateServiceMap_fst
  proof (intro conjI allI impI iffI)
    assume "fmlookup (hc_ports (visit ?sm) ?sm fmempty) nn \<noteq> None"
    then show "\<exists>spn info. fmlookup ?sm spn = Some info \<and> NamespacedName_of spn = nn \<and>
        healthCheckNodePort (base_of info) \<noteq> 0" using sound by blast
  next
    assume "\<exists>spn info. fmlookup ?sm spn = Some info \<and> NamespacedName_of spn = nn \<and>
        healthCheckNodePort (base_of info) \<noteq> 0"
    then show "fmlookup (hc_ports (visit ?sm) ?sm fmempty) nn \<noteq> None" using complete by blast
  next
    fix v assume v: "fmlookup (hc_ports (visit ?sm) ?sm fmempty) nn = Some v"
    show "0 \<le> v" "v < 65536" using sound [OF v] to_uint16_bounds by auto
    show "\<exists>spn info. fmlookup ?sm spn = Some info \<and> NamespacedName_of spn = nn \<and>
        v = to_uint16 (healthCheckNodePort (base_of info))" using sound [OF v] by blast
  qed
qed

text \<open>
  The services for which the code dereferences a timeout that is not there: they have entries
  (not skipped, in the tracker's IP family, with a port) and ask for client affinity without a
  timeout.
\<close>

definition misses_timeout :: "k8s_ext \<Rightarrow> service_change_tracker \<Rightarrow> v1_service \<Rightarrow> bool" where
  "misses_timeout x sct s \<longleftrightarrow>
     \<not> ShouldSkipService x s \<and>
     (ClusterIP s = '''' \<or>
        (case isIPv6Mode sct of None \<Rightarrow> True | Some v6 \<Rightarrow> IsIPv6String x (ClusterIP s) = v6)) \<and>
     Ports s \<noteq> [] \<and> SessionAffinity s = ''ClientIP'' \<and> ClientIPTimeout s = None"

lemma serviceToServiceMap_panics_iff:
  "(\<exists>e. serviceToServiceMap x sct svc = Inl e) \<longleftrightarrow> (\<exists>s. svc = Some s \<and> misses_timeout x sct s)"
proof (cases svc)
  case None
  then show ?thesis by (simp add: serviceToServiceMap_def)
next
  case (Some s)
  have ports: "(\<exists>e. foldr_r (add_service_port x sct s) fmempty (Ports s) = Inl e) \<longleftrightarrow>
      Ports s \<noteq> [] \<and> \<not> ok_service s"
  proof (cases "ok_service s")
    case True
    have "\<exists>t. add_service_port x sct s m p = Inr t" for m p
      using newBaseServiceInfo_ok [OF True, of x sct p] by (auto simp: add_service_port_def)
    then have "\<exists>t. foldr_r (add_service_port x sct s) fmempty (Ports s) = Inr t"
      by (intro foldr_r_ok) blast
    then show ?thesis using True by auto
  next
    case False
    then have "\<exists>e. add_service_port x sct s m p = Inl e" for m p
      using newBaseServiceInfo_panics_iff [of x sct p s]
      by (auto simp: add_service_port_def bindr_Inl_iff)
    then show ?thesis using False
      by (cases "Ports s") (simp, metis bindr_Inl_iff foldr_r.simps(2) list.distinct(1))
  qed
  have skip: "ClusterIP s \<noteq> '''' \<and>
      (case isIPv6Mode sct of None \<Rightarrow> False | Some v6 \<Rightarrow> IsIPv6String x (ClusterIP s) \<noteq> v6) \<longleftrightarrow>
      \<not> (ClusterIP s = '''' \<or>
        (case isIPv6Mode sct of None \<Rightarrow> True | Some v6 \<Rightarrow> IsIPv6String x (ClusterIP s) = v6))"
    by (auto split: option.splits)
  show ?thesis unfolding serviceToServiceMap_def Some option.case misses_timeout_def skip
    using ports by (auto simp: bindr_Inl_iff ok_service_def)
qed

text \<open>
  C34. On any tracker and for any two arguments, \<open>Update(previous, current)\<close> panics exactly when
  the current service misses its timeout, or the previous one does and no change of the service
  is pending, so that its entries are computed too.
\<close>

theorem sct_update_panics_iff:
  "(\<exists>e. sct_update x prev cur sct = Inl e) \<longleftrightarrow>
     (\<exists>s. cur = Some s \<and> misses_timeout x sct s) \<or>
     (\<exists>s. prev = Some s \<and> misses_timeout x sct s \<and>
        service_key (case cur of Some c \<Rightarrow> c | None \<Rightarrow> s) |\<notin>| fmdom (items sct))"
proof -
  let ?m = "serviceToServiceMap x sct"
  have isl: "isl (bindr m f) \<longleftrightarrow> isl m \<or> isl (f (projr m))"
    for m :: "'a result" and f :: "'a \<Rightarrow> 'b result" by (cases m) simp_all
  have maps: "isl (?m None) = False" "\<And>s. isl (?m (Some s)) = misses_timeout x sct s"
    using serviceToServiceMap_panics_iff [of x sct] by (auto simp: isl_def)
  have "isl (sct_update x prev cur sct) \<longleftrightarrow>
     (\<exists>s. cur = Some s \<and> misses_timeout x sct s) \<or>
     (\<exists>s. prev = Some s \<and> misses_timeout x sct s \<and>
        service_key (case cur of Some c \<Rightarrow> c | None \<Rightarrow> s) |\<notin>| fmdom (items sct))"
    unfolding sct_update_def
    by (cases cur; cases prev)
      (auto simp: Let_def isl maps fmlookup_dom_iff split: option.splits)
  then show ?thesis by (simp add: isl_def)
qed

text \<open>
  A change that is taken back before the next sync leaves no trace: after the update from
  \<open>prev\<close> to \<open>cur\<close> and the update back, the pending changes are what they were.
\<close>

lemma sct_update_cancel:
  assumes "sct_update x prev cur sct = Inr (r1, sct1)" and "sct_update x cur prev sct1 = Inr (r2, sct2)"
    and "event_key service_key prev cur = Some k" and "event_key service_key cur prev = Some k"
    and "fmlookup (items sct) k = None"
  shows "sct2 = sct \<and> r2 = (items sct \<noteq> fmempty)"
proof -
  have drop: "fmdrop k (items sct) = items sct" using assms(5) by (intro fmap_ext) auto
  obtain s s' where s: "(case cur of Some s \<Rightarrow> Some s | None \<Rightarrow> prev) = Some s" "service_key s = k"
      and s': "(case prev of Some s \<Rightarrow> Some s | None \<Rightarrow> cur) = Some s'" "service_key s' = k"
    using assms(3,4) by (auto simp: event_key_object)
  obtain mp mc where m: "serviceToServiceMap x sct prev = Inr mp" "serviceToServiceMap x sct cur = Inr mc"
      and sct1: "sct1 = sct\<lparr>items := if mp = mc then fmdrop k (items sct)
        else fmupd k \<lparr>previous = mp, current = mc\<rparr> (items sct)\<rparr>"
    using assms(1,5) s by (auto simp: sct_update_def Let_def bindr_Inr_iff)
  have "same_config sct1 sct" using sct1 by (simp add: same_config_def)
  then have m1: "serviceToServiceMap x sct1 prev = Inr mp" "serviceToServiceMap x sct1 cur = Inr mc"
    using m serviceToServiceMap_config [of sct1 sct x] by simp_all
  show ?thesis
    using assms(2,5) s' m1 sct1 drop
    by (cases "mp = mc") (auto simp: sct_update_def Let_def fmdrop_fmupd_same)
qed

text \<open>
  C38. The entries of a service that is not skipped: one for each of its ports, holding the
  information computed for that port, when the ports have different names or protocols.
\<close>

theorem service_entries_exact:
  assumes "ok_service s" and "\<not> ShouldSkipService x s"
    and "distinct (map (svcPortName_of s) (Ports s))"
  shows "\<exists>m. serviceToServiceMap x (NewServiceChangeTracker (Some mk)) (Some s) = Inr (Some m) \<and>
     fset (fmdom m) = svcPortName_of s ` set (Ports s) \<and>
     (\<forall>p \<in> set (Ports s). \<exists>info.
        newBaseServiceInfo x (NewServiceChangeTracker (Some mk)) p s = Inr info \<and>
        fmlookup m (svcPortName_of s p) = Some (mk p s info))"
proof -
  let ?t = "NewServiceChangeTracker (Some mk)"
  define info where "info p = projr (newBaseServiceInfo x ?t p s)" for p
  have info: "newBaseServiceInfo x ?t p s = Inr (info p)" for p
    using newBaseServiceInfo_ok [OF assms(1), of x ?t p] by (auto simp: info_def)
  let ?g = "\<lambda>m p. fmupd (svcPortName_of s p) (mk p s (info p)) m"
  have "add_service_port x ?t s m p = Inr (?g m p)" for m p
    using info by (simp add: add_service_port_def NewServiceChangeTracker_def)
  then have fold: "foldr_r (add_service_port x ?t s) fmempty (Ports s) = Inr (foldl ?g fmempty (Ports s))"
    by (intro foldr_r_Inr) blast
  have dom: "fset (fmdom (foldl ?g m ps)) = fset (fmdom m) \<union> svcPortName_of s ` set ps" for m ps
    by (induction ps arbitrary: m) auto
  have keep: "svcPortName_of s p \<notin> svcPortName_of s ` set ps \<Longrightarrow>
      fmlookup (foldl ?g m ps) (svcPortName_of s p) = fmlookup m (svcPortName_of s p)" for p m ps
    by (induction ps arbitrary: m) auto
  have "distinct (map (svcPortName_of s) ps) \<Longrightarrow> p \<in> set ps \<Longrightarrow>
      fmlookup (foldl ?g m ps) (svcPortName_of s p) = Some (mk p s (info p))" for p m ps
  proof (induction ps arbitrary: m)
    case (Cons q qs)
    then show ?case by (cases "p = q") (auto simp: keep)
  qed simp
  then show ?thesis using assms(2,3) fold dom [of fmempty] info
    by (auto simp: serviceToServiceMap_def NewServiceChangeTracker_def)
qed

section \<open>Witnesses\<close>

text \<open>
  A closed run: the UDP service is added, a sync puts it into the map, it is deleted, and the
  next sync removes it and reports its cluster IP.
\<close>

definition dns_info :: base_service_info where
  "dns_info = \<lparr>clusterIP = map of_char ''10.0.0.10'', port = 53, protocol = ''UDP'', nodePort = 0,
     loadBalancerStatus = [], sessionAffinityType = ''None'', stickyMaxAgeSeconds = 0,
     externalIPs = [], loadBalancerSourceRanges = [], healthCheckNodePort = 0,
     onlyNodeLocalEndpoints = False, topologyKeys = []\<rparr>"

definition dns_map :: service_map where
  "dns_map = fmupd dns_name (BaseServiceInfo dns_info) fmempty"

lemma dns_entries:
  "isIPv6Mode t = None \<Longrightarrow> makeServiceInfo t = None \<Longrightarrow>
     serviceToServiceMap simple_ext t (Some dns_service) = Inr (Some dns_map)"
  by (simp add: serviceToServiceMap_def add_service_port_def newBaseServiceInfo_def simple_ext_def
      dns_service_def dns_map_def dns_info_def dns_name_def svcPortName_of_def service_key_def)

abbreviation dns_nn :: namespaced_name where
  "dns_nn \<equiv> NamespacedName ''kube'' ''dns''"

definition dns_added :: service_change_tracker where
  "dns_added = (NewServiceChangeTracker None)
     \<lparr>items := fmupd dns_nn \<lparr>previous = None, current = Some dns_map\<rparr> fmempty\<rparr>"

definition dns_deleted :: service_change_tracker where
  "dns_deleted = (NewServiceChangeTracker None)
     \<lparr>items := fmupd dns_nn \<lparr>previous = Some dns_map, current = None\<rparr> fmempty\<rparr>"

lemma dns_key: "service_key dns_service = dns_nn"
  by (simp add: service_key_def dns_service_def)

lemma dns_run_added:
  "service_run simple_ext None [dns_nn \<mapsto> dns_service] dns_added fmempty"
proof -
  have "sct_update simple_ext None (Some dns_service) (NewServiceChangeTracker None) =
      Inr (True, dns_added)"
    by (simp add: sct_update_def dns_entries dns_added_def NewServiceChangeTracker_def dns_key
        serviceToServiceMap_def [of _ _ None])
  from service_run_deliver [OF service_run_start _ _ this] show ?thesis
    by (simp add: informer_event_def event_key_def live_after_def dns_key ok_service_def
        dns_service_def [THEN arg_cong, of SessionAffinity])
qed

lemma dns_commit: "service_commit simple_ext [dns_nn] dns_added fmempty = dns_map"
proof -
  have "service_commit simple_ext [dns_nn] dns_added fmempty = replace_entries fmempty dns_map fmempty"
    by (simp add: service_commit_def service_map_apply_def dns_added_def
        fst_apply_service_change)
  then show ?thesis by (simp add: replace_entries_def)
qed

lemma dns_run_deleted: "service_run simple_ext None Map.empty dns_deleted dns_map"
proof -
  have legal: "service_legal [dns_nn] dns_added"
    by (simp add: service_legal_def visits_def dns_added_def)
  have drain: "service_drain simple_ext [dns_nn] dns_added = NewServiceChangeTracker None"
    by (simp add: service_drain_def service_map_apply_def dns_added_def NewServiceChangeTracker_def)
  have upd: "sct_update simple_ext (Some dns_service) None (NewServiceChangeTracker None) =
      Inr (True, dns_deleted)"
    by (simp add: sct_update_def dns_entries dns_deleted_def NewServiceChangeTracker_def dns_key
        serviceToServiceMap_def [of _ _ None])
  have "service_run simple_ext None [dns_nn \<mapsto> dns_service] (NewServiceChangeTracker None) dns_map"
    using service_run_sync [OF dns_run_added legal] by (simp add: drain dns_commit)
  from service_run_deliver [OF this _ _ upd] show ?thesis
    by (simp add: informer_event_def event_key_def live_after_def dns_key)
qed

theorem service_map_exact_witness:
  "fmlookup (fst (UpdateServiceMap simple_ext [dns_nn] (\<lambda>m. sorted_list_of_fset (fmdom m))
     fmempty dns_added)) dns_name = Some (BaseServiceInfo dns_info)"
proof -
  have ord: "visits [dns_nn] (items dns_added)" by (simp add: visits_def dns_added_def)
  have "service_entries simple_ext (NewServiceChangeTracker None) dns_service = Some dns_map"
    by (simp add: service_entries_def dns_entries NewServiceChangeTracker_def)
  with service_map_exact [OF dns_run_added ord, of "\<lambda>m. sorted_list_of_fset (fmdom m)" dns_name]
  show ?thesis by (simp add: dns_name_def dns_map_def)
qed

theorem stale_udp_exact_witness:
  "''10.0.0.10'' |\<in>| UDPStaleClusterIP (snd (snd (UpdateServiceMap simple_ext [dns_nn]
     (\<lambda>m. sorted_list_of_fset (fmdom m)) dns_map dns_deleted)))"
proof -
  let ?v = "\<lambda>m :: service_map. sorted_list_of_fset (fmdom m)"
  have ord: "visits [dns_nn] (items dns_deleted)" by (simp add: visits_def dns_deleted_def)
  have "fmlookup dns_map dns_name = Some (BaseServiceInfo dns_info)" by (simp add: dns_map_def)
  moreover have "fst (UpdateServiceMap simple_ext [dns_nn] ?v dns_map dns_deleted) = fmempty"
    by (simp add: UpdateServiceMap_fst service_commit_def service_map_apply_def dns_deleted_def
        fst_apply_service_change replace_entries_def)
  moreover have "IPString simple_ext (clusterIP dns_info) = ''10.0.0.10''"
    by (simp only: dns_info_def base_service_info.simps IPString_simple)
  ultimately show ?thesis
    unfolding stale_udp_exact [OF dns_run_deleted ord, of "''10.0.0.10''" ?v]
    by (intro exI [of _ dns_name] exI [of _ "BaseServiceInfo dns_info"])
      (simp add: dns_info_def ProtocolUDP_def)
qed

theorem health_check_ports_exact_witness:
  "fmlookup (HCServiceNodePorts (snd (snd (UpdateServiceMap simple_ext []
     (\<lambda>m. sorted_list_of_fset (fmdom m))
     (fmupd dns_name (BaseServiceInfo (dns_info\<lparr>healthCheckNodePort := 70000\<rparr>)) fmempty)
     (NewServiceChangeTracker None))))) dns_nn = Some 4464"
proof -
  let ?v = "\<lambda>m :: service_map. sorted_list_of_fset (fmdom m)"
  let ?sm = "fmupd dns_name (BaseServiceInfo (dns_info\<lparr>healthCheckNodePort := 70000\<rparr>)) fmempty"
  have new: "fst (UpdateServiceMap simple_ext [] ?v ?sm (NewServiceChangeTracker None)) = ?sm"
    by (simp add: UpdateServiceMap_fst service_commit_def service_map_apply_def)
  have "\<exists>spn info. fmlookup ?sm spn = Some info \<and> NamespacedName_of spn = dns_nn \<and>
      healthCheckNodePort (base_of info) \<noteq> 0"
    by (rule exI [of _ dns_name]) (simp add: dns_name_def)
  with health_check_ports_exact [of ?v simple_ext "[]" ?sm "NewServiceChangeTracker None" dns_nn]
  obtain v where "fmlookup (HCServiceNodePorts (snd (snd (UpdateServiceMap simple_ext [] ?v ?sm
      (NewServiceChangeTracker None))))) dns_nn = Some v"
    and "\<exists>spn info. fmlookup ?sm spn = Some info \<and> v = to_uint16 (healthCheckNodePort (base_of info))"
    unfolding new using visits_sorted by blast
  then show ?thesis by (auto simp: to_uint16_def split: if_splits)
qed

lemma sct_update_cancel_witness:
  "sct_update simple_ext (Some dns_service) None dns_added =
     Inr (False, NewServiceChangeTracker None)"
proof -
  have add: "sct_update simple_ext None (Some dns_service) (NewServiceChangeTracker None) =
      Inr (True, dns_added)"
    by (simp add: sct_update_def dns_entries dns_added_def NewServiceChangeTracker_def dns_key
        serviceToServiceMap_def [of _ _ None])
  obtain r t where del: "sct_update simple_ext (Some dns_service) None dns_added = Inr (r, t)"
    by (simp add: sct_update_def dns_added_def dns_key serviceToServiceMap_def [of _ _ None]
        Let_def)
  show ?thesis
    using sct_update_cancel [OF add del, of dns_nn] del
    by (simp add: event_key_def dns_key NewServiceChangeTracker_def)
qed

theorem service_entries_exact_witness:
  "\<exists>m. serviceToServiceMap simple_ext
      (NewServiceChangeTracker (Some (\<lambda>p s info. ServiceInfo info (sp_Name p)))) (Some web_service) =
      Inr (Some m) \<and> fset (fmdom m) = {web_name}"
proof -
  have "ok_service web_service" "\<not> ShouldSkipService simple_ext web_service"
      "distinct (map (svcPortName_of web_service) (Ports web_service))"
    by (simp_all add: ok_service_def web_service_def simple_ext_def)
  from service_entries_exact [OF this, of "\<lambda>p s info. ServiceInfo info (sp_Name p)"]
  show ?thesis
    by (auto simp: web_service_def web_name_def svcPortName_of_def service_key_def)
qed

end
