(* ===== verification/Endpoints.thy ===== *)
theory Endpoints
  imports Tracker_Spec
begin

text \<open>
  \<open>controller/endpoints.go\<close>, the part without the tracker: what is known of one endpoint, the
  endpoints map, merging and unmerging it, the local addresses of a map and the detection of
  stale UDP connections. The proxier's \<open>endpointsInfo\<close> (\<open>haproxy/proxier.go\<close>) is the second
  implementation of the endpoint interface.
\<close>

section \<open>Endpoints\<close>

record base_endpoint_info =
  Endpoint :: string
  IsLocal :: bool
  Topology :: "(string, string) fmap option"

datatype endpoint =
    BaseEndpointInfo (ep_base: base_endpoint_info)
  | EndpointsInfo (ep_base: base_endpoint_info) (ep_protocol: string)

definition endpoint_String :: "endpoint \<Rightarrow> string" where
  "endpoint_String e = Endpoint (ep_base e)"

definition GetIsLocal :: "endpoint \<Rightarrow> bool" where
  "GetIsLocal e = IsLocal (ep_base e)"

definition endpoint_IP :: "k8s_ext \<Rightarrow> endpoint \<Rightarrow> string" where
  "endpoint_IP x e = IPPart x (Endpoint (ep_base e))"

definition endpoint_Port :: "k8s_ext \<Rightarrow> endpoint \<Rightarrow> int \<times> string option" where
  "endpoint_Port x e = PortPart x (Endpoint (ep_base e))"

definition BaseEndpointInfo_Equal :: "base_endpoint_info \<Rightarrow> endpoint \<Rightarrow> bool" where
  "BaseEndpointInfo_Equal b other \<longleftrightarrow>
     Endpoint b = endpoint_String other \<and> IsLocal b = GetIsLocal other"

text \<open>The proxier's version first casts the other endpoint to its own type.\<close>

definition endpointsInfo_Equal :: "base_endpoint_info \<Rightarrow> string \<Rightarrow> endpoint \<Rightarrow> bool" where
  "endpointsInfo_Equal b p other \<longleftrightarrow>
     (case other of
        BaseEndpointInfo _ \<Rightarrow> False
      | EndpointsInfo b' p' \<Rightarrow> Endpoint b = Endpoint b' \<and> IsLocal b = IsLocal b' \<and> p = p')"

text \<open>The method call on the interface goes to the implementation of the receiver.\<close>

definition endpoint_Equal :: "endpoint \<Rightarrow> endpoint \<Rightarrow> bool" where
  "endpoint_Equal e other \<longleftrightarrow>
     (case e of
        BaseEndpointInfo b \<Rightarrow> BaseEndpointInfo_Equal b other
      | EndpointsInfo b p \<Rightarrow> endpointsInfo_Equal b p other)"

definition newBaseEndpointInfo ::
    "string \<Rightarrow> int \<Rightarrow> bool \<Rightarrow> (string, string) fmap option \<Rightarrow> base_endpoint_info" where
  "newBaseEndpointInfo ip p loc topo =
     \<lparr>Endpoint = JoinHostPort ip (Itoa p), IsLocal = loc, Topology = topo\<rparr>"

section \<open>The endpoints map\<close>

type_synonym endpoints_map = "(service_port_name, endpoint list) fmap"

definition endpoints_map_merge :: "endpoints_map \<Rightarrow> endpoints_map \<Rightarrow> endpoints_map" where
  "endpoints_map_merge em other = em ++\<^sub>f other"

definition endpoints_map_unmerge :: "endpoints_map \<Rightarrow> endpoints_map \<Rightarrow> endpoints_map" where
  "endpoints_map_unmerge em other = fmdrop_fset (fmdom other) em"

text \<open>The loops of \<open>merge\<close> and \<open>unmerge\<close> compute this for every order of their \<open>range\<close>.\<close>

lemma endpoints_map_merge_loop:
  "visits ks other \<Longrightarrow> range_in ks fmupd other em = endpoints_map_merge em other"
  by (simp add: endpoints_map_merge_def range_store)

lemma endpoints_map_unmerge_loop:
  "visits ks other \<Longrightarrow>
     range_in ks (\<lambda>k _. fmdrop k) other em = endpoints_map_unmerge em other"
  by (simp add: endpoints_map_unmerge_def range_delete)

lemma unmerge_merge:
  "endpoints_map_merge (endpoints_map_unmerge em old) new = replace_entries old new em"
  by (simp add: endpoints_map_merge_def endpoints_map_unmerge_def replace_entries_def)

text \<open>\<open>getLocalEndpointIPs\<close>: the IPs of the local endpoints of every service.\<close>

definition add_local_ip ::
    "k8s_ext \<Rightarrow> namespaced_name \<Rightarrow> endpoint \<Rightarrow> (namespaced_name, string fset) fmap \<Rightarrow>
     (namespaced_name, string fset) fmap" where
  "add_local_ip x nn ep ips =
     (if GetIsLocal ep
      then fmupd nn (finsert (endpoint_IP x ep)
             (case fmlookup ips nn of Some s \<Rightarrow> s | None \<Rightarrow> {||})) ips
      else ips)"

definition getLocalEndpointIPs ::
    "k8s_ext \<Rightarrow> service_port_name list \<Rightarrow> endpoints_map \<Rightarrow>
     (namespaced_name, string fset) fmap" where
  "getLocalEndpointIPs x ks em =
     range_in ks (\<lambda>spn eps. fold (add_local_ip x (NamespacedName_of spn)) eps) em fmempty"

section \<open>Stale connections\<close>

type_synonym stale = "service_endpoint list \<times> service_port_name list"

definition is_stale :: "endpoints_map \<Rightarrow> service_port_name \<Rightarrow> endpoint \<Rightarrow> bool" where
  "is_stale new spn ep \<longleftrightarrow>
     \<not> list_ex (\<lambda>e. endpoint_Equal e ep)
         (case fmlookup new spn of Some eps \<Rightarrow> eps | None \<Rightarrow> [])"

definition stale_endpoints_of ::
    "endpoints_map \<Rightarrow> service_port_name \<Rightarrow> endpoint list \<Rightarrow> service_endpoint list" where
  "stale_endpoints_of new spn eps =
     (if Protocol spn \<noteq> ProtocolUDP then []
      else map (\<lambda>ep. \<lparr>se_Endpoint = endpoint_String ep, se_ServicePortName = spn\<rparr>)
             (filter (is_stale new spn) eps))"

definition detectStaleConnections ::
    "service_port_name list \<Rightarrow> service_port_name list \<Rightarrow> endpoints_map \<Rightarrow> endpoints_map \<Rightarrow>
     stale \<Rightarrow> stale" where
  "detectStaleConnections ord_old ord_new old new st =
     (case st of (eps, names) \<Rightarrow>
        (range_in ord_old (\<lambda>spn epList acc. acc @ stale_endpoints_of new spn epList) old eps,
         range_in ord_new
           (\<lambda>spn epList acc.
              if Protocol spn \<noteq> ProtocolUDP then acc
              else if length epList > 0 \<and>
                      length (case fmlookup old spn of Some l \<Rightarrow> l | None \<Rightarrow> []) = 0
              then acc @ [spn] else acc) new names))"

section \<open>Trigger times\<close>

definition EndpointsLastChangeTriggerTime :: string where
  "EndpointsLastChangeTriggerTime = ''endpoints.kubernetes.io/last-change-trigger-time''"

text \<open>The zero time stands for a missing or an unreadable annotation.\<close>

definition getLastChangeTriggerTime :: "k8s_ext \<Rightarrow> annotations \<Rightarrow> time" where
  "getLastChangeTriggerTime x ann =
     (case fmlookup ann EndpointsLastChangeTriggerTime of
        None \<Rightarrow> 0 | Some s \<Rightarrow> ParseTime x s)"

section \<open>Lemmas\<close>

lemma range_append_fst:
  assumes "\<And>k v acc. f k v acc = acc @ g k v"
  shows "set (range_in ks f m acc) = set acc \<union> (\<Union>k \<in> set ks. case fmlookup m k of
           Some v \<Rightarrow> set (g k v) | None \<Rightarrow> {})"
  using assms by (induction ks arbitrary: acc) (auto split: option.splits)

lemma stale_endpoints_of_set:
  "se \<in> set (stale_endpoints_of new spn eps) \<longleftrightarrow>
     Protocol spn = ProtocolUDP \<and> se_ServicePortName se = spn \<and>
     (\<exists>ep \<in> set eps. is_stale new spn ep \<and> se_Endpoint se = endpoint_String ep)"
  by (cases se) (auto simp: stale_endpoints_of_def)

lemma fold_add_local_ip:
  "ip |\<in>| (case fmlookup (fold (add_local_ip x nn) eps ips) nn' of Some s \<Rightarrow> s | None \<Rightarrow> {||}) \<longleftrightarrow>
     ip |\<in>| (case fmlookup ips nn' of Some s \<Rightarrow> s | None \<Rightarrow> {||}) \<or>
     nn' = nn \<and> (\<exists>ep \<in> set eps. GetIsLocal ep \<and> ip = endpoint_IP x ep)"
  by (induction eps arbitrary: ips) (auto simp: add_local_ip_def split: option.splits if_splits)

lemma local_ips_range:
  "ip |\<in>| (case fmlookup (range_in ks (\<lambda>spn eps. fold (add_local_ip x (NamespacedName_of spn)) eps)
            em ips) nn of Some s \<Rightarrow> s | None \<Rightarrow> {||}) \<longleftrightarrow>
     ip |\<in>| (case fmlookup ips nn of Some s \<Rightarrow> s | None \<Rightarrow> {||}) \<or>
     (\<exists>spn eps. spn \<in> set ks \<and> fmlookup em spn = Some eps \<and> NamespacedName_of spn = nn \<and>
        (\<exists>ep \<in> set eps. GetIsLocal ep \<and> ip = endpoint_IP x ep))"
proof (induction ks arbitrary: ips)
  case (Cons spn ks)
  show ?case
    by (cases "fmlookup em spn") (auto simp: Cons.IH fold_add_local_ip)
qed simp

lemma is_stale_iff:
  "is_stale new spn ep \<longleftrightarrow>
     \<not> (\<exists>l e. fmlookup new spn = Some l \<and> e \<in> set l \<and> endpoint_Equal e ep)"
  by (cases "fmlookup new spn") (auto simp: is_stale_def list_ex_iff)

lemma stale_endpoints_range:
  assumes "visits ks old"
  shows "set (range_in ks (\<lambda>spn epList acc. acc @ stale_endpoints_of new spn epList) old eps0) =
     set eps0 \<union> {\<lparr>se_Endpoint = endpoint_String ep, se_ServicePortName = spn\<rparr> | spn ep l.
         fmlookup old spn = Some l \<and> Protocol spn = ProtocolUDP \<and> ep \<in> set l \<and> is_stale new spn ep}"
    (is "_ = _ \<union> ?S")
proof -
  have "(\<Union>k \<in> set ks. case fmlookup old k of
          Some v \<Rightarrow> set (stale_endpoints_of new k v) | None \<Rightarrow> {}) = ?S"
  proof (rule set_eqI)
    fix se :: service_endpoint
    have "se \<in> ?S \<longleftrightarrow> (\<exists>l. fmlookup old (se_ServicePortName se) = Some l \<and>
        se \<in> set (stale_endpoints_of new (se_ServicePortName se) l))"
      by (cases se) (auto simp: stale_endpoints_of_set)
    also have "\<dots> \<longleftrightarrow> se \<in> (\<Union>k \<in> set ks. case fmlookup old k of
          Some v \<Rightarrow> set (stale_endpoints_of new k v) | None \<Rightarrow> {})"
      by (subst visits_UN [OF assms]) (auto simp: stale_endpoints_of_set)
    finally show "se \<in> (\<Union>k \<in> set ks. case fmlookup old k of
          Some v \<Rightarrow> set (stale_endpoints_of new k v) | None \<Rightarrow> {}) \<longleftrightarrow> se \<in> ?S" by blast
  qed
  then show ?thesis
    using range_append_fst [of "\<lambda>spn epList acc. acc @ stale_endpoints_of new spn epList"
        "stale_endpoints_of new" ks old eps0] by simp
qed

definition fresh_udp :: "endpoints_map \<Rightarrow> service_port_name \<Rightarrow> endpoint list \<Rightarrow> bool" where
  "fresh_udp old spn epList \<longleftrightarrow> Protocol spn = ProtocolUDP \<and> length epList > 0 \<and>
     length (case fmlookup old spn of Some l \<Rightarrow> l | None \<Rightarrow> []) = 0"

lemma stale_names_range:
  assumes "visits ks new"
  shows "set (range_in ks
           (\<lambda>spn epList acc.
              if Protocol spn \<noteq> ProtocolUDP then acc
              else if length epList > 0 \<and>
                      length (case fmlookup old spn of Some l \<Rightarrow> l | None \<Rightarrow> []) = 0
              then acc @ [spn] else acc) new names0) =
     set names0 \<union> {spn. \<exists>l. fmlookup new spn = Some l \<and> fresh_udp old spn l}"
proof -
  let ?f = "\<lambda>spn epList acc. if Protocol spn \<noteq> ProtocolUDP then acc
      else if length epList > 0 \<and>
         length (case fmlookup old spn of Some l \<Rightarrow> l | None \<Rightarrow> []) = 0
      then acc @ [spn] else acc"
  have "set (range_in ks ?f new names0) = set names0 \<union> (\<Union>k \<in> set ks. case fmlookup new k of
      Some l \<Rightarrow> set (if fresh_udp old k l then [k] else []) | None \<Rightarrow> {})"
    by (rule range_append_fst) (simp add: fresh_udp_def)
  also have "(\<Union>k \<in> set ks. case fmlookup new k of
      Some l \<Rightarrow> set (if fresh_udp old k l then [k] else []) | None \<Rightarrow> {}) =
      {spn. \<exists>l. fmlookup new spn = Some l \<and> fresh_udp old spn l}"
    by (rule set_eqI, subst visits_UN [OF assms]) (auto split: if_splits)
  finally show ?thesis .
qed

section \<open>Properties\<close>

text \<open>
  C37. The endpoints reported as stale are exactly those of a UDP port that no endpoint of the
  new map under the same port equals, and the services reported as stale are exactly the UDP
  ports that have endpoints now and had none; nothing reported before is lost.
\<close>

theorem detectStaleConnections_exact:
  assumes "visits ord_old old" and "visits ord_new new"
    and "detectStaleConnections ord_old ord_new old new (eps0, names0) = (eps1, names1)"
  shows "set eps1 = set eps0 \<union>
      {\<lparr>se_Endpoint = endpoint_String ep, se_ServicePortName = spn\<rparr> | spn ep l.
         fmlookup old spn = Some l \<and> Protocol spn = ProtocolUDP \<and> ep \<in> set l \<and>
         \<not> (\<exists>l' e. fmlookup new spn = Some l' \<and> e \<in> set l' \<and> endpoint_Equal e ep)} \<and>
    set names1 = set names0 \<union>
      {spn. Protocol spn = ProtocolUDP \<and> (\<exists>l. fmlookup new spn = Some l \<and> l \<noteq> []) \<and>
         (\<forall>l. fmlookup old spn = Some l \<longrightarrow> l = [])}"
proof -
  have "{spn. \<exists>l. fmlookup new spn = Some l \<and> fresh_udp old spn l} =
      {spn. Protocol spn = ProtocolUDP \<and> (\<exists>l. fmlookup new spn = Some l \<and> l \<noteq> []) \<and>
         (\<forall>l. fmlookup old spn = Some l \<longrightarrow> l = [])}"
    by (auto simp: fresh_udp_def split: option.splits)
  then show ?thesis using assms(3)
    by (auto simp: detectStaleConnections_def stale_endpoints_range [OF assms(1)]
        stale_names_range [OF assms(2)] is_stale_iff)
qed

text \<open>
  \<open>getLocalEndpointIPs\<close> collects, per service, exactly the IPs of its local endpoints over
  all its ports, in whatever order the map is visited.
\<close>

theorem getLocalEndpointIPs_exact:
  assumes "visits ks em"
  shows "ip |\<in>| (case fmlookup (getLocalEndpointIPs x ks em) nn of Some s \<Rightarrow> s | None \<Rightarrow> {||}) \<longleftrightarrow>
     (\<exists>spn eps ep. fmlookup em spn = Some eps \<and> NamespacedName_of spn = nn \<and> ep \<in> set eps \<and>
        GetIsLocal ep \<and> ip = endpoint_IP x ep)"
  unfolding getLocalEndpointIPs_def local_ips_range using visits_mem [OF assms] by auto

section \<open>Witnesses\<close>

definition local_dns :: endpoint where
  "local_dns = EndpointsInfo \<lparr>Endpoint = ''10.1.0.5:53'', IsLocal = True, Topology = None\<rparr> ''''"

theorem detectStaleConnections_exact_witness:
  "detectStaleConnections [dns_name] [] (fmupd dns_name [local_dns] fmempty) fmempty ([], []) =
     ([\<lparr>se_Endpoint = ''10.1.0.5:53'', se_ServicePortName = dns_name\<rparr>], []) \<and>
   \<lparr>se_Endpoint = ''10.1.0.5:53'', se_ServicePortName = dns_name\<rparr> \<in>
     {\<lparr>se_Endpoint = endpoint_String ep, se_ServicePortName = spn\<rparr> | spn ep l.
         fmlookup (fmupd dns_name [local_dns] fmempty) spn = Some l \<and> Protocol spn = ProtocolUDP \<and>
         ep \<in> set l}"
proof -
  have run: "detectStaleConnections [dns_name] [] (fmupd dns_name [local_dns] fmempty) fmempty ([], []) =
     ([\<lparr>se_Endpoint = ''10.1.0.5:53'', se_ServicePortName = dns_name\<rparr>], [])"
    by (simp add: detectStaleConnections_def stale_endpoints_of_def is_stale_def dns_name_def
        ProtocolUDP_def local_dns_def endpoint_String_def)
  have "visits [] (fmempty :: endpoints_map)" by simp
  from detectStaleConnections_exact [OF visits_singleton this run] run show ?thesis
    by (auto simp: local_dns_def endpoint_String_def)
qed

theorem getLocalEndpointIPs_exact_witness:
  "''10.1.0.5'' |\<in>| (case fmlookup (getLocalEndpointIPs simple_ext [dns_name]
      (fmupd dns_name [local_dns] fmempty)) (NamespacedName ''kube'' ''dns'') of
      Some s \<Rightarrow> s | None \<Rightarrow> {||})"
proof -
  have "endpoint_IP simple_ext local_dns = ''10.1.0.5''" by code_simp
  then show ?thesis
    unfolding getLocalEndpointIPs_exact [OF visits_singleton]
    by (intro exI [of _ dns_name] exI [of _ "[local_dns]"] exI [of _ local_dns])
      (simp add: dns_name_def GetIsLocal_def local_dns_def)
qed

end
