(* ===== verification/Endpoint_Slices.thy ===== *)
theory Endpoint_Slices
  imports Endpoints "HOL-Library.Multiset"
begin

text \<open>
  \<open>controller/endpointsslice.go\<close>: the cache of endpoint slices. For every service it keeps the
  slices that are applied and those that are pending; a checkout turns the pending slices of
  each service into one change and marks them as applied. Entries of a port are collected per
  IP over all slices, so a duplicate address counts once.

  The visiting order of the slices of a service can be seen in the result (the first non-local
  duplicate stays, a later local one replaces it), so the operations take it as an argument,
  \<open>vs\<close>, a list of slice names for every map of slices.
\<close>

section \<open>State\<close>

record endpoint_info =
  ei_Addresses :: "string list"
  ei_Topology :: "(string, string) fmap option"

record slice_info =
  si_Ports :: "slice_port list"
  si_Endpoints :: "endpoint_info list"
  Remove :: bool

type_synonym slices = "(string, slice_info) fmap"

record slice_tracker =
  applied :: slices
  pending :: slices

record slice_cache =
  trackerByServiceMap :: "(namespaced_name, slice_tracker) fmap"
  cache_makeEndpointInfo :: "base_endpoint_info \<Rightarrow> endpoint"
  cache_hostname :: string
  cache_isIPv6Mode :: "bool option"

definition standardEndpointInfo :: "base_endpoint_info \<Rightarrow> endpoint" where
  "standardEndpointInfo ep = BaseEndpointInfo ep"

definition NewEndpointSliceCache ::
    "string \<Rightarrow> bool option \<Rightarrow> (base_endpoint_info \<Rightarrow> endpoint) option \<Rightarrow> slice_cache" where
  "NewEndpointSliceCache host v6 mk =
     \<lparr>trackerByServiceMap = fmempty,
      cache_makeEndpointInfo = (case mk of None \<Rightarrow> standardEndpointInfo | Some f \<Rightarrow> f),
      cache_hostname = host, cache_isIPv6Mode = v6\<rparr>"

definition newEndpointSliceTracker :: slice_tracker where
  "newEndpointSliceTracker = \<lparr>applied = fmempty, pending = fmempty\<rparr>"

section \<open>Keys and sorted copies of a slice\<close>

definition LabelServiceName :: string where
  "LabelServiceName = ''kubernetes.io/service-name''"

definition LabelHostname :: string where
  "LabelHostname = ''kubernetes.io/hostname''"

text \<open>\<open>endpointSliceCacheKeys\<close>: the service's name, the slice's name and whether there was an error.\<close>

definition endpointSliceCacheKeys :: "endpoint_slice \<Rightarrow> namespaced_name \<times> string \<times> bool" where
  "endpointSliceCacheKeys es =
     (let serviceName = (case fmlookup (es_Labels es) LabelServiceName of Some s \<Rightarrow> s | None \<Rightarrow> '''')
      in (NamespacedName (es_Namespace es) serviceName, es_Name es,
          serviceName = '''' \<or> es_Namespace es = '''' \<or> es_Name es = ''''))"

text \<open>
  \<open>sort.Sort(byPort(...))\<close> compares \<open>*p[i].Port\<close>: with two ports or more every port takes part
  in a comparison, so a nil port panics. \<open>sort.Sort\<close> promises no order among ports with equal
  numbers; here they keep theirs, as in the insertion sort that Go uses for a few elements.
\<close>

definition sort_ports :: "slice_port list \<Rightarrow> slice_port list result" where
  "sort_ports ps =
     (if 2 \<le> length ps \<and> list_ex (\<lambda>p. slp_Port p = None) ps then Inl NilDeref
      else Inr (sort_key (\<lambda>p. case slp_Port p of Some i \<Rightarrow> i | None \<Rightarrow> 0) ps))"

fun Join :: "string list \<Rightarrow> string \<Rightarrow> string" where
  "Join [] sep = ''''"
| "Join [s] sep = s"
| "Join (s # t # ss) sep = s @ sep @ Join (t # ss) sep"

definition sort_by_address :: "endpoint_info list \<Rightarrow> endpoint_info list" where
  "sort_by_address = sort_key (\<lambda>e. Join (ei_Addresses e) '','')"

definition newEndpointSliceInfo :: "endpoint_slice \<Rightarrow> bool \<Rightarrow> slice_info result" where
  "newEndpointSliceInfo es remove =
     bindr (sort_ports (es_Ports es)) (\<lambda>ports.
       Inr \<lparr>si_Ports = ports,
            si_Endpoints =
              (if remove then []
               else sort_by_address
                 (map (\<lambda>e. \<lparr>ei_Addresses = sle_Addresses e, ei_Topology = sle_Topology e\<rparr>)
                    (filter (\<lambda>e. Ready e = None \<or> Ready e = Some True) (es_Endpoints es)))),
            Remove = remove\<rparr>)"

section \<open>Updates\<close>

definition esInfoChanged ::
    "slice_cache \<Rightarrow> namespaced_name \<Rightarrow> string \<Rightarrow> slice_info \<Rightarrow> bool" where
  "esInfoChanged cache serviceKey sliceKey esInfo =
     (case fmlookup (trackerByServiceMap cache) serviceKey of
        Some tr \<Rightarrow>
          (case fmlookup (pending tr) sliceKey of
             Some pendingInfo \<Rightarrow> esInfo \<noteq> pendingInfo
           | None \<Rightarrow>
               (case fmlookup (applied tr) sliceKey of
                  Some appliedInfo \<Rightarrow> esInfo \<noteq> appliedInfo
                | None \<Rightarrow> \<not> Remove esInfo))
      | None \<Rightarrow> \<not> Remove esInfo)"

definition updatePending ::
    "slice_cache \<Rightarrow> endpoint_slice \<Rightarrow> bool \<Rightarrow> (bool \<times> slice_cache) result" where
  "updatePending cache es remove =
     (case endpointSliceCacheKeys es of (serviceKey, sliceKey, err) \<Rightarrow>
        if err then Inr (False, cache)
        else bindr (newEndpointSliceInfo es remove) (\<lambda>esInfo.
          let cache1 =
                (case fmlookup (trackerByServiceMap cache) serviceKey of
                   Some _ \<Rightarrow> cache
                 | None \<Rightarrow> cache\<lparr>trackerByServiceMap :=
                     fmupd serviceKey newEndpointSliceTracker (trackerByServiceMap cache)\<rparr>);
              changed = esInfoChanged cache1 serviceKey sliceKey esInfo
          in if changed
             then (case fmlookup (trackerByServiceMap cache1) serviceKey of
                     None \<Rightarrow> Inl NilDeref
                   | Some tr \<Rightarrow>
                       Inr (True, cache1\<lparr>trackerByServiceMap :=
                         fmupd serviceKey (tr\<lparr>pending := fmupd sliceKey esInfo (pending tr)\<rparr>)
                           (trackerByServiceMap cache1)\<rparr>))
             else Inr (False, cache1)))"

section \<open>From slices to an endpoints map\<close>

type_synonym by_ip = "(string, endpoint) fmap"
type_synonym sp_to_endpoints = "(service_port_name, by_ip) fmap"

definition cache_isLocal :: "slice_cache \<Rightarrow> string \<Rightarrow> bool" where
  "cache_isLocal cache host \<longleftrightarrow> length (cache_hostname cache) > 0 \<and> host = cache_hostname cache"

definition topology_host :: "(string, string) fmap option \<Rightarrow> string" where
  "topology_host topo =
     (case fmlookup (nilmap topo) LabelHostname of Some h \<Rightarrow> h | None \<Rightarrow> '''')"

text \<open>\<open>addEndpointsByIP\<close>: one endpoint of the loop.\<close>

definition add_endpoint ::
    "k8s_ext \<Rightarrow> slice_cache \<Rightarrow> int \<Rightarrow> by_ip \<Rightarrow> endpoint_info \<Rightarrow> by_ip" where
  "add_endpoint x cache portNum byIP ep =
     (case ei_Addresses ep of
        [] \<Rightarrow> byIP
      | addr # _ \<Rightarrow>
          if (case cache_isIPv6Mode cache of None \<Rightarrow> False
              | Some v6 \<Rightarrow> IsIPv6String x addr \<noteq> v6) then byIP
          else
            let isLoc = cache_isLocal cache (topology_host (ei_Topology ep));
                base = newBaseEndpointInfo addr portNum isLoc (ei_Topology ep);
                ip = IPPart x (Endpoint base)
            in if fmlookup byIP ip = None \<or> isLoc
               then fmupd ip (cache_makeEndpointInfo cache base) byIP
               else byIP)"

definition addEndpointsByIP ::
    "k8s_ext \<Rightarrow> slice_cache \<Rightarrow> int \<Rightarrow> by_ip option \<Rightarrow> endpoint_info list \<Rightarrow> by_ip" where
  "addEndpointsByIP x cache portNum byIP eps =
     foldl (add_endpoint x cache portNum) (nilmap byIP) eps"

text \<open>\<open>endpointInfoByServicePort\<close>: one port of one slice; the protocol is dereferenced.\<close>

definition add_slice_port ::
    "k8s_ext \<Rightarrow> slice_cache \<Rightarrow> namespaced_name \<Rightarrow> slice_info \<Rightarrow> sp_to_endpoints \<Rightarrow> slice_port \<Rightarrow>
     sp_to_endpoints result" where
  "add_slice_port x cache nn si m p =
     (case slp_Name p of
        None \<Rightarrow> Inr m
      | Some name \<Rightarrow>
          (case slp_Port p of
             None \<Rightarrow> Inr m
           | Some num \<Rightarrow>
               if num = 0 then Inr m
               else (case slp_Protocol p of
                       None \<Rightarrow> Inl NilDeref
                     | Some proto \<Rightarrow>
                         let spn = ServicePortName nn name proto
                         in Inr (fmupd spn
                              (addEndpointsByIP x cache num (fmlookup m spn) (si_Endpoints si)) m))))"

definition add_slice ::
    "k8s_ext \<Rightarrow> slice_cache \<Rightarrow> namespaced_name \<Rightarrow> slices \<Rightarrow> sp_to_endpoints \<Rightarrow> string \<Rightarrow>
     sp_to_endpoints result" where
  "add_slice x cache nn ss m name =
     (case fmlookup ss name of
        None \<Rightarrow> Inr m
      | Some si \<Rightarrow> foldr_r (add_slice_port x cache nn si) m (si_Ports si))"

definition endpointInfoByServicePort ::
    "k8s_ext \<Rightarrow> (slices \<Rightarrow> string list) \<Rightarrow> slice_cache \<Rightarrow> namespaced_name \<Rightarrow> slices \<Rightarrow>
     sp_to_endpoints result" where
  "endpointInfoByServicePort x vs cache nn ss =
     foldr_r (add_slice x cache nn ss) fmempty (vs ss)"

text \<open>
  \<open>endpointsMapFromEndpointInfo\<close>: ports without endpoints are left out, the endpoints of a
  port are listed in the order of their strings.
\<close>

definition sort_by_ip :: "endpoint list \<Rightarrow> endpoint list" where
  "sort_by_ip = sort_key endpoint_String"

definition by_ip_values :: "by_ip \<Rightarrow> endpoint list" where
  "by_ip_values m = map snd (sorted_list_of_fmap m)"

definition endpointsMapFromEndpointInfo :: "sp_to_endpoints \<Rightarrow> endpoints_map" where
  "endpointsMapFromEndpointInfo m =
     fmmap (\<lambda>byIP. sort_by_ip (by_ip_values byIP))
       (fmfilter (\<lambda>spn. fmlookup m spn \<noteq> Some fmempty) m)"

definition getEndpointsMap ::
    "k8s_ext \<Rightarrow> (slices \<Rightarrow> string list) \<Rightarrow> slice_cache \<Rightarrow> namespaced_name \<Rightarrow> slices \<Rightarrow>
     endpoints_map result" where
  "getEndpointsMap x vs cache nn ss =
     bindr (endpointInfoByServicePort x vs cache nn ss)
       (\<lambda>m. Inr (endpointsMapFromEndpointInfo m))"

section \<open>Checkout\<close>

record endpoints_change =
  ec_previous :: "endpoints_map option"
  ec_current :: "endpoints_map option"

text \<open>One round of the loop over the pending slices of a service.\<close>

definition apply_pending_slice :: "string \<Rightarrow> slice_info \<Rightarrow> slice_tracker \<Rightarrow> slice_tracker" where
  "apply_pending_slice name si tr =
     (let tr1 = (if Remove si then tr\<lparr>applied := fmdrop name (applied tr)\<rparr>
                 else tr\<lparr>applied := fmupd name si (applied tr)\<rparr>)
      in tr1\<lparr>pending := fmdrop name (pending tr1)\<rparr>)"

definition apply_pending :: "(slices \<Rightarrow> string list) \<Rightarrow> slice_tracker \<Rightarrow> slice_tracker" where
  "apply_pending vs tr = range_in (vs (pending tr)) apply_pending_slice (pending tr) tr"

definition checkout_service ::
    "k8s_ext \<Rightarrow> (slices \<Rightarrow> string list) \<Rightarrow> endpoints_change list \<times> slice_cache \<Rightarrow>
     namespaced_name \<Rightarrow> (endpoints_change list \<times> slice_cache) result" where
  "checkout_service x vs st nn =
     (case st of (changes, cache) \<Rightarrow>
        (case fmlookup (trackerByServiceMap cache) nn of
           None \<Rightarrow> Inr (changes, cache)
         | Some tr \<Rightarrow>
             if pending tr = fmempty then Inr (changes, cache)
             else
               bindr (getEndpointsMap x vs cache nn (applied tr)) (\<lambda>prev.
                 let tr' = apply_pending vs tr in
                 bindr (getEndpointsMap x vs cache nn (applied tr')) (\<lambda>cur.
                   Inr (changes @ [\<lparr>ec_previous = Some prev, ec_current = Some cur\<rparr>],
                        cache\<lparr>trackerByServiceMap :=
                          fmupd nn tr' (trackerByServiceMap cache)\<rparr>)))))"

definition cache_checkoutChanges ::
    "k8s_ext \<Rightarrow> (slices \<Rightarrow> string list) \<Rightarrow> namespaced_name list \<Rightarrow> slice_cache \<Rightarrow>
     (endpoints_change list \<times> slice_cache) result" where
  "cache_checkoutChanges x vs ord cache = foldr_r (checkout_service x vs) ([], cache) ord"

section \<open>Lemmas: updates\<close>

text \<open>
  The slice of a name as the proxier will see it at the next sync: the pending one if there is
  one, none if it is marked for removal, the applied one otherwise.
\<close>

definition effective_slice :: "slice_tracker \<Rightarrow> string \<Rightarrow> slice_info option" where
  "effective_slice tr name =
     (case fmlookup (pending tr) name of
        Some si \<Rightarrow> if Remove si then None else Some si
      | None \<Rightarrow> fmlookup (applied tr) name)"

definition effective :: "slice_cache \<Rightarrow> namespaced_name \<Rightarrow> string \<Rightarrow> slice_info option" where
  "effective cache nn name =
     (case fmlookup (trackerByServiceMap cache) nn of
        None \<Rightarrow> None | Some tr \<Rightarrow> effective_slice tr name)"

text \<open>No applied slice is marked for removal.\<close>

definition tracker_inv :: "slice_tracker \<Rightarrow> bool" where
  "tracker_inv tr \<longleftrightarrow> fmpred (\<lambda>_ si. \<not> Remove si) (applied tr)"

definition cache_inv :: "slice_cache \<Rightarrow> bool" where
  "cache_inv cache \<longleftrightarrow> fmpred (\<lambda>_. tracker_inv) (trackerByServiceMap cache)"

lemma effective_slice_new [simp]: "effective_slice newEndpointSliceTracker name = None"
  by (simp add: effective_slice_def newEndpointSliceTracker_def)

lemma tracker_inv_new [simp]: "tracker_inv newEndpointSliceTracker"
  by (simp add: tracker_inv_def newEndpointSliceTracker_def)

lemma Remove_newEndpointSliceInfo:
  "newEndpointSliceInfo es remove = Inr si \<Longrightarrow> Remove si = remove"
  by (auto simp: newEndpointSliceInfo_def bindr_Inr_iff)

lemma effective_unchanged:
  assumes "cache_inv cache" and "\<not> esInfoChanged cache nn name si"
  shows "effective cache nn name = (if Remove si then None else Some si)"
proof (cases "fmlookup (trackerByServiceMap cache) nn")
  case None
  then show ?thesis using assms(2) by (simp add: effective_def esInfoChanged_def)
next
  case (Some tr)
  then have "tracker_inv tr" using assms(1) by (auto simp: cache_inv_def)
  then have "fmlookup (applied tr) name = Some si' \<Longrightarrow> \<not> Remove si'" for si'
    by (auto simp: tracker_inv_def)
  then show ?thesis using assms(2) Some
    by (auto simp: effective_def esInfoChanged_def effective_slice_def split: option.splits)
qed

lemma updatePending_effective:
  assumes inv: "cache_inv cache" and keys: "endpointSliceCacheKeys es = (nn, name, False)"
    and info: "newEndpointSliceInfo es remove = Inr si"
  shows "\<exists>changed cache'. updatePending cache es remove = Inr (changed, cache') \<and>
     cache_inv cache' \<and>
     (\<forall>nn' name'. effective cache' nn' name' =
        (if nn' = nn \<and> name' = name then (if remove then None else Some si)
         else effective cache nn' name'))"
proof -
  define cache1 where "cache1 = (case fmlookup (trackerByServiceMap cache) nn of
      Some _ \<Rightarrow> cache
    | None \<Rightarrow> cache\<lparr>trackerByServiceMap :=
        fmupd nn newEndpointSliceTracker (trackerByServiceMap cache)\<rparr>)"
  have eff1: "effective cache1 = effective cache"
    by (intro ext) (auto simp: cache1_def effective_def split: option.splits)
  have inv1: "cache_inv cache1" using inv by (auto simp: cache1_def cache_inv_def split: option.splits)
  obtain tr where tr: "fmlookup (trackerByServiceMap cache1) nn = Some tr"
    by (cases "fmlookup (trackerByServiceMap cache) nn") (auto simp: cache1_def)
  note R = Remove_newEndpointSliceInfo [OF info]
  show ?thesis
  proof (cases "esInfoChanged cache1 nn name si")
    case False
    then have "updatePending cache es remove = Inr (False, cache1)"
      using keys info by (simp add: updatePending_def cache1_def [symmetric])
    then show ?thesis using effective_unchanged [OF inv1 False] R inv1 eff1 by auto
  next
    case True
    let ?cache' = "cache1\<lparr>trackerByServiceMap :=
      fmupd nn (tr\<lparr>pending := fmupd name si (pending tr)\<rparr>) (trackerByServiceMap cache1)\<rparr>"
    have "updatePending cache es remove = Inr (True, ?cache')"
      using keys info True tr by (simp add: updatePending_def cache1_def [symmetric])
    moreover have "cache_inv ?cache'"
      using inv1 fmpredD [OF inv1 [unfolded cache_inv_def] tr]
      by (auto simp: cache_inv_def tracker_inv_def intro!: fmpred_upd)
    moreover have "effective ?cache' nn' name' =
        (if nn' = nn \<and> name' = name then (if remove then None else Some si)
         else effective cache nn' name')" for nn' name'
    proof -
      have "effective ?cache' nn' name' =
          (if nn' = nn \<and> name' = name then (if remove then None else Some si)
           else effective cache1 nn' name')"
        using R tr by (auto simp: effective_def effective_slice_def cong: option.case_cong)
      then show ?thesis by (simp only: eff1)
    qed
    ultimately show ?thesis by blast
  qed
qed

section \<open>Lemmas: checkout\<close>

lemma apply_pending_fold:
  assumes "distinct ks" and "\<And>k. k \<in> set ks \<Longrightarrow> fmlookup pd k \<noteq> None"
  shows "fmlookup (applied (range_in ks apply_pending_slice pd tr)) name =
      (if name \<in> set ks
       then (case fmlookup pd name of Some si \<Rightarrow> if Remove si then None else Some si
             | None \<Rightarrow> fmlookup (applied tr) name)
       else fmlookup (applied tr) name)"
    and "fmlookup (pending (range_in ks apply_pending_slice pd tr)) name =
      (if name \<in> set ks then None else fmlookup (pending tr) name)"
proof -
  show "fmlookup (applied (range_in ks apply_pending_slice pd tr)) name =
      (if name \<in> set ks
       then (case fmlookup pd name of Some si \<Rightarrow> if Remove si then None else Some si
             | None \<Rightarrow> fmlookup (applied tr) name)
       else fmlookup (applied tr) name)"
    using assms by (induction ks arbitrary: tr)
      (auto simp: apply_pending_slice_def Let_def split: option.splits)
  show "fmlookup (pending (range_in ks apply_pending_slice pd tr)) name =
      (if name \<in> set ks then None else fmlookup (pending tr) name)"
    using assms
  proof (induction ks arbitrary: tr)
    case (Cons k ks)
    obtain si where "fmlookup pd k = Some si" using Cons.prems(2) [of k] by auto
    then show ?case using Cons.IH Cons.prems by (auto simp: apply_pending_slice_def Let_def)
  qed simp
qed

lemma apply_pending_effective:
  assumes "visits (vs (pending tr)) (pending tr)"
  shows "fmlookup (applied (apply_pending vs tr)) name = effective_slice tr name"
    and "pending (apply_pending vs tr) = fmempty"
proof -
  note vis = visits_mem [OF assms]
  have mem: "k \<in> set (vs (pending tr)) \<Longrightarrow> fmlookup (pending tr) k \<noteq> None" for k
    using vis [of k] by auto
  note fold = apply_pending_fold [OF visits_distinct [OF assms] mem, of tr]
  show "fmlookup (applied (apply_pending vs tr)) name = effective_slice tr name"
    using vis [of name] by (auto simp: apply_pending_def fold effective_slice_def split: option.splits)
  show "pending (apply_pending vs tr) = fmempty"
  proof (rule fmap_ext)
    fix k
    show "fmlookup (pending (apply_pending vs tr)) k = fmlookup fmempty k"
      using vis [of k] fold(2) [of k] by (auto simp: apply_pending_def)
  qed
qed

lemma tracker_inv_apply_pending:
  assumes "visits (vs (pending tr)) (pending tr)" and "tracker_inv tr"
  shows "tracker_inv (apply_pending vs tr)"
  using assms by (auto simp: tracker_inv_def apply_pending_effective effective_slice_def
      fmpred_iff split: option.splits if_splits)

section \<open>Lemmas: the endpoints of a service\<close>

text \<open>
  What the Kubernetes API guarantees of the ports of a slice, and all that excludes a panic in
  building the map: a port that is used has a protocol.
\<close>

definition proto_ok :: "slice_info \<Rightarrow> bool" where
  "proto_ok si \<longleftrightarrow> (\<forall>p \<in> set (si_Ports si). slp_Name p \<noteq> None \<longrightarrow>
     slp_Port p \<noteq> None \<longrightarrow> slp_Port p \<noteq> Some 0 \<longrightarrow> slp_Protocol p \<noteq> None)"

definition slices_ok :: "slices \<Rightarrow> bool" where
  "slices_ok ss \<longleftrightarrow> fmpred (\<lambda>_. proto_ok) ss"

lemma add_slice_port_ok:
  assumes "proto_ok si" and "p \<in> set (si_Ports si)"
  shows "\<exists>m'. add_slice_port x cache nn si m p = Inr m'"
  using assms by (auto simp: add_slice_port_def proto_ok_def Let_def split: option.splits)

lemma getEndpointsMap_ok:
  assumes "slices_ok ss"
  shows "\<exists>m. getEndpointsMap x vs cache nn ss = Inr m"
proof -
  have "\<exists>t. add_slice x cache nn ss m name = Inr t" for m name
  proof (cases "fmlookup ss name")
    case None
    then show ?thesis by (simp add: add_slice_def)
  next
    case (Some si)
    then have "proto_ok si" using assms by (auto simp: slices_ok_def)
    then have "\<exists>t. foldr_r (add_slice_port x cache nn si) m (si_Ports si) = Inr t"
      by (intro foldr_r_ok add_slice_port_ok)
    then show ?thesis using Some by (simp add: add_slice_def)
  qed
  then have "\<exists>t. endpointInfoByServicePort x vs cache nn ss = Inr t"
    unfolding endpointInfoByServicePort_def by (intro foldr_r_ok) blast
  then show ?thesis by (auto simp: getEndpointsMap_def)
qed

text \<open>An invariant of the nested loops holds of the map they build.\<close>

lemma endpointInfoByServicePort_invariant:
  assumes run: "endpointInfoByServicePort x vs cache nn ss = Inr m"
    and empty: "P fmempty"
    and step: "\<And>m spn num eps. P m \<Longrightarrow> NamespacedName_of spn = nn \<Longrightarrow>
      P (fmupd spn (addEndpointsByIP x cache num (fmlookup m spn) eps) m)"
  shows "P m"
proof (rule foldr_r_invariant
    [where P = P, OF run [unfolded endpointInfoByServicePort_def] empty])
  fix u v name assume "P u" and v: "add_slice x cache nn ss u name = Inr v"
  show "P v"
  proof (cases "fmlookup ss name")
    case None
    then show ?thesis using v \<open>P u\<close> by (simp add: add_slice_def)
  next
    case (Some si)
    then have fold: "foldr_r (add_slice_port x cache nn si) u (si_Ports si) = Inr v"
      using v by (simp add: add_slice_def)
    show ?thesis
      by (rule foldr_r_invariant [where P = P, OF fold \<open>P u\<close>])
        (auto simp: add_slice_port_def Let_def step split: option.splits if_splits)
  qed
qed

lemma addEndpointsByIP_invariant:
  assumes "Q (nilmap byIP)"
    and "\<And>m e. Q m \<Longrightarrow> Q (fmupd (endpoint_IP x e) e m)"
    and "\<And>b. Endpoint (ep_base (cache_makeEndpointInfo cache b)) = Endpoint b"
  shows "Q (addEndpointsByIP x cache num byIP eps)"
proof -
  have step: "Q m \<Longrightarrow> Q (add_endpoint x cache num m ep)" for m ep
  proof -
    assume "Q m"
    then have "Q (fmupd (IPPart x (Endpoint b)) (cache_makeEndpointInfo cache b) m)" for b
      using assms(2) [of m "cache_makeEndpointInfo cache b"] by (simp add: endpoint_IP_def assms(3))
    then show ?thesis using \<open>Q m\<close> by (auto simp: add_endpoint_def Let_def split: list.split)
  qed
  have "Q m \<Longrightarrow> Q (foldl (add_endpoint x cache num) m eps)" for m
    by (induction eps arbitrary: m) (auto simp: step)
  then show ?thesis using assms(1) by (simp add: addEndpointsByIP_def)
qed

lemma getEndpointsMap_owned:
  assumes "getEndpointsMap x vs cache nn ss = Inr em" and "spn |\<in>| fmdom em"
  shows "NamespacedName_of spn = nn"
proof -
  obtain m where m: "endpointInfoByServicePort x vs cache nn ss = Inr m"
      and em: "em = endpointsMapFromEndpointInfo m"
    using assms(1) by (auto simp: getEndpointsMap_def bindr_Inr_iff)
  have "\<forall>spn. spn |\<in>| fmdom m \<longrightarrow> NamespacedName_of spn = nn"
    by (rule endpointInfoByServicePort_invariant [OF m]) auto
  then show ?thesis using assms(2) by (auto simp: em endpointsMapFromEndpointInfo_def fmdom_filter)
qed

text \<open>Endpoints are filed under their own IP.\<close>

definition by_ip_wf :: "k8s_ext \<Rightarrow> by_ip \<Rightarrow> bool" where
  "by_ip_wf x m \<longleftrightarrow> fmpred (\<lambda>ip e. endpoint_IP x e = ip) m"

lemma by_ip_wfD: "by_ip_wf x m \<Longrightarrow> fmlookup m ip = Some e \<Longrightarrow> endpoint_IP x e = ip"
  by (auto simp: by_ip_wf_def dest: fmpredD)

lemma endpointInfoByServicePort_wf:
  assumes "endpointInfoByServicePort x vs cache nn ss = Inr m"
    and mk: "\<And>b. Endpoint (ep_base (cache_makeEndpointInfo cache b)) = Endpoint b"
  shows "fmpred (\<lambda>_. by_ip_wf x) m"
proof (rule endpointInfoByServicePort_invariant [OF assms(1)])
  fix m :: sp_to_endpoints and spn num eps
  assume wf: "fmpred (\<lambda>_. by_ip_wf x) m"
  have "by_ip_wf x (nilmap (fmlookup m spn))"
    using wf by (cases "fmlookup m spn") (auto simp: by_ip_wf_def)
  then have "by_ip_wf x (addEndpointsByIP x cache num (fmlookup m spn) eps)"
    by (rule addEndpointsByIP_invariant) (auto simp: by_ip_wf_def mk)
  then show "fmpred (\<lambda>_. by_ip_wf x) (fmupd spn (addEndpointsByIP x cache num (fmlookup m spn) eps) m)"
    using wf by blast
qed simp

lemma set_by_ip_values: "e \<in> set (by_ip_values m) \<longleftrightarrow> (\<exists>ip. fmlookup m ip = Some e)"
proof -
  have "e \<in> set (by_ip_values m) \<longleftrightarrow> (\<exists>ip. (ip, e) \<in> set (sorted_list_of_fmap m))"
    unfolding by_ip_values_def by force
  also have "\<dots> \<longleftrightarrow> (\<exists>ip. fmlookup m ip = Some e)"
    by (auto simp: sorted_list_of_fmap_def sorted_list_of_fset.rep_eq image_iff fmlookup_dom_iff)
  finally show ?thesis .
qed

lemma distinct_by_ip_values:
  assumes "by_ip_wf x m"
  shows "distinct (map (endpoint_IP x) (by_ip_values m))"
proof -
  have "map (endpoint_IP x) (by_ip_values m) = map fst (sorted_list_of_fmap m)"
    by (auto simp: by_ip_values_def sorted_list_of_fmap_def fmlookup_dom_iff
        sorted_list_of_fset.rep_eq by_ip_wfD [OF assms])
  then show ?thesis
    by (simp add: sorted_list_of_fmap_def comp_def sorted_list_of_fset.rep_eq)
qed

text \<open>
  The list of a port is the same for every order in which the endpoints of the port are
  collected, because different IPs give different strings.
\<close>

lemma sort_by_ip_any_order:
  assumes "by_ip_wf x m" and "visits ips m"
  shows "sort_by_ip (map (\<lambda>ip. the (fmlookup m ip)) ips) = sort_by_ip (by_ip_values m)"
proof -
  have inj: "inj_on endpoint_String (set (map (\<lambda>ip. the (fmlookup m ip)) ips))"
  proof (rule inj_onI)
    fix e e' assume e: "e \<in> set (map (\<lambda>ip. the (fmlookup m ip)) ips)"
      "e' \<in> set (map (\<lambda>ip. the (fmlookup m ip)) ips)" and eq: "endpoint_String e = endpoint_String e'"
    then obtain ip ip' where "fmlookup m ip = Some e" "fmlookup m ip' = Some e'"
      using visits_mem [OF assms(2)] by fastforce
    moreover from this have "ip = ip'" using by_ip_wfD [OF assms(1)] eq
      by (metis endpoint_IP_def endpoint_String_def)
    ultimately show "e = e'" by simp
  qed
  have "mset (sorted_list_of_fset (fmdom m)) = mset ips"
    using assms(2) by (intro set_eq_iff_mset_eq_distinct [THEN iffD1])
      (simp_all add: visits_def sorted_list_of_fset.rep_eq)
  then have "mset (by_ip_values m) = mset (map (\<lambda>ip. the (fmlookup m ip)) ips)"
    by (simp add: by_ip_values_def sorted_list_of_fmap_def comp_def)
  then show ?thesis unfolding sort_by_ip_def
    by (intro sort_key_eq_sort_key) (use inj in simp_all)
qed

section \<open>Lemmas: which endpoint an IP gets\<close>

text \<open>
  The candidates of a slice: the first address of a ready endpoint of the right family, under
  each port that has a name and a number.
\<close>

definition endpoint_candidate ::
    "k8s_ext \<Rightarrow> slice_cache \<Rightarrow> int \<Rightarrow> endpoint_info \<Rightarrow> endpoint option" where
  "endpoint_candidate x cache num ep =
     (case ei_Addresses ep of
        [] \<Rightarrow> None
      | addr # _ \<Rightarrow>
          if (case cache_isIPv6Mode cache of None \<Rightarrow> False
              | Some v6 \<Rightarrow> IsIPv6String x addr \<noteq> v6) then None
          else Some (cache_makeEndpointInfo cache
            (newBaseEndpointInfo addr num (cache_isLocal cache (topology_host (ei_Topology ep)))
              (ei_Topology ep))))"

definition port_candidates ::
    "k8s_ext \<Rightarrow> slice_cache \<Rightarrow> namespaced_name \<Rightarrow> slice_info \<Rightarrow> slice_port \<Rightarrow>
     (service_port_name \<times> endpoint) set" where
  "port_candidates x cache nn si p =
     (case (slp_Name p, slp_Port p, slp_Protocol p) of
        (Some name, Some num, Some proto) \<Rightarrow>
          if num = 0 then {}
          else {(ServicePortName nn name proto, e) | e ep.
                  ep \<in> set (si_Endpoints si) \<and> endpoint_candidate x cache num ep = Some e}
      | _ \<Rightarrow> {})"

definition slice_candidates ::
    "k8s_ext \<Rightarrow> slice_cache \<Rightarrow> namespaced_name \<Rightarrow> slice_info \<Rightarrow>
     (service_port_name \<times> endpoint) set" where
  "slice_candidates x cache nn si = (\<Union>p \<in> set (si_Ports si). port_candidates x cache nn si p)"

definition candidates ::
    "k8s_ext \<Rightarrow> slice_cache \<Rightarrow> namespaced_name \<Rightarrow> slices \<Rightarrow>
     (service_port_name \<times> endpoint) set" where
  "candidates x cache nn ss =
     {c. \<exists>name si. fmlookup ss name = Some si \<and> c \<in> slice_candidates x cache nn si}"

text \<open>The endpoints collected so far, against the candidates seen so far.\<close>

definition chosen ::
    "k8s_ext \<Rightarrow> endpoint set \<Rightarrow> by_ip \<Rightarrow> bool" where
  "chosen x C byIP \<longleftrightarrow>
     (\<forall>ip e. fmlookup byIP ip = Some e \<longrightarrow> e \<in> C \<and> endpoint_IP x e = ip) \<and>
     (\<forall>e \<in> C. \<exists>e'. fmlookup byIP (endpoint_IP x e) = Some e' \<and> (GetIsLocal e \<longrightarrow> GetIsLocal e'))"

text \<open>A relation between the candidates seen and what was collected that every step keeps.\<close>

definition collects ::
    "k8s_ext \<Rightarrow> slice_cache \<Rightarrow> (endpoint set \<Rightarrow> by_ip \<Rightarrow> bool) \<Rightarrow> bool" where
  "collects x cache Q \<longleftrightarrow> Q {} fmempty \<and>
     (\<forall>C m num ep. Q C m \<longrightarrow>
        Q (C \<union> set_option (endpoint_candidate x cache num ep)) (add_endpoint x cache num m ep))"

definition every_port ::
    "(endpoint set \<Rightarrow> by_ip \<Rightarrow> bool) \<Rightarrow> (service_port_name \<times> endpoint) set \<Rightarrow>
     sp_to_endpoints \<Rightarrow> bool" where
  "every_port Q C m \<longleftrightarrow> (\<forall>spn. Q {e. (spn, e) \<in> C} (nilmap (fmlookup m spn)))"

definition keeps_base :: "slice_cache \<Rightarrow> bool" where
  "keeps_base cache \<longleftrightarrow> (\<forall>b. ep_base (cache_makeEndpointInfo cache b) = b)"

lemma chosen_put:
  assumes "chosen x C byIP"
  shows "chosen x (insert e C)
    (if fmlookup byIP (endpoint_IP x e) = None \<or> GetIsLocal e
     then fmupd (endpoint_IP x e) e byIP else byIP)"
  using assms unfolding chosen_def by (auto split: if_splits)

lemma chosen_add_endpoint:
  assumes "chosen x C byIP" and "keeps_base cache"
  shows "chosen x (C \<union> set_option (endpoint_candidate x cache num ep))
     (add_endpoint x cache num byIP ep)"
proof (cases "endpoint_candidate x cache num ep")
  case None
  then show ?thesis using assms(1)
    by (auto simp: endpoint_candidate_def add_endpoint_def split: list.splits if_splits)
next
  case (Some e)
  then have "add_endpoint x cache num byIP ep =
      (if fmlookup byIP (endpoint_IP x e) = None \<or> GetIsLocal e
       then fmupd (endpoint_IP x e) e byIP else byIP)"
    using assms(2)
    by (auto simp: endpoint_candidate_def add_endpoint_def keeps_base_def endpoint_IP_def
        GetIsLocal_def newBaseEndpointInfo_def Let_def split: list.splits if_splits)
  then show ?thesis using chosen_put [OF assms(1), of e] Some by simp
qed

lemma collects_chosen: "keeps_base cache \<Longrightarrow> collects x cache (chosen x)"
  using chosen_add_endpoint by (auto simp: collects_def chosen_def [of x "{}"])

text \<open>Whatever the constructor of the endpoints does, something is collected as soon as there
  is a candidate.\<close>

lemma collects_some: "collects x cache (\<lambda>C m. m = fmempty \<longleftrightarrow> C = {})"
proof -
  have upd: "fmupd k e m \<noteq> fmempty" for k e and m :: by_ip
    by (metis fmempty_lookup fmupd_lookup option.distinct(1))
  have "add_endpoint x cache num m ep = fmempty \<longleftrightarrow>
      m = fmempty \<and> endpoint_candidate x cache num ep = None" for num m ep
    using upd by (auto simp: add_endpoint_def endpoint_candidate_def Let_def split: list.splits)
  then show ?thesis by (auto simp: collects_def)
qed

lemma collects_addEndpointsByIP:
  assumes "Q C (nilmap byIP)" and "collects x cache Q"
  shows "Q (C \<union> {e. \<exists>ep \<in> set eps. endpoint_candidate x cache num ep = Some e})
     (addEndpointsByIP x cache num byIP eps)"
proof -
  have "Q C m \<Longrightarrow>
      Q (C \<union> {e. \<exists>ep \<in> set eps. endpoint_candidate x cache num ep = Some e})
        (foldl (add_endpoint x cache num) m eps)" for m
  proof (induction eps arbitrary: C m)
    case (Cons ep eps)
    have "C \<union> {e. \<exists>ep' \<in> set (ep # eps). endpoint_candidate x cache num ep' = Some e} =
        C \<union> set_option (endpoint_candidate x cache num ep) \<union>
        {e. \<exists>ep \<in> set eps. endpoint_candidate x cache num ep = Some e}" by auto
    then show ?case
      using Cons.IH [of "C \<union> set_option (endpoint_candidate x cache num ep)"] Cons.prems assms(2)
      by (simp add: collects_def)
  qed simp
  then show ?thesis using assms(1) by (simp add: addEndpointsByIP_def)
qed

lemma every_port_add:
  assumes "every_port Q C m" and "collects x cache Q" and "add_slice_port x cache nn si m p = Inr m'"
  shows "every_port Q (C \<union> port_candidates x cache nn si p) m'"
proof (cases "\<exists>name num proto. slp_Name p = Some name \<and> slp_Port p = Some num \<and> num \<noteq> 0 \<and>
    slp_Protocol p = Some proto")
  case False
  then have "m' = m" "port_candidates x cache nn si p = {}"
    using assms(3) by (auto simp: add_slice_port_def port_candidates_def Let_def
        split: option.splits if_splits)
  then show ?thesis using assms(1) by simp
next
  case True
  then obtain name num proto where p: "slp_Name p = Some name" "slp_Port p = Some num" "num \<noteq> 0"
      "slp_Protocol p = Some proto" by blast
  let ?spn = "ServicePortName nn name proto"
  let ?new = "addEndpointsByIP x cache num (fmlookup m ?spn) (si_Endpoints si)"
  have m': "m' = fmupd ?spn ?new m" using assms(3) p by (simp add: add_slice_port_def Let_def)
  have "Q ({e. (?spn, e) \<in> C} \<union>
      {e. \<exists>ep \<in> set (si_Endpoints si). endpoint_candidate x cache num ep = Some e}) ?new"
    by (rule collects_addEndpointsByIP [OF _ assms(2)]) (use assms(1) in \<open>simp add: every_port_def\<close>)
  moreover have "{e. (?spn, e) \<in> C \<union> port_candidates x cache nn si p} =
      {e. (?spn, e) \<in> C} \<union>
      {e. \<exists>ep \<in> set (si_Endpoints si). endpoint_candidate x cache num ep = Some e}"
    using p by (auto simp: port_candidates_def)
  moreover have "{e. (spn, e) \<in> C \<union> port_candidates x cache nn si p} = {e. (spn, e) \<in> C}"
    if "spn \<noteq> ?spn" for spn
    using that p by (auto simp: port_candidates_def)
  ultimately show ?thesis using assms(1) unfolding every_port_def m' by auto
qed

lemma every_port_slices:
  assumes "endpointInfoByServicePort x vs cache nn ss = Inr m" and "collects x cache Q"
    and "visits (vs ss) ss"
  shows "every_port Q (candidates x cache nn ss) m"
proof -
  let ?g = "\<lambda>name. case fmlookup ss name of Some si \<Rightarrow> slice_candidates x cache nn si | None \<Rightarrow> {}"
  have "every_port Q ({} \<union> (\<Union>name \<in> set (vs ss). ?g name)) m"
  proof (rule foldr_r_collect
      [where P = "every_port Q", OF assms(1) [unfolded endpointInfoByServicePort_def]])
    fix A s name t assume A: "every_port Q A s" and t: "add_slice x cache nn ss s name = Inr t"
    show "every_port Q (A \<union> ?g name) t"
    proof (cases "fmlookup ss name")
      case None
      then show ?thesis using A t by (simp add: add_slice_def)
    next
      case (Some si)
      then have "foldr_r (add_slice_port x cache nn si) s (si_Ports si) = Inr t"
        using t by (simp add: add_slice_def)
      from foldr_r_collect [where P = "every_port Q", OF this A, of "port_candidates x cache nn si"]
      show ?thesis using Some every_port_add [OF _ assms(2)] by (simp add: slice_candidates_def)
    qed
  qed (use assms(2) in \<open>simp add: every_port_def collects_def\<close>)
  moreover have "(\<Union>name \<in> set (vs ss). ?g name) = candidates x cache nn ss"
    by (rule set_eqI, subst visits_UN [OF assms(3)]) (simp add: candidates_def)
  ultimately show ?thesis by simp
qed

lemma getEndpointsMap_lookup:
  assumes "getEndpointsMap x vs cache nn ss = Inr em" and "visits (vs ss) ss"
    and "collects x cache Q"
  shows "\<exists>m. endpointInfoByServicePort x vs cache nn ss = Inr m \<and>
     Q {e. (spn, e) \<in> candidates x cache nn ss} (nilmap (fmlookup m spn)) \<and>
     fmlookup em spn = (if nilmap (fmlookup m spn) = fmempty then None
       else Some (sort_by_ip (by_ip_values (nilmap (fmlookup m spn)))))"
proof -
  obtain m where m: "endpointInfoByServicePort x vs cache nn ss = Inr m"
      and em': "em = endpointsMapFromEndpointInfo m"
    using assms(1) by (auto simp: getEndpointsMap_def bindr_Inr_iff)
  moreover have "Q {e. (spn, e) \<in> candidates x cache nn ss} (nilmap (fmlookup m spn))"
    using every_port_slices [OF m assms(3,2)] by (simp add: every_port_def)
  moreover have "fmlookup em spn = (if nilmap (fmlookup m spn) = fmempty then None
      else Some (sort_by_ip (by_ip_values (nilmap (fmlookup m spn)))))"
    by (cases "fmlookup m spn") (auto simp: em' endpointsMapFromEndpointInfo_def)
  ultimately show ?thesis by blast
qed

text \<open>Which service ports are in the map does not depend on the visiting order.\<close>

lemma getEndpointsMap_keys:
  assumes "getEndpointsMap x vs cache nn ss = Inr em" and "visits (vs ss) ss"
  shows "fmlookup em spn = None \<longleftrightarrow> {e. (spn, e) \<in> candidates x cache nn ss} = {}"
  using getEndpointsMap_lookup [OF assms collects_some, of spn] by auto

lemma getEndpointsMap_chosen:
  assumes em: "getEndpointsMap x vs cache nn ss = Inr em" and base: "keeps_base cache"
    and vis: "visits (vs ss) ss"
  shows "\<exists>byIP. by_ip_wf x byIP \<and> chosen x {e. (spn, e) \<in> candidates x cache nn ss} byIP \<and>
     fmlookup em spn = (if byIP = fmempty then None else Some (sort_by_ip (by_ip_values byIP)))"
proof -
  obtain m where m: "endpointInfoByServicePort x vs cache nn ss = Inr m"
      and ch: "chosen x {e. (spn, e) \<in> candidates x cache nn ss} (nilmap (fmlookup m spn))"
      and em: "fmlookup em spn = (if nilmap (fmlookup m spn) = fmempty then None
        else Some (sort_by_ip (by_ip_values (nilmap (fmlookup m spn)))))"
    using getEndpointsMap_lookup [OF em vis collects_chosen [OF base]] by blast
  have "fmpred (\<lambda>_. by_ip_wf x) m"
    by (rule endpointInfoByServicePort_wf [OF m]) (use base in \<open>simp add: keeps_base_def\<close>)
  then have "by_ip_wf x (nilmap (fmlookup m spn))"
    by (cases "fmlookup m spn") (auto simp: by_ip_wf_def)
  then show ?thesis using ch em by blast
qed

lemma sort_by_ip_strict:
  assumes "by_ip_wf x m"
  shows "sorted_wrt (<) (map endpoint_String (sort_by_ip (by_ip_values m)))"
    and "distinct (map (endpoint_IP x) (sort_by_ip (by_ip_values m)))"
proof -
  let ?l = "sort_by_ip (by_ip_values m)"
  have "distinct (by_ip_values m)" and inj: "inj_on (endpoint_IP x) (set (by_ip_values m))"
    using distinct_by_ip_values [OF assms] by (simp_all add: distinct_map)
  then show ips: "distinct (map (endpoint_IP x) ?l)" by (simp add: distinct_map sort_by_ip_def)
  have "map (endpoint_IP x) ?l = map (IPPart x) (map endpoint_String ?l)"
    by (simp add: endpoint_IP_def endpoint_String_def)
  then have "distinct (map endpoint_String ?l)" using ips by (metis distinct_map)
  then show "sorted_wrt (<) (map endpoint_String ?l)"
    by (simp add: strict_sorted_iff sort_by_ip_def)
qed

section \<open>Lemmas: the changes of a checkout\<close>

definition cache_ok :: "slice_cache \<Rightarrow> bool" where
  "cache_ok cache \<longleftrightarrow> cache_inv cache \<and>
     fmpred (\<lambda>_ tr. slices_ok (applied tr) \<and> slices_ok (pending tr)) (trackerByServiceMap cache)"

definition same_cache_config :: "slice_cache \<Rightarrow> slice_cache \<Rightarrow> bool" where
  "same_cache_config c c' \<longleftrightarrow> cache_makeEndpointInfo c = cache_makeEndpointInfo c' \<and>
     cache_hostname c = cache_hostname c' \<and> cache_isIPv6Mode c = cache_isIPv6Mode c'"

lemma same_cache_config_refl [simp]: "same_cache_config c c"
  by (simp add: same_cache_config_def)

lemma getEndpointsMap_config:
  assumes "same_cache_config c c'"
  shows "getEndpointsMap x vs c nn ss = getEndpointsMap x vs c' nn ss"
proof -
  have "add_endpoint x c = add_endpoint x c'"
    using assms by (intro ext)
      (simp add: add_endpoint_def same_cache_config_def cache_isLocal_def Let_def
        split: list.split)
  then have "addEndpointsByIP x c = addEndpointsByIP x c'"
    by (intro ext) (simp add: addEndpointsByIP_def)
  then have "add_slice_port x c nn = add_slice_port x c' nn"
    by (intro ext, unfold add_slice_port_def) (erule ssubst, rule refl)
  then have "add_slice x c nn ss = add_slice x c' nn ss"
    by (intro ext, unfold add_slice_def) (erule ssubst, rule refl)
  then show ?thesis by (simp add: getEndpointsMap_def endpointInfoByServicePort_def)
qed

text \<open>The map of a set of slices, where it does not panic.\<close>

definition slices_map ::
    "k8s_ext \<Rightarrow> (slices \<Rightarrow> string list) \<Rightarrow> slice_cache \<Rightarrow> namespaced_name \<Rightarrow> slices \<Rightarrow>
     endpoints_map" where
  "slices_map x vs cache nn ss =
     (case getEndpointsMap x vs cache nn ss of Inr m \<Rightarrow> m | Inl _ \<Rightarrow> fmempty)"

lemma getEndpointsMap_slices_map:
  "slices_ok ss \<Longrightarrow> same_cache_config c c' \<Longrightarrow>
     getEndpointsMap x vs c' nn ss = Inr (slices_map x vs c nn ss)"
  using getEndpointsMap_ok [of ss x vs c nn] getEndpointsMap_config [of c c' x vs nn ss]
  by (auto simp: slices_map_def)

definition slice_change_of ::
    "k8s_ext \<Rightarrow> (slices \<Rightarrow> string list) \<Rightarrow> slice_cache \<Rightarrow> namespaced_name \<Rightarrow> slice_tracker \<Rightarrow>
     endpoints_change" where
  "slice_change_of x vs cache nn tr =
     \<lparr>ec_previous = Some (slices_map x vs cache nn (applied tr)),
      ec_current = Some (slices_map x vs cache nn (applied (apply_pending vs tr)))\<rparr>"

definition pending_trackers :: "slice_cache \<Rightarrow> (namespaced_name, slice_tracker) fmap" where
  "pending_trackers cache =
     fmfilter (\<lambda>nn. case fmlookup (trackerByServiceMap cache) nn of
       Some tr \<Rightarrow> pending tr \<noteq> fmempty | None \<Rightarrow> False) (trackerByServiceMap cache)"

lemma slices_ok_apply_pending:
  assumes "visits (vs (pending tr)) (pending tr)" "slices_ok (applied tr)" "slices_ok (pending tr)"
  shows "slices_ok (applied (apply_pending vs tr))"
  using assms by (auto simp: slices_ok_def fmpred_iff apply_pending_effective effective_slice_def
      split: option.splits if_splits)

lemma checkout_fold:
  assumes vis: "\<And>m. visits (vs m) m" and "distinct ord"
    and ok: "fmpred (\<lambda>_ tr. slices_ok (applied tr) \<and> slices_ok (pending tr))
        (trackerByServiceMap cache)"
  shows "\<exists>cache'. foldr_r (checkout_service x vs) (cs, cache) ord =
      Inr (cs @ map (\<lambda>nn. slice_change_of x vs cache nn
                 (the (fmlookup (trackerByServiceMap cache) nn)))
             (filter (\<lambda>nn. nn |\<in>| fmdom (pending_trackers cache)) ord), cache') \<and>
     same_cache_config cache cache' \<and>
     (\<forall>nn. fmlookup (trackerByServiceMap cache') nn =
        (if nn \<in> set ord \<and> nn |\<in>| fmdom (pending_trackers cache)
         then map_option (apply_pending vs) (fmlookup (trackerByServiceMap cache) nn)
         else fmlookup (trackerByServiceMap cache) nn))"
  using assms(2) ok
proof (induction ord arbitrary: cs cache)
  case Nil
  then show ?case by simp
next
  case (Cons nn ord)
  show ?case
  proof (cases "nn |\<in>| fmdom (pending_trackers cache)")
    case False
    then have "checkout_service x vs (cs, cache) nn = Inr (cs, cache)"
      by (auto simp: checkout_service_def pending_trackers_def fmdom_filter fmlookup_dom_iff
          split: option.splits)
    then show ?thesis using Cons.IH [of cache cs] Cons.prems False by auto
  next
    case True
    then obtain tr where tr: "fmlookup (trackerByServiceMap cache) nn = Some tr" "pending tr \<noteq> fmempty"
      by (auto simp: pending_trackers_def fmdom_filter fmlookup_dom_iff split: option.splits)
    then have oktr: "slices_ok (applied tr)" "slices_ok (pending tr)"
      using Cons.prems(2) by (auto dest: fmpredD)
    let ?tr' = "apply_pending vs tr"
    let ?c' = "cache\<lparr>trackerByServiceMap := fmupd nn ?tr' (trackerByServiceMap cache)\<rparr>"
    have same: "same_cache_config cache ?c'" by (simp add: same_cache_config_def)
    have ok': "slices_ok (applied ?tr')" using slices_ok_apply_pending [of vs tr] vis oktr by blast
    have "pending ?tr' = fmempty" using apply_pending_effective(2) vis by blast
    then have okc: "fmpred (\<lambda>_ tr. slices_ok (applied tr) \<and> slices_ok (pending tr))
        (trackerByServiceMap ?c')"
      using Cons.prems(2) ok' by (auto simp: slices_ok_def intro!: fmpred_upd)
    have step: "checkout_service x vs (cs, cache) nn =
        Inr (cs @ [slice_change_of x vs cache nn tr], ?c')"
      using tr getEndpointsMap_slices_map [OF oktr(1) same_cache_config_refl, of x vs cache nn]
        getEndpointsMap_slices_map [OF ok' same_cache_config_refl, of x vs cache nn]
      by (simp add: checkout_service_def slice_change_of_def Let_def)
    obtain cache' where IH: "foldr_r (checkout_service x vs)
        (cs @ [slice_change_of x vs cache nn tr], ?c') ord =
      Inr ((cs @ [slice_change_of x vs cache nn tr]) @
        map (\<lambda>nn. slice_change_of x vs ?c' nn (the (fmlookup (trackerByServiceMap ?c') nn)))
             (filter (\<lambda>nn. nn |\<in>| fmdom (pending_trackers ?c')) ord), cache')"
      "same_cache_config ?c' cache'"
      "\<forall>nn'. fmlookup (trackerByServiceMap cache') nn' =
        (if nn' \<in> set ord \<and> nn' |\<in>| fmdom (pending_trackers ?c')
         then map_option (apply_pending vs) (fmlookup (trackerByServiceMap ?c') nn')
         else fmlookup (trackerByServiceMap ?c') nn')"
      using Cons.IH [of ?c' "cs @ [slice_change_of x vs cache nn tr]"] Cons.prems(1) okc by auto
    have other: "nn' \<noteq> nn \<Longrightarrow>
        nn' |\<in>| fmdom (pending_trackers ?c') \<longleftrightarrow> nn' |\<in>| fmdom (pending_trackers cache)" for nn'
      by (auto simp: pending_trackers_def fmdom_filter)
    have map: "map (\<lambda>nn. slice_change_of x vs ?c' nn (the (fmlookup (trackerByServiceMap ?c') nn)))
             (filter (\<lambda>nn. nn |\<in>| fmdom (pending_trackers ?c')) ord) =
        map (\<lambda>nn. slice_change_of x vs cache nn (the (fmlookup (trackerByServiceMap cache) nn)))
             (filter (\<lambda>nn. nn |\<in>| fmdom (pending_trackers cache)) ord)"
    proof -
      have "filter (\<lambda>nn. nn |\<in>| fmdom (pending_trackers ?c')) ord =
          filter (\<lambda>nn. nn |\<in>| fmdom (pending_trackers cache)) ord"
        by (rule filter_cong [OF refl]) (use other Cons.prems(1) in \<open>metis distinct.simps(2)\<close>)
      moreover have "slices_map x vs ?c' = slices_map x vs cache"
        using getEndpointsMap_config [OF same] by (intro ext) (simp add: slices_map_def)
      ultimately show ?thesis using Cons.prems(1)
        by (auto simp: slice_change_of_def)
    qed
    show ?thesis
    proof (intro exI conjI allI)
      show "foldr_r (checkout_service x vs) (cs, cache) (nn # ord) =
        Inr (cs @ map (\<lambda>nn. slice_change_of x vs cache nn
                 (the (fmlookup (trackerByServiceMap cache) nn)))
             (filter (\<lambda>nn. nn |\<in>| fmdom (pending_trackers cache)) (nn # ord)), cache')"
        using step IH(1) map True tr by simp
      show "same_cache_config cache cache'" using same IH(2) by (simp add: same_cache_config_def)
      fix nn'
      show "fmlookup (trackerByServiceMap cache') nn' =
        (if nn' \<in> set (nn # ord) \<and> nn' |\<in>| fmdom (pending_trackers cache)
         then map_option (apply_pending vs) (fmlookup (trackerByServiceMap cache) nn')
         else fmlookup (trackerByServiceMap cache) nn')"
        using IH(3) other [of nn'] True tr Cons.prems(1) by auto
    qed
  qed
qed

lemma checkout_run:
  assumes vis: "\<And>m. visits (vs m) m" and ok: "cache_ok cache"
    and ord: "visits ord (trackerByServiceMap cache)"
  shows "\<exists>cache'. cache_checkoutChanges x vs ord cache =
      Inr (map (\<lambda>nn. slice_change_of x vs cache nn
                 (the (fmlookup (trackerByServiceMap cache) nn)))
             (filter (\<lambda>nn. nn |\<in>| fmdom (pending_trackers cache)) ord), cache') \<and>
     same_cache_config cache cache' \<and> cache_ok cache' \<and> effective cache' = effective cache \<and>
     pending_trackers cache' = fmempty \<and>
     (\<forall>nn tr. fmlookup (trackerByServiceMap cache) nn = Some tr \<longrightarrow>
        (\<exists>tr'. fmlookup (trackerByServiceMap cache') nn = Some tr' \<and>
           (\<forall>name. fmlookup (applied tr') name = effective_slice tr name)))"
proof -
  have okp: "fmpred (\<lambda>_ tr. slices_ok (applied tr) \<and> slices_ok (pending tr))
      (trackerByServiceMap cache)" using ok by (simp add: cache_ok_def)
  obtain cache' where run: "foldr_r (checkout_service x vs) ([], cache) ord =
      Inr ([] @ map (\<lambda>nn. slice_change_of x vs cache nn
                 (the (fmlookup (trackerByServiceMap cache) nn)))
             (filter (\<lambda>nn. nn |\<in>| fmdom (pending_trackers cache)) ord), cache')"
    and same: "same_cache_config cache cache'"
    and after: "\<And>nn. fmlookup (trackerByServiceMap cache') nn =
        (if nn \<in> set ord \<and> nn |\<in>| fmdom (pending_trackers cache)
         then map_option (apply_pending vs) (fmlookup (trackerByServiceMap cache) nn)
         else fmlookup (trackerByServiceMap cache) nn)"
    using checkout_fold [where vs = vs, OF vis visits_distinct [OF ord] okp] by blast
  have tr': "\<exists>tr'. fmlookup (trackerByServiceMap cache') nn = Some tr' \<and> pending tr' = fmempty \<and>
      (\<forall>name. fmlookup (applied tr') name = effective_slice tr name)"
    if tr: "fmlookup (trackerByServiceMap cache) nn = Some tr" for nn tr
  proof (cases "pending tr = fmempty")
    case True
    then have "nn |\<notin>| fmdom (pending_trackers cache)"
      using tr by (simp add: pending_trackers_def fmdom_filter)
    then show ?thesis using tr after True by (simp add: effective_slice_def)
  next
    case False
    then have "nn |\<in>| fmdom (pending_trackers cache)" "nn \<in> set ord"
      using tr visits_mem [OF ord, of nn]
      by (auto simp: pending_trackers_def fmdom_filter fmlookup_dom_iff)
    then show ?thesis using tr after apply_pending_effective [of vs tr] vis by simp
  qed
  have old: "\<exists>tr. fmlookup (trackerByServiceMap cache) nn = Some tr"
    if "fmlookup (trackerByServiceMap cache') nn = Some tr'" for nn tr'
    using that after [of nn] by (auto split: if_splits)
  have eff: "effective cache' = effective cache"
  proof (intro ext)
    fix nn name
    show "effective cache' nn name = effective cache nn name"
    proof (cases "fmlookup (trackerByServiceMap cache) nn")
      case None
      then show ?thesis using after [of nn] by (simp add: effective_def)
    next
      case (Some tr)
      then show ?thesis using tr' [OF Some] by (auto simp: effective_def effective_slice_def)
    qed
  qed
  have none: "pending_trackers cache' = fmempty"
  proof (rule fmap_ext)
    fix nn
    show "fmlookup (pending_trackers cache') nn = fmlookup fmempty nn"
      using old [of nn] tr' [of nn]
      by (cases "fmlookup (trackerByServiceMap cache') nn") (auto simp: pending_trackers_def)
  qed
  have ok': "cache_ok cache'"
  proof -
    have "tracker_inv tr1 \<and> slices_ok (applied tr1) \<and> slices_ok (pending tr1)"
      if tr1: "fmlookup (trackerByServiceMap cache') nn = Some tr1" for nn tr1
    proof -
      obtain tr where tr: "fmlookup (trackerByServiceMap cache) nn = Some tr" using old [OF tr1] by blast
      have "tracker_inv tr" "slices_ok (applied tr)" "slices_ok (pending tr)"
        using ok tr by (auto simp: cache_ok_def cache_inv_def dest: fmpredD)
      moreover have "pending tr1 = fmempty" "\<And>name. fmlookup (applied tr1) name = effective_slice tr name"
        using tr' [OF tr] tr1 by auto
      ultimately show ?thesis
        by (auto simp: tracker_inv_def slices_ok_def fmpred_iff effective_slice_def
            split: option.splits if_splits)
    qed
    then show ?thesis by (simp add: cache_ok_def cache_inv_def fmpred_iff)
  qed
  show ?thesis
    by (rule exI [of _ cache'])
      (use run same eff none ok' tr' in \<open>fastforce simp: cache_checkoutChanges_def\<close>)
qed

text \<open>
  What any two collections of the same candidates share, the IPs and the locality of what they
  list, and when they are the same: unless two candidates of the same IP and locality differ.
\<close>

definition listing ::
    "k8s_ext \<Rightarrow> endpoints_map \<Rightarrow> service_port_name \<Rightarrow> (string \<times> bool) set option" where
  "listing x em spn =
     map_option (\<lambda>l. (\<lambda>e. (endpoint_IP x e, GetIsLocal e)) ` set l) (fmlookup em spn)"

definition agree :: "k8s_ext \<Rightarrow> (service_port_name \<times> endpoint) set \<Rightarrow> bool" where
  "agree x C \<longleftrightarrow> (\<forall>spn e e'. (spn, e) \<in> C \<longrightarrow> (spn, e') \<in> C \<longrightarrow>
     endpoint_IP x e = endpoint_IP x e' \<longrightarrow> GetIsLocal e = GetIsLocal e' \<longrightarrow> e = e')"

lemma chosen_same_locality:
  assumes "chosen x C b" and "chosen x C b'"
  shows "map_option GetIsLocal (fmlookup b ip) = map_option GetIsLocal (fmlookup b' ip)"
proof -
  have half: "\<exists>e'. fmlookup b2 ip = Some e' \<and> GetIsLocal e = GetIsLocal e'"
    if b1: "chosen x C b1" and b2: "chosen x C b2" and e: "fmlookup b1 ip = Some e" for b1 b2 e
  proof -
    have "e \<in> C" and ip: "endpoint_IP x e = ip" using b1 e by (auto simp: chosen_def)
    then obtain e' where e': "fmlookup b2 ip = Some e'" "GetIsLocal e \<longrightarrow> GetIsLocal e'"
      using b2 by (fastforce simp: chosen_def)
    then have "e' \<in> C" and ip': "endpoint_IP x e' = ip" using b2 by (auto simp: chosen_def)
    then have "GetIsLocal e' \<longrightarrow> GetIsLocal e" using b1 e by (fastforce simp: chosen_def)
    then show ?thesis using e' by blast
  qed
  show ?thesis
  proof (cases "fmlookup b ip")
    case None
    then show ?thesis using half [OF assms(2,1)] by (cases "fmlookup b' ip") auto
  next
    case (Some e)
    then show ?thesis using half [OF assms(1,2)] by fastforce
  qed
qed

lemma chosen_unique:
  assumes "chosen x C b" and "chosen x C b'"
    and agree: "\<And>e e'. e \<in> C \<Longrightarrow> e' \<in> C \<Longrightarrow> endpoint_IP x e = endpoint_IP x e' \<Longrightarrow>
      GetIsLocal e = GetIsLocal e' \<Longrightarrow> e = e'"
  shows "b = b'"
proof (rule fmap_ext)
  fix ip
  have loc: "map_option GetIsLocal (fmlookup b ip) = map_option GetIsLocal (fmlookup b' ip)"
    by (rule chosen_same_locality [OF assms(1,2)])
  show "fmlookup b ip = fmlookup b' ip"
  proof (cases "fmlookup b ip")
    case None
    then show ?thesis using loc by simp
  next
    case (Some e)
    then obtain e' where e': "fmlookup b' ip = Some e'" "GetIsLocal e = GetIsLocal e'"
      using loc by (cases "fmlookup b' ip") auto
    have "e \<in> C" "endpoint_IP x e = ip" "e' \<in> C" "endpoint_IP x e' = ip"
      using assms(1,2) Some e'(1) by (auto simp: chosen_def)
    then show ?thesis using agree [of e e'] Some e' by simp
  qed
qed

lemma listing_chosen:
  assumes "by_ip_wf x b"
    and "fmlookup em spn = (if b = fmempty then None else Some (sort_by_ip (by_ip_values b)))"
  shows "listing x em spn = (if \<forall>ip. fmlookup b ip = None then None
     else Some {(ip, l). map_option GetIsLocal (fmlookup b ip) = Some l})"
proof -
  have none: "b = fmempty \<longleftrightarrow> (\<forall>ip. fmlookup b ip = None)"
    by (auto intro: fmap_ext)
  have "(\<lambda>e. (endpoint_IP x e, GetIsLocal e)) ` set (sort_by_ip (by_ip_values b)) =
      {(ip, l). map_option GetIsLocal (fmlookup b ip) = Some l}"
    using by_ip_wfD [OF assms(1)]
    by (force simp: sort_by_ip_def set_by_ip_values image_iff)
  then show ?thesis using assms(2) none by (simp add: listing_def)
qed

text \<open>Two visiting orders: the same listing, and the same map where the candidates agree.\<close>

lemma getEndpointsMap_any_order:
  assumes ok: "slices_ok ss" and base: "keeps_base cache"
    and vis: "visits (vs ss) ss" "visits (vs' ss) ss"
  shows "\<exists>em em'. getEndpointsMap x vs cache nn ss = Inr em \<and>
     getEndpointsMap x vs' cache nn ss = Inr em' \<and> listing x em = listing x em' \<and>
     (agree x (candidates x cache nn ss) \<longrightarrow> em = em')"
proof -
  obtain em where em: "getEndpointsMap x vs cache nn ss = Inr em" using getEndpointsMap_ok [OF ok] by blast
  obtain em' where em': "getEndpointsMap x vs' cache nn ss = Inr em'" using getEndpointsMap_ok [OF ok] by blast
  have spn: "listing x em spn = listing x em' spn \<and>
      (agree x (candidates x cache nn ss) \<longrightarrow> fmlookup em spn = fmlookup em' spn)" for spn
  proof -
    obtain b where b: "by_ip_wf x b" "chosen x {e. (spn, e) \<in> candidates x cache nn ss} b"
      "fmlookup em spn = (if b = fmempty then None else Some (sort_by_ip (by_ip_values b)))"
      using getEndpointsMap_chosen [OF em base vis(1), of spn] by blast
    obtain b' where b': "by_ip_wf x b'" "chosen x {e. (spn, e) \<in> candidates x cache nn ss} b'"
      "fmlookup em' spn = (if b' = fmempty then None else Some (sort_by_ip (by_ip_values b')))"
      using getEndpointsMap_chosen [OF em' base vis(2), of spn] by blast
    have loc: "map_option GetIsLocal (fmlookup b ip) = map_option GetIsLocal (fmlookup b' ip)" for ip
      by (rule chosen_same_locality [OF b(2) b'(2)])
    then have "(fmlookup b ip = None) = (fmlookup b' ip = None)" for ip
      by (metis map_option_is_None)
    then have "listing x em spn = listing x em' spn"
      using listing_chosen [where em = em, OF b(1,3)] listing_chosen [where em = em', OF b'(1,3)] loc
      by simp
    moreover have "fmlookup em spn = fmlookup em' spn" if "agree x (candidates x cache nn ss)"
    proof -
      have "b = b'" by (rule chosen_unique [OF b(2) b'(2)]) (use that in \<open>auto simp: agree_def\<close>)
      then show ?thesis using b b' by simp
    qed
    ultimately show ?thesis by blast
  qed
  then have "listing x em = listing x em'" by (intro ext) simp
  moreover have "agree x (candidates x cache nn ss) \<longrightarrow> em = em'" using spn by (auto intro: fmap_ext)
  ultimately show ?thesis using em em' by blast
qed

lemma updatePending_unchanged:
  assumes "cache_inv cache" and "updatePending cache es remove = Inr (False, cache')"
  shows "effective cache' = effective cache"
  using assms(2)
  by (intro ext) (auto simp: updatePending_def bindr_Inr_iff effective_def Let_def
      split: if_splits option.splits prod.splits)

lemma checkout_idle:
  assumes "pending_trackers cache = fmempty"
  shows "cache_checkoutChanges x vs ord cache = Inr ([], cache)"
proof -
  have "checkout_service x vs (cs, cache) nn = Inr (cs, cache)" for cs nn
  proof (cases "fmlookup (trackerByServiceMap cache) nn")
    case (Some tr)
    have "fmlookup (pending_trackers cache) nn = None" using assms by simp
    then show ?thesis using Some
      by (auto simp: checkout_service_def pending_trackers_def split: if_splits)
  qed (simp add: checkout_service_def)
  then have "foldr_r (checkout_service x vs) (cs, cache) ord = Inr (cs, cache)" for cs
    by (induction ord) simp_all
  then show ?thesis by (simp add: cache_checkoutChanges_def)
qed

lemma updatePending_panics_iff:
  "updatePending cache es remove = Inl e \<longleftrightarrow>
     e = NilDeref \<and> \<not> snd (snd (endpointSliceCacheKeys es)) \<and> 2 \<le> length (es_Ports es) \<and>
     (\<exists>p \<in> set (es_Ports es). slp_Port p = None)"
  by (auto simp: updatePending_def newEndpointSliceInfo_def sort_ports_def bindr_Inl_iff Let_def
      list_ex_iff split: prod.splits option.splits)

lemma getEndpointsMap_listed:
  assumes em: "getEndpointsMap x vs cache nn ss = Inr em" and base: "keeps_base cache"
    and vis: "visits (vs ss) ss"
  shows "case fmlookup em spn of
        None \<Rightarrow> \<not> (\<exists>e. (spn, e) \<in> candidates x cache nn ss)
      | Some l \<Rightarrow> l \<noteq> [] \<and> (\<forall>e \<in> set l. (spn, e) \<in> candidates x cache nn ss) \<and>
          sorted_wrt (<) (map endpoint_String l) \<and> distinct (map (endpoint_IP x) l) \<and>
          (\<forall>e. (spn, e) \<in> candidates x cache nn ss \<longrightarrow>
             (\<exists>e' \<in> set l. endpoint_IP x e' = endpoint_IP x e \<and> (GetIsLocal e \<longrightarrow> GetIsLocal e')))"
proof -
  obtain b where wf: "by_ip_wf x b" and ch: "chosen x {e. (spn, e) \<in> candidates x cache nn ss} b"
    and l: "fmlookup em spn = (if b = fmempty then None else Some (sort_by_ip (by_ip_values b)))"
    using getEndpointsMap_chosen [OF em base vis, of spn] by blast
  have mem: "e \<in> set (sort_by_ip (by_ip_values b)) \<longleftrightarrow> (\<exists>ip. fmlookup b ip = Some e)" for e
    by (simp add: sort_by_ip_def set_by_ip_values)
  show ?thesis
  proof (cases "b = fmempty")
    case True
    then show ?thesis using ch l by (auto simp: chosen_def)
  next
    case False
    then obtain ip e where "fmlookup b ip = Some e" by (metis fmap_ext fmempty_lookup option.exhaust)
    then have "sort_by_ip (by_ip_values b) \<noteq> []" using mem [of e] by auto
    moreover have "\<forall>e \<in> set (sort_by_ip (by_ip_values b)). (spn, e) \<in> candidates x cache nn ss"
      using ch mem by (auto simp: chosen_def)
    moreover have "\<exists>e' \<in> set (sort_by_ip (by_ip_values b)).
        endpoint_IP x e' = endpoint_IP x e \<and> (GetIsLocal e \<longrightarrow> GetIsLocal e')"
      if e: "(spn, e) \<in> candidates x cache nn ss" for e
    proof -
      obtain e' where "fmlookup b (endpoint_IP x e) = Some e'" "GetIsLocal e \<longrightarrow> GetIsLocal e'"
        using ch e unfolding chosen_def by blast
      then show ?thesis using mem [of e'] by_ip_wfD [OF wf] by blast
    qed
    ultimately show ?thesis using l False sort_by_ip_strict [OF wf] by simp
  qed
qed

lemma checkout_changes:
  assumes vis: "\<And>m. visits (vs m) m" and ok: "cache_ok cache"
    and ord: "visits ord (trackerByServiceMap cache)"
  shows "\<exists>changes cache'. cache_checkoutChanges x vs ord cache = Inr (changes, cache') \<and>
     list_all2 (\<lambda>nn c. \<exists>tr tr' prev cur.
          fmlookup (trackerByServiceMap cache) nn = Some tr \<and>
          fmlookup (trackerByServiceMap cache') nn = Some tr' \<and>
          getEndpointsMap x vs cache nn (applied tr) = Inr prev \<and>
          getEndpointsMap x vs cache nn (applied tr') = Inr cur \<and>
          c = \<lparr>ec_previous = Some prev, ec_current = Some cur\<rparr>)
       (filter (\<lambda>nn. nn |\<in>| fmdom (pending_trackers cache)) ord) changes \<and>
     effective cache' = effective cache \<and> cache_ok cache' \<and>
     (\<forall>ord'. cache_checkoutChanges x vs ord' cache' = Inr ([], cache'))"
proof -
  let ?ns = "filter (\<lambda>nn. nn |\<in>| fmdom (pending_trackers cache)) ord"
  let ?ch = "\<lambda>nn. slice_change_of x vs cache nn (the (fmlookup (trackerByServiceMap cache) nn))"
  obtain cache' where run: "cache_checkoutChanges x vs ord cache = Inr (map ?ch ?ns, cache')"
    and ok': "cache_ok cache'" and eff: "effective cache' = effective cache"
    and none: "pending_trackers cache' = fmempty"
    and after: "\<And>nn tr. fmlookup (trackerByServiceMap cache) nn = Some tr \<Longrightarrow>
        \<exists>tr'. fmlookup (trackerByServiceMap cache') nn = Some tr' \<and>
           (\<forall>name. fmlookup (applied tr') name = effective_slice tr name)"
    using checkout_run [where vs = vs, OF vis ok ord] by blast
  have "\<exists>tr tr' prev cur. fmlookup (trackerByServiceMap cache) nn = Some tr \<and>
          fmlookup (trackerByServiceMap cache') nn = Some tr' \<and>
          getEndpointsMap x vs cache nn (applied tr) = Inr prev \<and>
          getEndpointsMap x vs cache nn (applied tr') = Inr cur \<and>
          ?ch nn = \<lparr>ec_previous = Some prev, ec_current = Some cur\<rparr>"
    if nn: "nn \<in> set ?ns" for nn
  proof -
    obtain tr where tr: "fmlookup (trackerByServiceMap cache) nn = Some tr"
      using nn by (auto simp: pending_trackers_def fmdom_filter fmlookup_dom_iff)
    obtain tr' where tr': "fmlookup (trackerByServiceMap cache') nn = Some tr'"
      "\<forall>name. fmlookup (applied tr') name = effective_slice tr name" using after [OF tr] by blast
    then have same: "applied tr' = applied (apply_pending vs tr)"
      using apply_pending_effective(1) [of vs tr] vis by (intro fmap_ext) simp
    have oks: "slices_ok (applied tr)" "slices_ok (applied tr')"
      using ok ok' tr tr'(1) by (auto simp: cache_ok_def dest: fmpredD)
    show ?thesis
      using tr tr'(1) getEndpointsMap_slices_map [OF oks(1) same_cache_config_refl, of x vs cache nn]
        getEndpointsMap_slices_map [OF oks(2) same_cache_config_refl, of x vs cache nn] same
      by (simp add: slice_change_of_def)
  qed
  then have "list_all2 (\<lambda>nn c. \<exists>tr tr' prev cur.
          fmlookup (trackerByServiceMap cache) nn = Some tr \<and>
          fmlookup (trackerByServiceMap cache') nn = Some tr' \<and>
          getEndpointsMap x vs cache nn (applied tr) = Inr prev \<and>
          getEndpointsMap x vs cache nn (applied tr') = Inr cur \<and>
          c = \<lparr>ec_previous = Some prev, ec_current = Some cur\<rparr>) ?ns (map ?ch ?ns)"
    by (simp only: list_all2_map2) (rule list_all2_same [THEN iffD2], blast)
  then show ?thesis using run ok' eff checkout_idle [OF none] by blast
qed

section \<open>Concrete slices\<close>

definition web_slice :: "string \<Rightarrow> string list \<Rightarrow> endpoint_slice" where
  "web_slice name addrs =
     \<lparr>es_Namespace = ''default'', es_Name = name,
      es_Labels = fmupd LabelServiceName ''web'' fmempty, es_Annotations = fmempty,
      AddressType = ''IPv4'',
      es_Endpoints = map (\<lambda>a. \<lparr>sle_Addresses = [a], Ready = None, sle_Topology = None\<rparr>) addrs,
      es_Ports = [\<lparr>slp_Name = Some ''http'', slp_Port = Some 8080, slp_Protocol = Some ''TCP'', slp_AppProtocol = None\<rparr>]\<rparr>"

definition empty_slices :: slice_cache where
  "empty_slices = NewEndpointSliceCache ''node1'' None None"

definition web_slice_info :: "string list \<Rightarrow> slice_info" where
  "web_slice_info addrs =
     \<lparr>si_Ports = [\<lparr>slp_Name = Some ''http'', slp_Port = Some 8080, slp_Protocol = Some ''TCP'', slp_AppProtocol = None\<rparr>],
      si_Endpoints = map (\<lambda>a. \<lparr>ei_Addresses = [a], ei_Topology = None\<rparr>) addrs, Remove = False\<rparr>"

definition web_tracker :: slice_tracker where
  "web_tracker =
     \<lparr>applied = fmupd ''s1'' (web_slice_info [''10.1.0.1'']) fmempty,
      pending = fmupd ''s2'' (web_slice_info [''10.1.0.2'']) fmempty\<rparr>"

definition web_cache :: slice_cache where
  "web_cache = empty_slices\<lparr>trackerByServiceMap := fmupd (NamespacedName ''default'' ''web'') web_tracker fmempty\<rparr>"


lemma empty_slices_keeps_base: "keeps_base empty_slices"
  by (simp add: keeps_base_def empty_slices_def NewEndpointSliceCache_def standardEndpointInfo_def)

lemma web_slice_info_ok: "proto_ok (web_slice_info addrs)" "\<not> Remove (web_slice_info addrs)"
  by (simp_all add: proto_ok_def web_slice_info_def)

lemma web_slices_ok: "slices_ok (applied web_tracker)" "slices_ok (pending web_tracker)"
  by (auto simp: web_tracker_def slices_ok_def web_slice_info_ok intro!: fmpred_upd)

lemma web_cache_ok: "cache_ok web_cache"
  by (auto simp: cache_ok_def cache_inv_def tracker_inv_def web_cache_def empty_slices_def
      NewEndpointSliceCache_def web_slices_ok intro!: fmpred_upd)
     (auto simp: web_tracker_def web_slice_info_ok intro!: fmpred_upd)

text \<open>Two slices that share an address.\<close>

definition two_slices :: slices where
  "two_slices = fmupd ''s1'' (web_slice_info [''10.1.0.1'', ''10.1.0.2''])
     (fmupd ''s2'' (web_slice_info [''10.1.0.2'']) fmempty)"

lemma two_slices_ok: "slices_ok two_slices"
  by (auto simp: two_slices_def slices_ok_def web_slice_info_ok intro!: fmpred_upd)

lemma two_slices_visits:
  "visits [''s1'', ''s2''] two_slices" "visits [''s2'', ''s1''] two_slices"
  by (auto simp: visits_def two_slices_def)

definition web_endpoint :: "string \<Rightarrow> endpoint" where
  "web_endpoint addr = BaseEndpointInfo \<lparr>Endpoint = addr @ '':8080'', IsLocal = False, Topology = None\<rparr>"

lemma two_slices_candidates:
  "candidates simple_ext empty_slices nn two_slices \<subseteq>
     {(ServicePortName nn ''http'' ''TCP'', web_endpoint ''10.1.0.1''),
      (ServicePortName nn ''http'' ''TCP'', web_endpoint ''10.1.0.2'')}"
proof -
  let ?spn = "ServicePortName nn ''http'' ''TCP''"
  have "Itoa 8080 = ''8080''"
    by (simp add: Itoa_eval)
  then have cand: "endpoint_candidate simple_ext empty_slices 8080
      \<lparr>ei_Addresses = [a], ei_Topology = None\<rparr> = Some (web_endpoint a)" if "CHR '':'' \<notin> set a" for a
    using that by (simp add: endpoint_candidate_def empty_slices_def NewEndpointSliceCache_def
        newBaseEndpointInfo_def JoinHostPort_def web_endpoint_def standardEndpointInfo_def
        cache_isLocal_def topology_host_def)
  have slice: "slice_candidates simple_ext empty_slices nn (web_slice_info addrs) \<subseteq>
      Pair ?spn ` web_endpoint ` set addrs" if "\<forall>a \<in> set addrs. CHR '':'' \<notin> set a" for addrs
    using that by (auto simp: slice_candidates_def web_slice_info_def port_candidates_def cand)
  have "candidates simple_ext empty_slices nn two_slices \<subseteq>
      slice_candidates simple_ext empty_slices nn (web_slice_info [''10.1.0.1'', ''10.1.0.2'']) \<union>
      slice_candidates simple_ext empty_slices nn (web_slice_info [''10.1.0.2''])"
    by (auto simp: candidates_def two_slices_def split: if_splits)
  then show ?thesis
    using slice [of "[''10.1.0.1'', ''10.1.0.2'']"] slice [of "[''10.1.0.2'']"] by auto
qed

lemma two_slices_agree: "agree simple_ext (candidates simple_ext empty_slices nn two_slices)"
proof -
  have "endpoint_IP simple_ext (web_endpoint ''10.1.0.1'') \<noteq>
      endpoint_IP simple_ext (web_endpoint ''10.1.0.2'')" by code_simp
  then have same: "e = e'" if "e \<in> {web_endpoint ''10.1.0.1'', web_endpoint ''10.1.0.2''}"
      "e' \<in> {web_endpoint ''10.1.0.1'', web_endpoint ''10.1.0.2''}"
      "endpoint_IP simple_ext e = endpoint_IP simple_ext e'" for e e'
    using that by auto
  have two: "e \<in> {web_endpoint ''10.1.0.1'', web_endpoint ''10.1.0.2''}"
    if "(spn, e) \<in> candidates simple_ext empty_slices nn two_slices" for spn e
    using that two_slices_candidates [of nn] by blast
  show ?thesis unfolding agree_def by (intro allI impI) (rule same [OF two two])
qed

section \<open>Properties\<close>

text \<open>
  C16. An update of a slice in form that does not panic makes exactly that slice the effective
  one of its service and name (none, for a removal), leaves every other slice alone and keeps
  the cache invariant; when it reports no change nothing is different.
\<close>

theorem slice_update_exact:
  assumes "cache_inv cache" and "endpointSliceCacheKeys es = (nn, name, False)"
    and "newEndpointSliceInfo es remove = Inr si"
  shows "\<exists>changed cache'. updatePending cache es remove = Inr (changed, cache') \<and>
     cache_inv cache' \<and>
     (\<forall>nn' name'. effective cache' nn' name' =
        (if nn' = nn \<and> name' = name then (if remove then None else Some si)
         else effective cache nn' name')) \<and>
     (changed \<or> effective cache' = effective cache)"
  using updatePending_effective [OF assms] updatePending_unchanged [OF assms(1)] by fastforce

theorem slice_update_exact_witness:
  "\<exists>changed cache'. updatePending empty_slices (web_slice ''s1'' [''10.1.0.1'']) False =
       Inr (changed, cache') \<and> cache_inv cache' \<and>
     (\<forall>nn' name'. effective cache' nn' name' =
        (if nn' = NamespacedName ''default'' ''web'' \<and> name' = ''s1''
         then (if False then None else Some (web_slice_info [''10.1.0.1'']))
         else effective empty_slices nn' name')) \<and>
     (changed \<or> effective cache' = effective empty_slices)"
  by (rule slice_update_exact)
    (simp_all add: empty_slices_def NewEndpointSliceCache_def cache_inv_def web_slice_def
      endpointSliceCacheKeys_def LabelServiceName_def newEndpointSliceInfo_def sort_ports_def
      sort_by_address_def web_slice_info_def)

text \<open>
  The only way an update of a slice panics is the sort of its ports: two ports or more,
  one of them without a number, in a slice that names its service. The panic is a nil dereference.
\<close>

theorem slice_update_panics_iff:
  "updatePending cache es remove = Inl e \<longleftrightarrow>
     e = NilDeref \<and> \<not> snd (snd (endpointSliceCacheKeys es)) \<and> 2 \<le> length (es_Ports es) \<and>
     (\<exists>p \<in> set (es_Ports es). slp_Port p = None)"
  by (rule updatePending_panics_iff)

text \<open>
  C17. The endpoints map of a service: a port is listed exactly if some ready endpoint of some
  slice has it; its list holds only such endpoints, in the strict order of their strings, with
  every IP once, and a local endpoint wins over a non-local one of the same IP.
\<close>

theorem slice_endpoints_exact:
  assumes "slices_ok ss" and "keeps_base cache" and "visits (vs ss) ss"
  shows "\<exists>em. getEndpointsMap x vs cache nn ss = Inr em \<and>
     (\<forall>spn. case fmlookup em spn of
        None \<Rightarrow> \<not> (\<exists>e. (spn, e) \<in> candidates x cache nn ss)
      | Some l \<Rightarrow> l \<noteq> [] \<and> (\<forall>e \<in> set l. (spn, e) \<in> candidates x cache nn ss) \<and>
          sorted_wrt (<) (map endpoint_String l) \<and> distinct (map (endpoint_IP x) l) \<and>
          (\<forall>e. (spn, e) \<in> candidates x cache nn ss \<longrightarrow>
             (\<exists>e' \<in> set l. endpoint_IP x e' = endpoint_IP x e \<and> (GetIsLocal e \<longrightarrow> GetIsLocal e'))))"
proof -
  obtain em where em: "getEndpointsMap x vs cache nn ss = Inr em"
    using getEndpointsMap_ok [OF assms(1)] by blast
  have "case fmlookup em spn of
        None \<Rightarrow> \<not> (\<exists>e. (spn, e) \<in> candidates x cache nn ss)
      | Some l \<Rightarrow> l \<noteq> [] \<and> (\<forall>e \<in> set l. (spn, e) \<in> candidates x cache nn ss) \<and>
          sorted_wrt (<) (map endpoint_String l) \<and> distinct (map (endpoint_IP x) l) \<and>
          (\<forall>e. (spn, e) \<in> candidates x cache nn ss \<longrightarrow>
             (\<exists>e' \<in> set l. endpoint_IP x e' = endpoint_IP x e \<and> (GetIsLocal e \<longrightarrow> GetIsLocal e')))"
    for spn
    using getEndpointsMap_listed [OF em assms(2,3)] .
  then show ?thesis using em by blast
qed

theorem slice_endpoints_exact_witness:
  "\<exists>em. getEndpointsMap simple_ext (\<lambda>m. sorted_list_of_fset (fmdom m)) empty_slices
        (NamespacedName ''default'' ''web'') (applied web_tracker) = Inr em \<and>
     (\<forall>spn. case fmlookup em spn of
        None \<Rightarrow> \<not> (\<exists>e. (spn, e) \<in> candidates simple_ext empty_slices
                  (NamespacedName ''default'' ''web'') (applied web_tracker))
      | Some l \<Rightarrow> l \<noteq> [] \<and> (\<forall>e \<in> set l. (spn, e) \<in> candidates simple_ext empty_slices
                  (NamespacedName ''default'' ''web'') (applied web_tracker)) \<and>
          sorted_wrt (<) (map endpoint_String l) \<and> distinct (map (endpoint_IP simple_ext) l) \<and>
          (\<forall>e. (spn, e) \<in> candidates simple_ext empty_slices
                  (NamespacedName ''default'' ''web'') (applied web_tracker) \<longrightarrow>
             (\<exists>e' \<in> set l. endpoint_IP simple_ext e' = endpoint_IP simple_ext e \<and>
                (GetIsLocal e \<longrightarrow> GetIsLocal e'))))"
  by (rule slice_endpoints_exact) (simp_all add: web_slices_ok empty_slices_keeps_base visits_sorted)

text \<open>
  C18. Any two visiting orders of the slices of a service give maps with the same ports, and
  per port the same IPs with the same locality. The maps are equal where two candidates that
  share service port, IP and locality are the same; otherwise the first one visited stays, so
  port number and topology of the listed endpoint can depend on the order.
\<close>

theorem slice_order_irrelevant:
  assumes "slices_ok ss" and "keeps_base cache" and "visits (vs ss) ss" and "visits (vs' ss) ss"
  shows "\<exists>em em'. getEndpointsMap x vs cache nn ss = Inr em \<and>
     getEndpointsMap x vs' cache nn ss = Inr em' \<and> listing x em = listing x em' \<and>
     (agree x (candidates x cache nn ss) \<longrightarrow> em = em')"
  using assms by (rule getEndpointsMap_any_order)

theorem slice_order_irrelevant_witness:
  "(\<exists>em em'. getEndpointsMap simple_ext (\<lambda>_. [''s1'', ''s2'']) empty_slices
       (NamespacedName ''default'' ''web'') two_slices = Inr em \<and>
     getEndpointsMap simple_ext (\<lambda>_. [''s2'', ''s1'']) empty_slices
       (NamespacedName ''default'' ''web'') two_slices = Inr em' \<and>
     listing simple_ext em = listing simple_ext em' \<and>
     (agree simple_ext (candidates simple_ext empty_slices (NamespacedName ''default'' ''web'')
        two_slices) \<longrightarrow> em = em')) \<and>
   agree simple_ext (candidates simple_ext empty_slices (NamespacedName ''default'' ''web'')
     two_slices)"
  by (rule conjI, rule slice_order_irrelevant)
    (simp_all add: two_slices_ok empty_slices_keeps_base two_slices_visits two_slices_agree)

text \<open>
  C15. A checkout makes one change for each service with pending slices and no other: the map
  of the slices applied before and the map of those applied after. Afterwards nothing is
  pending, every slice is effective as before, and a second checkout does nothing.
\<close>

theorem slice_checkout_exact:
  assumes "\<And>m. visits (vs m) m" and "cache_ok cache" and "visits ord (trackerByServiceMap cache)"
  shows "\<exists>changes cache'. cache_checkoutChanges x vs ord cache = Inr (changes, cache') \<and>
     list_all2 (\<lambda>nn c. \<exists>tr tr' prev cur.
          fmlookup (trackerByServiceMap cache) nn = Some tr \<and>
          fmlookup (trackerByServiceMap cache') nn = Some tr' \<and>
          getEndpointsMap x vs cache nn (applied tr) = Inr prev \<and>
          getEndpointsMap x vs cache nn (applied tr') = Inr cur \<and>
          c = \<lparr>ec_previous = Some prev, ec_current = Some cur\<rparr>)
       (filter (\<lambda>nn. nn |\<in>| fmdom (pending_trackers cache)) ord) changes \<and>
     effective cache' = effective cache \<and> cache_ok cache' \<and>
     (\<forall>ord'. cache_checkoutChanges x vs ord' cache' = Inr ([], cache'))"
  using checkout_changes [OF assms] by blast

theorem slice_checkout_exact_witness:
  "\<exists>changes cache'. cache_checkoutChanges simple_ext (\<lambda>m. sorted_list_of_fset (fmdom m))
        [NamespacedName ''default'' ''web''] web_cache = Inr (changes, cache') \<and>
     list_all2 (\<lambda>nn c. \<exists>tr tr' prev cur.
          fmlookup (trackerByServiceMap web_cache) nn = Some tr \<and>
          fmlookup (trackerByServiceMap cache') nn = Some tr' \<and>
          getEndpointsMap simple_ext (\<lambda>m. sorted_list_of_fset (fmdom m)) web_cache nn (applied tr) =
            Inr prev \<and>
          getEndpointsMap simple_ext (\<lambda>m. sorted_list_of_fset (fmdom m)) web_cache nn (applied tr') =
            Inr cur \<and>
          c = \<lparr>ec_previous = Some prev, ec_current = Some cur\<rparr>)
       (filter (\<lambda>nn. nn |\<in>| fmdom (pending_trackers web_cache)) [NamespacedName ''default'' ''web''])
       changes \<and>
     effective cache' = effective web_cache \<and> cache_ok cache' \<and>
     (\<forall>ord'. cache_checkoutChanges simple_ext (\<lambda>m. sorted_list_of_fset (fmdom m)) ord' cache' =
        Inr ([], cache'))"
  by (rule slice_checkout_exact [OF visits_sorted web_cache_ok])
    (simp add: web_cache_def)

end
