(* ===== verification/Endpoints_Tracker.thy ===== *)
theory Endpoints_Tracker
  imports Endpoint_Slices
begin

text \<open>
  \<open>controller/endpoints.go\<close>, the \<open>EndpointChangeTracker\<close>. It works in one of two modes. Without a
  slice cache it keeps a pending change per \<open>Endpoints\<close> object, as the service tracker does;
  with one it hands every slice to the cache. In both modes it collects the trigger times of
  the changes, and \<open>EndpointsMap.Update\<close> applies what is pending and reports the stale
  connections, the number of local endpoints and the trigger times.

  The callback \<open>processEndpointsMapChange\<close> is nil in this program and is left out.
\<close>

section \<open>State\<close>

record endpoint_change_tracker =
  ect_hostname :: string
  ect_items :: "(namespaced_name, endpoints_change) fmap"
  makeEndpointInfo :: "(base_endpoint_info \<Rightarrow> endpoint) option"
  endpointSliceCache :: "slice_cache option"
  ect_isIPv6Mode :: "bool option"
  lastChangeTriggerTimes :: "(namespaced_name, time list) fmap"

definition NewEndpointChangeTracker ::
    "string \<Rightarrow> (base_endpoint_info \<Rightarrow> endpoint) option \<Rightarrow> bool option \<Rightarrow> bool \<Rightarrow>
     endpoint_change_tracker" where
  "NewEndpointChangeTracker host mk v6 slicesEnabled =
     \<lparr>ect_hostname = host, ect_items = fmempty, makeEndpointInfo = mk,
      endpointSliceCache = (if slicesEnabled then Some (NewEndpointSliceCache host v6 mk) else None),
      ect_isIPv6Mode = v6, lastChangeTriggerTimes = fmempty\<rparr>"

section \<open>From an \<open>Endpoints\<close> object to an endpoints map\<close>

definition endpoints_key :: "v1_endpoints \<Rightarrow> namespaced_name" where
  "endpoints_key e = NamespacedName (eps_Namespace e) (eps_Name e)"

text \<open>The bodies of the three nested loops of \<open>endpointsToEndpointsMap\<close>, innermost first.\<close>

definition add_address ::
    "k8s_ext \<Rightarrow> endpoint_change_tracker \<Rightarrow> service_port_name \<Rightarrow> v1_endpoint_port \<Rightarrow>
     v1_endpoint_address \<Rightarrow> endpoints_map \<Rightarrow> endpoints_map" where
  "add_address x ect spn p addr m =
     (if addr_IP addr = '''' then m
      else if (case ect_isIPv6Mode ect of None \<Rightarrow> False
               | Some v6 \<Rightarrow> IsIPv6String x (addr_IP addr) \<noteq> v6) then m
      else
        let isLoc = (NodeName addr = Some (ect_hostname ect));
            base = newBaseEndpointInfo (addr_IP addr) (ep_Port p) isLoc None;
            ep = (case makeEndpointInfo ect of Some mk \<Rightarrow> mk base | None \<Rightarrow> BaseEndpointInfo base)
        in fmupd spn ((case fmlookup m spn of Some l \<Rightarrow> l | None \<Rightarrow> []) @ [ep]) m)"

definition add_endpoint_port ::
    "k8s_ext \<Rightarrow> endpoint_change_tracker \<Rightarrow> v1_endpoints \<Rightarrow> v1_endpoint_subset \<Rightarrow>
     v1_endpoint_port \<Rightarrow> endpoints_map \<Rightarrow> endpoints_map" where
  "add_endpoint_port x ect e ss p m =
     (if ep_Port p = 0 then m
      else fold (add_address x ect (ServicePortName (endpoints_key e) (ep_Name p) (ep_Protocol p)) p)
             (Addresses ss) m)"

definition endpointsToEndpointsMap ::
    "k8s_ext \<Rightarrow> endpoint_change_tracker \<Rightarrow> v1_endpoints option \<Rightarrow> endpoints_map option" where
  "endpointsToEndpointsMap x ect endpoints =
     (case endpoints of
        None \<Rightarrow> None
      | Some e \<Rightarrow> Some (fold (\<lambda>ss. fold (add_endpoint_port x ect e ss) (ss_Ports ss))
                        (Subsets e) fmempty))"

section \<open>Updates\<close>

definition add_trigger_time ::
    "namespaced_name \<Rightarrow> time \<Rightarrow> (namespaced_name, time list) fmap \<Rightarrow>
     (namespaced_name, time list) fmap" where
  "add_trigger_time nn t ts = fmupd nn ((case fmlookup ts nn of Some l \<Rightarrow> l | None \<Rightarrow> []) @ [t]) ts"

definition ect_update ::
    "k8s_ext \<Rightarrow> v1_endpoints option \<Rightarrow> v1_endpoints option \<Rightarrow> endpoint_change_tracker \<Rightarrow>
     bool \<times> endpoint_change_tracker" where
  "ect_update x prev cur ect =
     (case (case cur of Some e \<Rightarrow> Some e | None \<Rightarrow> prev) of
        None \<Rightarrow> (False, ect)
      | Some e \<Rightarrow>
          let nn = endpoints_key e;
              mprev = (case fmlookup (ect_items ect) nn of
                         Some change \<Rightarrow> ec_previous change
                       | None \<Rightarrow> endpointsToEndpointsMap x ect prev);
              t = getLastChangeTriggerTime x (eps_Annotations e);
              tts = (if t \<noteq> 0 \<and> cur \<noteq> None then add_trigger_time nn t (lastChangeTriggerTimes ect)
                       else lastChangeTriggerTimes ect);
              mcur = endpointsToEndpointsMap x ect cur;
              ect' = (if mprev = mcur
                      then ect\<lparr>ect_items := fmdrop nn (ect_items ect),
                               lastChangeTriggerTimes := fmdrop nn tts\<rparr>
                      else ect\<lparr>ect_items := fmupd nn \<lparr>ec_previous = mprev, ec_current = mcur\<rparr>
                                              (ect_items ect),
                               lastChangeTriggerTimes := tts\<rparr>)
          in (ect_items ect' \<noteq> fmempty, ect'))"

definition supportedEndpointSliceAddressTypes :: "string list" where
  "supportedEndpointSliceAddressTypes = [''IP'', ''IPv4'', ''IPv6'']"

text \<open>
  \<open>EndpointSliceUpdate\<close> reads the address type before it tests the slice for nil, so a nil slice
  panics; so does a call without a slice cache, in \<open>updatePending\<close>.
\<close>

definition EndpointSliceUpdate ::
    "k8s_ext \<Rightarrow> endpoint_slice option \<Rightarrow> bool \<Rightarrow> endpoint_change_tracker \<Rightarrow>
     (bool \<times> endpoint_change_tracker) result" where
  "EndpointSliceUpdate x endpointSlice removeSlice ect =
     (case endpointSlice of
        None \<Rightarrow> Inl NilDeref
      | Some es \<Rightarrow>
          if AddressType es \<notin> set supportedEndpointSliceAddressTypes then Inr (False, ect)
          else (case endpointSliceCacheKeys es of (nn, _, err) \<Rightarrow>
            if err then Inr (False, ect)
            else (case endpointSliceCache ect of
                    None \<Rightarrow> Inl NilDeref
                  | Some cache \<Rightarrow>
                      bindr (updatePending cache es removeSlice) (\<lambda>(changeNeeded, cache').
                        let t = getLastChangeTriggerTime x (es_Annotations es);
                            ect' = ect\<lparr>endpointSliceCache := Some cache'\<rparr>
                        in Inr (changeNeeded,
                             if changeNeeded \<and> t \<noteq> 0 \<and> \<not> removeSlice
                             then ect'\<lparr>lastChangeTriggerTimes :=
                                    add_trigger_time nn t (lastChangeTriggerTimes ect)\<rparr>
                             else ect')))))"

section \<open>Applying the changes\<close>

text \<open>
  The orders in which an \<open>Update\<close> visits the maps: \<open>vs\<close> the slices of a service, \<open>vo\<close> an
  endpoints map, \<open>ord\<close> the items of the tracker or the services of the cache, \<open>ordT\<close> the trigger
  times.
\<close>

record visit_orders =
  vs_of :: "slices \<Rightarrow> string list"
  vo_of :: "endpoints_map \<Rightarrow> service_port_name list"
  ord_of :: "namespaced_name list"
  ordT_of :: "namespaced_name list"

definition ect_checkoutChanges ::
    "k8s_ext \<Rightarrow> visit_orders \<Rightarrow> endpoint_change_tracker \<Rightarrow>
     (endpoints_change list \<times> endpoint_change_tracker) result" where
  "ect_checkoutChanges x v ect =
     (case endpointSliceCache ect of
        Some cache \<Rightarrow>
          bindr (cache_checkoutChanges x (vs_of v) (ord_of v) cache) (\<lambda>(changes, cache').
            Inr (changes, ect\<lparr>endpointSliceCache := Some cache'\<rparr>))
      | None \<Rightarrow>
          Inr (range_in (ord_of v) (\<lambda>_ change changes. changes @ [change]) (ect_items ect) [],
               ect\<lparr>ect_items := fmempty\<rparr>))"

definition checkoutTriggerTimes ::
    "namespaced_name list \<Rightarrow> endpoint_change_tracker \<Rightarrow> (namespaced_name, time list) fmap \<Rightarrow>
     (namespaced_name, time list) fmap \<times> endpoint_change_tracker" where
  "checkoutTriggerTimes ordT ect tts =
     (range_in ordT
        (\<lambda>k v ts. case fmlookup ts k of None \<Rightarrow> fmupd k v ts | Some prev \<Rightarrow> fmupd k (prev @ v) ts)
        (lastChangeTriggerTimes ect) tts,
      ect\<lparr>lastChangeTriggerTimes := fmempty\<rparr>)"

definition apply_endpoints_change ::
    "(endpoints_map \<Rightarrow> service_port_name list) \<Rightarrow> endpoints_map \<times> stale \<Rightarrow> endpoints_change \<Rightarrow>
     endpoints_map \<times> stale" where
  "apply_endpoints_change vo st change =
     (case st of (em, stale) \<Rightarrow>
        let prev = nilmap (ec_previous change); cur = nilmap (ec_current change)
        in (endpoints_map_merge (endpoints_map_unmerge em prev) cur,
            detectStaleConnections (vo prev) (vo cur) prev cur stale))"

definition endpoints_map_apply ::
    "k8s_ext \<Rightarrow> visit_orders \<Rightarrow> endpoint_change_tracker \<Rightarrow> endpoints_map \<Rightarrow> stale \<Rightarrow>
     (namespaced_name, time list) fmap \<Rightarrow>
     (endpoints_map \<times> stale \<times> (namespaced_name, time list) fmap \<times> endpoint_change_tracker) result"
    where
  "endpoints_map_apply x v ect em stale tts =
     bindr (ect_checkoutChanges x v ect) (\<lambda>(changes, ect1).
       let (em', stale') = foldl (apply_endpoints_change (vo_of v)) (em, stale) changes;
           (tts', ect2) = checkoutTriggerTimes (ordT_of v) ect1 tts
       in Inr (em', stale', tts', ect2))"

record update_endpoint_map_result =
  HCEndpointsLocalIPSize :: "(namespaced_name, nat) fmap"
  StaleEndpoints :: "service_endpoint list"
  StaleServiceNames :: "service_port_name list"
  LastChangeTriggerTimes :: "(namespaced_name, time list) fmap"

definition UpdateEndpointsMap ::
    "k8s_ext \<Rightarrow> visit_orders \<Rightarrow> endpoints_map \<Rightarrow> endpoint_change_tracker \<Rightarrow>
     (endpoints_map \<times> endpoint_change_tracker \<times> update_endpoint_map_result) result" where
  "UpdateEndpointsMap x v em changes =
     bindr (endpoints_map_apply x v changes em ([], []) fmempty) (\<lambda>(em', stale, tts, changes').
       Inr (em', changes',
         \<lparr>HCEndpointsLocalIPSize = fmmap fcard (getLocalEndpointIPs x (vo_of v em') em'),
          StaleEndpoints = fst stale, StaleServiceNames = snd stale,
          LastChangeTriggerTimes = tts\<rparr>))"


section \<open>Lemmas: applying a list of changes\<close>

text \<open>A change is owned if its entries are filed under one name.\<close>

definition ec_owned :: "namespaced_name \<Rightarrow> endpoints_change \<Rightarrow> bool" where
  "ec_owned nn c \<longleftrightarrow>
     (\<forall>spn. spn |\<in>| fmdom (nilmap (ec_previous c)) \<or> spn |\<in>| fmdom (nilmap (ec_current c)) \<longrightarrow>
        NamespacedName_of spn = nn)"

definition ec_pair :: "endpoints_change \<Rightarrow> endpoints_map option \<times> endpoints_map option" where
  "ec_pair c = (ec_previous c, ec_current c)"

lemma fst_apply_endpoints_change:
  "fst (apply_endpoints_change vo st c) =
     replace_entries (nilmap (ec_previous c)) (nilmap (ec_current c)) (fst st)"
  by (cases st) (simp add: apply_endpoints_change_def Let_def unmerge_merge)

lemma lookup_apply_change_other:
  assumes "ec_owned nn c" and "NamespacedName_of spn \<noteq> nn"
  shows "fmlookup (fst (apply_endpoints_change vo st c)) spn = fmlookup (fst st) spn"
proof -
  have "spn |\<notin>| fmdom (nilmap (ec_previous c))" "spn |\<notin>| fmdom (nilmap (ec_current c))"
    using assms by (auto simp: ec_owned_def)
  then show ?thesis by (simp add: fst_apply_endpoints_change map_simps fmdom_notD)
qed

text \<open>
  Changes with different owners: the entry of a name is that of its owner's change, and
  without one it stays.
\<close>

lemma lookup_apply_changes:
  assumes "distinct ns" and "\<And>nn. nn \<in> set ns \<Longrightarrow> ec_owned nn (ch nn)"
  shows "fmlookup (fst (foldl (apply_endpoints_change vo) st (map ch ns))) spn =
     (if NamespacedName_of spn \<in> set ns
      then fmlookup (replace_entries (nilmap (ec_previous (ch (NamespacedName_of spn))))
             (nilmap (ec_current (ch (NamespacedName_of spn)))) (fst st)) spn
      else fmlookup (fst st) spn)"
  using assms
proof (induction ns arbitrary: st)
  case Nil
  then show ?case by simp
next
  case (Cons nn ns)
  let ?st = "apply_endpoints_change vo st (ch nn)"
  have IH: "fmlookup (fst (foldl (apply_endpoints_change vo) st (map ch (nn # ns)))) spn =
     (if NamespacedName_of spn \<in> set ns
      then fmlookup (replace_entries (nilmap (ec_previous (ch (NamespacedName_of spn))))
             (nilmap (ec_current (ch (NamespacedName_of spn)))) (fst ?st)) spn
      else fmlookup (fst ?st) spn)"
    using Cons.IH [of ?st] Cons.prems by simp
  show ?case
  proof (cases "NamespacedName_of spn = nn")
    case True
    then have "NamespacedName_of spn \<notin> set ns" using Cons.prems(1) by auto
    then show ?thesis using IH True by (simp add: fst_apply_endpoints_change)
  next
    case False
    then have "fmlookup (fst ?st) spn = fmlookup (fst st) spn"
      using lookup_apply_change_other [OF Cons.prems(2) [of nn]] by simp
    then show ?thesis using IH False by (simp add: map_simps split: option.split)
  qed
qed

section \<open>The tracker without slices as an object tracker\<close>

definition endpoints_pending ::
    "endpoint_change_tracker \<Rightarrow> (namespaced_name, service_port_name, endpoint list) pending" where
  "endpoints_pending ect = fmmap ec_pair (ect_items ect)"

definition same_ect_config :: "endpoint_change_tracker \<Rightarrow> endpoint_change_tracker \<Rightarrow> bool" where
  "same_ect_config e e' \<longleftrightarrow> ect_hostname e = ect_hostname e' \<and>
     makeEndpointInfo e = makeEndpointInfo e' \<and> ect_isIPv6Mode e = ect_isIPv6Mode e'"

definition endpoints_good :: "endpoint_change_tracker \<Rightarrow> endpoint_change_tracker \<Rightarrow> bool" where
  "endpoints_good ect0 ect \<longleftrightarrow> same_ect_config ect0 ect \<and> endpointSliceCache ect = None \<and>
     fmpred ec_owned (ect_items ect)"

definition endpoints_legal :: "visit_orders \<Rightarrow> endpoint_change_tracker \<Rightarrow> bool" where
  "endpoints_legal v ect \<longleftrightarrow> visits (ord_of v) (ect_items ect)"

text \<open>The map and the tracker after an \<open>Update\<close> of the endpoints map.\<close>

definition endpoints_commit ::
    "k8s_ext \<Rightarrow> visit_orders \<Rightarrow> endpoint_change_tracker \<Rightarrow> endpoints_map \<Rightarrow> endpoints_map" where
  "endpoints_commit x v ect em =
     (case UpdateEndpointsMap x v em ect of Inr (em', _, _) \<Rightarrow> em' | Inl _ \<Rightarrow> em)"

definition endpoints_drain ::
    "k8s_ext \<Rightarrow> visit_orders \<Rightarrow> endpoint_change_tracker \<Rightarrow> endpoint_change_tracker" where
  "endpoints_drain x v ect =
     (case UpdateEndpointsMap x v fmempty ect of Inr (_, ect', _) \<Rightarrow> ect' | Inl _ \<Rightarrow> ect)"

definition endpoints_entries ::
    "k8s_ext \<Rightarrow> endpoint_change_tracker \<Rightarrow> v1_endpoints \<Rightarrow> endpoints_map option" where
  "endpoints_entries x ect e = endpointsToEndpointsMap x ect (Some e)"

lemma endpointsToEndpointsMap_config:
  assumes "same_ect_config e e'"
  shows "endpointsToEndpointsMap x e = endpointsToEndpointsMap x e'"
proof -
  have "add_address x e = add_address x e'"
    using assms by (intro ext) (simp add: add_address_def same_ect_config_def)
  then have "add_endpoint_port x e = add_endpoint_port x e'"
    by (intro ext, unfold add_endpoint_port_def) (erule ssubst, rule refl)
  then show ?thesis
    by (intro ext, unfold endpointsToEndpointsMap_def) (erule ssubst, rule refl)
qed

lemma endpointsToEndpointsMap_entries:
  assumes "same_ect_config ect0 ect"
  shows "endpointsToEndpointsMap x ect obj = entries_of (endpoints_entries x ect0) obj"
  using endpointsToEndpointsMap_config [OF assms, of x]
  by (cases obj) (simp_all add: endpoints_entries_def endpointsToEndpointsMap_def)

lemma fold_invariant_set:
  assumes "\<And>y s. y \<in> set ys \<Longrightarrow> P s \<Longrightarrow> P (f y s)" and "P s"
  shows "P (fold f ys s)"
  using assms by (induction ys arbitrary: s) auto

lemma endpoints_entries_owned:
  assumes "spn |\<in>| fmdom (nilmap (endpoints_entries x ect e))"
  shows "NamespacedName_of spn = endpoints_key e"
proof -
  let ?P = "\<lambda>m :: endpoints_map. \<forall>spn. spn |\<in>| fmdom m \<longrightarrow> NamespacedName_of spn = endpoints_key e"
  have addr: "?P m \<Longrightarrow>
      ?P (add_address x ect (ServicePortName (endpoints_key e) n pr) p a m)" for m n pr p a
    by (auto simp: add_address_def Let_def)
  have port: "?P (add_endpoint_port x ect e ss p m)" if "?P m" for m ss p
  proof -
    have "?P (fold (add_address x ect (ServicePortName (endpoints_key e) (ep_Name p) (ep_Protocol p)) p)
        (Addresses ss) m)"
      by (rule fold_invariant_set [where P = ?P, OF addr that])
    then show ?thesis using that by (simp add: add_endpoint_port_def)
  qed
  have "?P (fold (\<lambda>ss. fold (add_endpoint_port x ect e ss) (ss_Ports ss)) (Subsets e) fmempty)"
    by (intro fold_invariant_set [where P = ?P]) (use port in auto)
  then show ?thesis using assms by (simp add: endpoints_entries_def endpointsToEndpointsMap_def)
qed


lemma items_checkout:
  "range_in ks (\<lambda>_ change changes. changes @ [change]) m acc =
     acc @ map (\<lambda>k. the (fmlookup m k)) (filter (\<lambda>k. k |\<in>| fmdom m) ks)"
  by (induction ks arbitrary: acc)
    (auto split: option.splits simp: fmlookup_dom_iff)

lemma UpdateEndpointsMap_items:
  assumes "endpointSliceCache ect = None" and "visits (ord_of v) (ect_items ect)"
  shows "\<exists>res. UpdateEndpointsMap x v em ect =
     Inr (fst (foldl (apply_endpoints_change (vo_of v)) (em, [], [])
                (map (\<lambda>nn. the (fmlookup (ect_items ect) nn)) (ord_of v))),
          ect\<lparr>ect_items := fmempty, lastChangeTriggerTimes := fmempty\<rparr>, res)"
proof -
  have "filter (\<lambda>k. k |\<in>| fmdom (ect_items ect)) (ord_of v) = ord_of v"
    using assms(2) by (intro filter_True) (auto simp: visits_def)
  then show ?thesis using assms(1)
    by (simp add: UpdateEndpointsMap_def endpoints_map_apply_def ect_checkoutChanges_def
        items_checkout checkoutTriggerTimes_def Let_def split: prod.splits)
qed

lemma lookup_endpoints_commit:
  assumes good: "endpoints_good ect0 ect" and legal: "endpoints_legal v ect"
  shows "fmlookup (endpoints_commit x v ect em) spn =
     (case fmlookup (endpoints_pending ect) (NamespacedName_of spn) of
        None \<Rightarrow> fmlookup em spn
      | Some (prev, cur) \<Rightarrow> fmlookup (replace_entries (nilmap prev) (nilmap cur) em) spn)"
proof -
  let ?ch = "\<lambda>nn. the (fmlookup (ect_items ect) nn)"
  have ord: "visits (ord_of v) (ect_items ect)" using legal by (simp add: endpoints_legal_def)
  have owned: "ec_owned nn (?ch nn)" if nn: "nn \<in> set (ord_of v)" for nn
  proof -
    obtain c where "fmlookup (ect_items ect) nn = Some c"
      using visits_mem [OF ord, of nn] nn by auto
    then show ?thesis using good by (auto simp: endpoints_good_def dest: fmpredD)
  qed
  have "endpointSliceCache ect = None" using good by (simp add: endpoints_good_def)
  then have "endpoints_commit x v ect em =
      fst (foldl (apply_endpoints_change (vo_of v)) (em, [], []) (map ?ch (ord_of v)))"
    using UpdateEndpointsMap_items [OF _ ord, of x em] by (auto simp: endpoints_commit_def)
  then show ?thesis
    using lookup_apply_changes [OF visits_distinct [OF ord] owned, of "vo_of v" "(em, [], [])" spn]
      visits_mem [OF ord, of "NamespacedName_of spn"]
    by (auto simp: endpoints_pending_def ec_pair_def split: option.splits)
qed

lemma endpoints_drain_eq:
  assumes "endpoints_good ect0 ect" and "endpoints_legal v ect"
  shows "endpoints_drain x v ect = ect\<lparr>ect_items := fmempty, lastChangeTriggerTimes := fmempty\<rparr>"
  using UpdateEndpointsMap_items [of ect v x fmempty] assms
  by (auto simp: endpoints_drain_def endpoints_good_def endpoints_legal_def)

interpretation eps_source: change_source NamespacedName_of endpoints_pending "endpoints_good ect0"
    endpoints_legal "endpoints_commit x" "endpoints_drain x" for x ect0
  by unfold_locales
    (simp_all add: lookup_endpoints_commit endpoints_drain_eq [of ect0] endpoints_pending_def
      endpoints_good_def same_ect_config_def)

lemma ect_update_pend:
  assumes good: "endpoints_good ect0 ect"
    and key: "event_key endpoints_key prev cur = Some k"
    and prevkey: "pred_option (\<lambda>e. endpoints_key e = k) prev"
  shows "\<exists>ect'. ect_update x prev cur ect = (endpoints_pending ect' \<noteq> fmempty, ect') \<and>
           endpoints_good ect0 ect' \<and>
           endpoints_pending ect' = pend_after (endpoints_pending ect) k
             (entries_of (endpoints_entries x ect0) prev) (entries_of (endpoints_entries x ect0) cur)"
proof -
  let ?E = "entries_of (endpoints_entries x ect0)"
  obtain e where e: "(case cur of Some e \<Rightarrow> Some e | None \<Rightarrow> prev) = Some e" "k = endpoints_key e"
    using key by (cases cur; cases prev) (auto simp: event_key_def)
  have same: "same_ect_config ect0 ect" using good by (simp add: endpoints_good_def)
  note entries = endpointsToEndpointsMap_entries [OF same, of x]
  have curkey: "pred_option (\<lambda>e. endpoints_key e = k) cur" using e by (cases cur) auto
  have ownedE: "spn |\<in>| fmdom (nilmap (?E obj)) \<Longrightarrow> NamespacedName_of spn = k"
    if "pred_option (\<lambda>e. endpoints_key e = k) obj" for obj spn
    using that endpoints_entries_owned by (cases obj) auto
  define mprev where
    "mprev = (case fmlookup (ect_items ect) k of Some c \<Rightarrow> ec_previous c
       | None \<Rightarrow> endpointsToEndpointsMap x ect prev)"
  have mprev: "mprev = (case fmlookup (ect_items ect) k of Some c \<Rightarrow> ec_previous c | None \<Rightarrow> ?E prev)"
    by (simp add: mprev_def entries cong: option.case_cong)
  define ect' where "ect' = snd (ect_update x prev cur ect)"
  have items: "ect_items ect' = (if mprev = ?E cur then fmdrop k (ect_items ect)
      else fmupd k \<lparr>ec_previous = mprev, ec_current = ?E cur\<rparr> (ect_items ect))"
    and res: "fst (ect_update x prev cur ect) = (ect_items ect' \<noteq> fmempty)"
    and rest: "same_ect_config ect ect'" "endpointSliceCache ect' = endpointSliceCache ect"
    using e by (auto simp: ect'_def ect_update_def entries [of cur] mprev_def same_ect_config_def Let_def)
  have "NamespacedName_of spn = k" if "spn |\<in>| fmdom (nilmap mprev)" for spn
    using that good ownedE [OF prevkey]
    by (auto simp: mprev endpoints_good_def ec_owned_def split: option.splits)
  then have "endpoints_good ect0 ect'" using good ownedE [OF curkey] rest
    by (auto simp: endpoints_good_def items same_ect_config_def ec_owned_def)
  moreover have "endpoints_pending ect' = pend_after (endpoints_pending ect) k (?E prev) (?E cur)"
    by (auto simp: endpoints_pending_def items mprev pend_after_def Let_def fmmap_fmupd ec_pair_def
        split: option.splits)
  moreover have "ect_update x prev cur ect = (endpoints_pending ect' \<noteq> fmempty, ect')"
    by (rule prod_eqI) (simp_all add: res endpoints_pending_def, simp add: ect'_def)
  ultimately show ?thesis by blast
qed

interpretation eps_tracker: object_tracker NamespacedName_of endpoints_pending "endpoints_good ect0"
    endpoints_legal "endpoints_commit x" "endpoints_drain x" endpoints_key "\<lambda>_. True"
    "endpoints_entries x ect0" "\<lambda>prev cur t. Inr (ect_update x prev cur t)" for x ect0
  by unfold_locales (use endpoints_entries_owned ect_update_pend in auto)


section \<open>The tracker with slices as a change source\<close>

definition slices_pending ::
    "k8s_ext \<Rightarrow> (slices \<Rightarrow> string list) \<Rightarrow> endpoint_change_tracker \<Rightarrow>
     (namespaced_name, service_port_name, endpoint list) pending" where
  "slices_pending x vs ect =
     (case endpointSliceCache ect of
        None \<Rightarrow> fmempty
      | Some c \<Rightarrow> fmmap_keys (\<lambda>nn tr. ec_pair (slice_change_of x vs c nn tr)) (pending_trackers c))"

definition slices_good :: "slice_cache \<Rightarrow> endpoint_change_tracker \<Rightarrow> bool" where
  "slices_good c0 ect \<longleftrightarrow>
     (\<exists>c. endpointSliceCache ect = Some c \<and> same_cache_config c0 c \<and> cache_ok c)"

text \<open>
  The order in which the slices of a service are visited may be another one at every sync.
  \<open>V\<close> is what it is chosen from, \<open>UNIV\<close> if nothing is known about it.
\<close>

definition slices_legal ::
    "(slices \<Rightarrow> string list) set \<Rightarrow> visit_orders \<Rightarrow> endpoint_change_tracker \<Rightarrow> bool" where
  "slices_legal V v ect \<longleftrightarrow> vs_of v \<in> V \<and> (\<forall>m. visits (vs_of v m) m) \<and>
     (\<forall>c. endpointSliceCache ect = Some c \<longrightarrow> visits (ord_of v) (trackerByServiceMap c))"

lemma slices_map_config: "same_cache_config c c' \<Longrightarrow> slices_map x vs c = slices_map x vs c'"
  by (intro ext) (simp add: slices_map_def getEndpointsMap_config)

lemma slices_map_owned:
  assumes "spn |\<in>| fmdom (slices_map x vs c nn ss)"
  shows "NamespacedName_of spn = nn"
  using assms getEndpointsMap_owned
  by (cases "getEndpointsMap x vs c nn ss") (auto simp: slices_map_def)

lemma slice_change_owned: "ec_owned nn (slice_change_of x vs c nn tr)"
  by (auto simp: ec_owned_def slice_change_of_def dest: slices_map_owned)

lemma UpdateEndpointsMap_slices:
  assumes "endpointSliceCache ect = Some c"
    and "cache_checkoutChanges x (vs_of v) (ord_of v) c = Inr (changes, c')"
  shows "\<exists>res. UpdateEndpointsMap x v em ect =
     Inr (fst (foldl (apply_endpoints_change (vo_of v)) (em, [], []) changes),
          ect\<lparr>endpointSliceCache := Some c', lastChangeTriggerTimes := fmempty\<rparr>, res)"
  using assms
  by (simp add: UpdateEndpointsMap_def endpoints_map_apply_def ect_checkoutChanges_def
      checkoutTriggerTimes_def Let_def split: prod.splits)

lemma slices_commit_drain:
  assumes good: "slices_good c0 ect" and legal: "slices_legal {vs} v ect"
  shows "fmlookup (endpoints_commit x v ect em) spn =
     (case fmlookup (slices_pending x vs ect) (NamespacedName_of spn) of
        None \<Rightarrow> fmlookup em spn
      | Some (prev, cur) \<Rightarrow> fmlookup (replace_entries (nilmap prev) (nilmap cur) em) spn) \<and>
    slices_good c0 (endpoints_drain x v ect) \<and>
    slices_pending x vs (endpoints_drain x v ect) = fmempty \<and>
    (\<forall>c. endpointSliceCache ect = Some c \<longrightarrow>
       (\<exists>c'. endpointSliceCache (endpoints_drain x v ect) = Some c' \<and> effective c' = effective c))"
proof -
  obtain c where c: "endpointSliceCache ect = Some c" "same_cache_config c0 c" "cache_ok c"
    using good by (auto simp: slices_good_def)
  have vis: "\<And>m. visits (vs m) m" and vs: "vs_of v = vs"
    and ord: "visits (ord_of v) (trackerByServiceMap c)"
    using legal c(1) by (auto simp: slices_legal_def)
  let ?ns = "filter (\<lambda>nn. nn |\<in>| fmdom (pending_trackers c)) (ord_of v)"
  let ?ch = "\<lambda>nn. slice_change_of x vs c nn (the (fmlookup (trackerByServiceMap c) nn))"
  obtain c' where run: "cache_checkoutChanges x vs (ord_of v) c = Inr (map ?ch ?ns, c')"
    and c': "same_cache_config c c'" "cache_ok c'" "effective c' = effective c"
      "pending_trackers c' = fmempty"
    using checkout_run [where vs = vs and x = x, OF vis c(3) ord] by blast
  note upd = UpdateEndpointsMap_slices [OF c(1), of x v, unfolded vs, OF run]
  have commit: "endpoints_commit x v ect em =
      fst (foldl (apply_endpoints_change (vo_of v)) (em, [], []) (map ?ch ?ns))"
    using upd [of em] by (auto simp: endpoints_commit_def)
  have drain: "endpointSliceCache (endpoints_drain x v ect) = Some c'"
    using upd [of fmempty] by (auto simp: endpoints_drain_def)
  have mem: "nn \<in> set ?ns \<longleftrightarrow> fmlookup (pending_trackers c) nn \<noteq> None" for nn
    using visits_mem [OF ord, of nn]
    by (auto simp: pending_trackers_def fmlookup_dom_iff split: option.splits if_splits)
  have the: "fmlookup (pending_trackers c) nn = Some tr \<Longrightarrow>
      the (fmlookup (trackerByServiceMap c) nn) = tr" for nn tr
    by (auto simp: pending_trackers_def split: if_splits)
  have "fmlookup (endpoints_commit x v ect em) spn =
     (case fmlookup (slices_pending x vs ect) (NamespacedName_of spn) of
        None \<Rightarrow> fmlookup em spn
      | Some (prev, cur) \<Rightarrow> fmlookup (replace_entries (nilmap prev) (nilmap cur) em) spn)"
    unfolding commit
    using lookup_apply_changes [of ?ns ?ch "vo_of v" "(em, [], [])" spn] visits_distinct [OF ord]
      slice_change_owned mem [of "NamespacedName_of spn"] the [of "NamespacedName_of spn"] c(1)
    by (cases "fmlookup (pending_trackers c) (NamespacedName_of spn)")
      (auto simp: slices_pending_def ec_pair_def)
  moreover have "same_cache_config c0 c'" using c(2) c'(1) by (simp add: same_cache_config_def)
  ultimately show ?thesis using drain c c' by (auto simp: slices_good_def slices_pending_def)
qed

interpretation slice_source: change_source NamespacedName_of "slices_pending x vs" "slices_good c0"
    "slices_legal {vs}" "endpoints_commit x" "endpoints_drain x" for x vs c0
  by unfold_locales (use slices_commit_drain in auto)


section \<open>Runs with slices\<close>

text \<open>
  \<open>live nn\<close> holds, by name, the slices of the service \<open>nn\<close> that were delivered and not removed
  since. An event with a slice whose keys or address type are not supported changes nothing.
\<close>

definition live_slices_after ::
    "(namespaced_name \<Rightarrow> slices) \<Rightarrow> namespaced_name \<Rightarrow> string \<Rightarrow> slice_info option \<Rightarrow>
     (namespaced_name \<Rightarrow> slices)" where
  "live_slices_after live nn name si =
     live(nn := (case si of None \<Rightarrow> fmdrop name (live nn) | Some s \<Rightarrow> fmupd name s (live nn)))"

definition slice_supported :: "endpoint_slice \<Rightarrow> bool" where
  "slice_supported es \<longleftrightarrow> AddressType es \<in> set supportedEndpointSliceAddressTypes \<and>
     \<not> snd (snd (endpointSliceCacheKeys es))"

inductive slice_run ::
    "k8s_ext \<Rightarrow> (slices \<Rightarrow> string list) set \<Rightarrow> endpoint_change_tracker \<Rightarrow>
     (namespaced_name \<Rightarrow> slices) \<Rightarrow> endpoint_change_tracker \<Rightarrow> endpoints_map \<Rightarrow> bool"
  for x V ect0 where
  start: "slice_run x V ect0 (\<lambda>_. fmempty) ect0 fmempty"
| ignored: "slice_run x V ect0 live ect em \<Longrightarrow> \<not> slice_supported es \<Longrightarrow>
     EndpointSliceUpdate x (Some es) remove ect = Inr (r, ect') \<Longrightarrow>
     slice_run x V ect0 live ect' em"
| deliver: "slice_run x V ect0 live ect em \<Longrightarrow> slice_supported es \<Longrightarrow>
     newEndpointSliceInfo es remove = Inr si \<Longrightarrow> proto_ok si \<Longrightarrow>
     endpointSliceCacheKeys es = (nn, name, False) \<Longrightarrow>
     EndpointSliceUpdate x (Some es) remove ect = Inr (r, ect') \<Longrightarrow>
     slice_run x V ect0 (live_slices_after live nn name (if remove then None else Some si)) ect' em"
| sync: "slice_run x V ect0 live ect em \<Longrightarrow> slices_legal V v ect \<Longrightarrow>
     slice_run x V ect0 live (endpoints_drain x v ect) (endpoints_commit x v ect em)"

inductive_cases slice_run_cases: "slice_run x V ect0 live ect em"

definition effective_is :: "slice_cache \<Rightarrow> (namespaced_name \<Rightarrow> slices) \<Rightarrow> bool" where
  "effective_is c live \<longleftrightarrow> (\<forall>nn name. effective c nn name = fmlookup (live nn) name)"

text \<open>
  What a run keeps: the cache is well formed and its effective slices are the live ones, and the
  map holds, for each service, what the applied slices list when visited in one of the orders.
\<close>

definition made_from ::
    "k8s_ext \<Rightarrow> (slices \<Rightarrow> string list) set \<Rightarrow> slice_cache \<Rightarrow> namespaced_name \<Rightarrow> slices \<Rightarrow>
     endpoints_map \<Rightarrow> bool" where
  "made_from x V c0 nn ss em \<longleftrightarrow> (\<exists>vs \<in> V. (\<forall>m. visits (vs m) m) \<and>
     (\<forall>spn. NamespacedName_of spn = nn \<longrightarrow> fmlookup em spn = fmlookup (slices_map x vs c0 nn ss) spn))"

definition applied_of :: "slice_cache \<Rightarrow> namespaced_name \<Rightarrow> slices" where
  "applied_of c nn = (case fmlookup (trackerByServiceMap c) nn of
     Some tr \<Rightarrow> applied tr | None \<Rightarrow> fmempty)"

definition slice_run_inv ::
    "k8s_ext \<Rightarrow> (slices \<Rightarrow> string list) set \<Rightarrow> slice_cache \<Rightarrow> (namespaced_name \<Rightarrow> slices) \<Rightarrow>
     endpoint_change_tracker \<Rightarrow> endpoints_map \<Rightarrow> bool" where
  "slice_run_inv x V c0 live ect em \<longleftrightarrow>
     (\<exists>c. endpointSliceCache ect = Some c \<and> same_cache_config c0 c \<and> cache_ok c \<and>
        effective_is c live \<and> (\<forall>nn. made_from x V c0 nn (applied_of c nn) em))"

lemma effective_applied:
  assumes "visits (vs (pending tr)) (pending tr)" and "effective_is c live"
    and "fmlookup (trackerByServiceMap c) nn = Some tr"
  shows "applied (apply_pending vs tr) = live nn"
  using assms by (intro fmap_ext)
    (simp add: apply_pending_effective effective_is_def effective_def split: option.splits)

lemma slices_map_empty [simp]: "slices_map x vs c nn fmempty = fmempty"
  if "\<And>m. visits (vs m) m"
proof -
  have "vs fmempty = []" using that [of fmempty] by (simp add: visits_def)
  then show ?thesis
    by (simp add: slices_map_def getEndpointsMap_def endpointInfoByServicePort_def
        endpointsMapFromEndpointInfo_def)
qed

text \<open>An update of the cache, seen from the trackers of the other services.\<close>

lemma updatePending_other:
  assumes "updatePending c es remove = Inr (r, c')" and "endpointSliceCacheKeys es = (nn, name, False)"
  shows "same_cache_config c c'"
    and "nn' \<noteq> nn \<Longrightarrow> fmlookup (trackerByServiceMap c') nn' = fmlookup (trackerByServiceMap c) nn'"
    and "\<exists>tr'. fmlookup (trackerByServiceMap c') nn = Some tr' \<and>
      applied tr' = applied (case fmlookup (trackerByServiceMap c) nn of Some tr \<Rightarrow> tr
        | None \<Rightarrow> newEndpointSliceTracker) \<and>
      (r \<or> pending tr' = pending (case fmlookup (trackerByServiceMap c) nn of Some tr \<Rightarrow> tr
        | None \<Rightarrow> newEndpointSliceTracker)) \<and>
      (r \<longrightarrow> pending tr' \<noteq> fmempty)"
  using assms
  by (auto simp: updatePending_def bindr_Inr_iff Let_def same_cache_config_def
      split: option.splits if_splits)


lemma updatePending_slices_ok:
  assumes "updatePending c es remove = Inr (r, c')" and "newEndpointSliceInfo es remove = Inr si"
    and "proto_ok si"
    and "fmpred (\<lambda>_ tr. slices_ok (applied tr) \<and> slices_ok (pending tr)) (trackerByServiceMap c)"
  shows "fmpred (\<lambda>_ tr. slices_ok (applied tr) \<and> slices_ok (pending tr)) (trackerByServiceMap c')"
proof -
  have "slices_ok (fmupd name si ss)" if "slices_ok ss" for name ss
    using that assms(3) by (auto simp: slices_ok_def intro!: fmpred_upd)
  moreover have "slices_ok (applied newEndpointSliceTracker) \<and> slices_ok (pending newEndpointSliceTracker)"
    by (simp add: newEndpointSliceTracker_def slices_ok_def)
  moreover have "slices_ok (applied tr) \<and> slices_ok (pending tr)"
    if "fmlookup (trackerByServiceMap c) nn = Some tr" for nn tr
    using fmpredD [OF assms(4) that] .
  ultimately show ?thesis using assms(1,2,4)
    by (auto simp: updatePending_def Let_def split: option.splits if_splits prod.splits
        intro!: fmpred_upd)
qed

text \<open>A service with nothing pending has its live slices applied.\<close>

lemma applied_live:
  assumes "effective_is c live" and "fmlookup (pending_trackers c) nn = None"
  shows "applied_of c nn = live nn"
proof (rule fmap_ext)
  fix name
  have "fmlookup (live nn) name = effective c nn name" using assms(1) by (simp add: effective_is_def)
  then show "fmlookup (applied_of c nn) name = fmlookup (live nn) name"
    using assms(2) by (auto simp: applied_of_def effective_def effective_slice_def
        pending_trackers_def split: option.splits if_splits)
qed

lemma slices_pending_lookup:
  assumes "endpointSliceCache ect = Some c" and "same_cache_config c0 c" and "effective_is c live"
    and "\<And>m. visits (vs m) m"
  shows "fmlookup (slices_pending x vs ect) nn = (if fmlookup (pending_trackers c) nn = None then None
     else Some (Some (slices_map x vs c0 nn (applied_of c nn)), Some (slices_map x vs c0 nn (live nn))))"
proof (cases "fmlookup (pending_trackers c) nn")
  case (Some tr)
  then have tr: "fmlookup (trackerByServiceMap c) nn = Some tr"
    by (auto simp: pending_trackers_def split: if_splits)
  show ?thesis
    using Some tr assms(1) effective_applied [where vs = vs, OF assms(4,3) tr] slices_map_config [OF assms(2), of x vs]
    by (simp add: slices_pending_def applied_of_def slice_change_of_def ec_pair_def)
qed (use assms(1) in \<open>simp add: slices_pending_def\<close>)

lemma slices_pending_empty:
  "endpointSliceCache ect = Some c \<Longrightarrow>
     slices_pending x vs ect = fmempty \<longleftrightarrow> pending_trackers c = fmempty"
  by (auto simp: slices_pending_def intro!: fmap_ext dest: arg_cong [of _ _ "\<lambda>m. fmlookup m _"])

text \<open>Two orders give maps with the same keys.\<close>

lemma slices_map_keys:
  assumes "slices_ok ss" and "\<And>m. visits (vs m) m" and "\<And>m. visits (vs' m) m"
  shows "spn |\<in>| fmdom (slices_map x vs c nn ss) \<longleftrightarrow> spn |\<in>| fmdom (slices_map x vs' c nn ss)"
proof -
  have "fmlookup (slices_map x vs0 c nn ss) spn = None \<longleftrightarrow> {e. (spn, e) \<in> candidates x c nn ss} = {}"
    if "\<And>m. visits (vs0 m) m" for vs0
    by (rule getEndpointsMap_keys [where vs = vs0])
      (simp_all add: getEndpointsMap_slices_map [OF assms(1) same_cache_config_refl] that)
  from this [of vs] this [of vs'] show ?thesis using assms(2,3) by (simp add: fmlookup_dom_iff flip: not_None_eq)
qed

lemma applied_slices_ok: "cache_ok c \<Longrightarrow> slices_ok (applied_of c nn)"
  by (auto simp: cache_ok_def applied_of_def slices_ok_def dest: fmpredD split: option.splits)

lemma EndpointSliceUpdate_supported:
  assumes "slice_supported es" and "endpointSliceCache ect = Some c"
    and "EndpointSliceUpdate x (Some es) remove ect = Inr (r, ect')"
  shows "\<exists>c'. updatePending c es remove = Inr (r, c') \<and> endpointSliceCache ect' = Some c'"
  using assms by (auto simp: EndpointSliceUpdate_def slice_supported_def bindr_Inr_iff Let_def
      split: prod.splits)

lemma EndpointSliceUpdate_ignored:
  assumes "\<not> slice_supported es"
  shows "EndpointSliceUpdate x (Some es) remove ect = Inr (False, ect)"
  using assms by (auto simp: EndpointSliceUpdate_def slice_supported_def split: prod.splits)

lemma deliver_slice_inv:
  assumes inv: "slice_run_inv x V c0 live ect em"
    and sup: "slice_supported es" and info: "newEndpointSliceInfo es remove = Inr si"
    and proto: "proto_ok si" and keys: "endpointSliceCacheKeys es = (nn, name, False)"
    and upd: "EndpointSliceUpdate x (Some es) remove ect = Inr (r, ect')"
  shows "slice_run_inv x V c0
     (live_slices_after live nn name (if remove then None else Some si)) ect' em"
proof -
  let ?live = "live_slices_after live nn name (if remove then None else Some si)"
  obtain c where c: "endpointSliceCache ect = Some c" "same_cache_config c0 c" "cache_ok c"
      "effective_is c live" and made: "\<And>nn. made_from x V c0 nn (applied_of c nn) em"
    using inv by (auto simp: slice_run_inv_def)
  obtain c' where c': "updatePending c es remove = Inr (r, c')" "endpointSliceCache ect' = Some c'"
    using EndpointSliceUpdate_supported [OF sup c(1) upd] by blast
  have ci: "cache_inv c" and ok: "fmpred (\<lambda>_ tr. slices_ok (applied tr) \<and> slices_ok (pending tr))
      (trackerByServiceMap c)" using c(3) by (auto simp: cache_ok_def)
  have eff': "effective c' nn' name' = (if nn' = nn \<and> name' = name
      then (if remove then None else Some si) else effective c nn' name')"
    and ci': "cache_inv c'" for nn' name'
    using updatePending_effective [OF ci keys info] c'(1) by auto
  have "effective_is c' ?live"
    using c(4) by (auto simp: effective_is_def eff' live_slices_after_def)
  moreover have "cache_ok c'"
    using updatePending_slices_ok [OF c'(1) info proto ok] ci' by (simp add: cache_ok_def)
  moreover note other = updatePending_other [OF c'(1) keys]
  moreover have "same_cache_config c0 c'" using other(1) c(2) by (simp add: same_cache_config_def)
  moreover have "applied_of c' nn' = applied_of c nn'" for nn'
    using other(2) [of nn'] other(3)
    by (cases "nn' = nn") (auto simp: applied_of_def newEndpointSliceTracker_def split: option.splits)
  ultimately show ?thesis using made c'(2) by (simp add: slice_run_inv_def)
qed

text \<open>
  A sync brings every service in line with its live slices: one without a pending change has
  them in the map already, and of one with a pending change all previous entries go, whatever
  the order they are computed in now.
\<close>

lemma commit_made:
  assumes inv: "slice_run_inv x V c0 live ect em" and legal: "slices_legal V v ect"
  shows "made_from x V c0 nn (live nn) (endpoints_commit x v ect em)"
proof -
  obtain c where c: "endpointSliceCache ect = Some c" "same_cache_config c0 c" "cache_ok c"
      "effective_is c live" and made: "made_from x V c0 nn (applied_of c nn) em"
    using inv by (auto simp: slice_run_inv_def)
  have good: "slices_good c0 ect" using c by (auto simp: slices_good_def)
  have vs: "vs_of v \<in> V" "\<And>m. visits (vs_of v m) m" and legal1: "slices_legal {vs_of v} v ect"
    using legal by (auto simp: slices_legal_def)
  obtain vs' where vs': "vs' \<in> V" "\<And>m. visits (vs' m) m"
    and em: "\<And>spn. NamespacedName_of spn = nn \<Longrightarrow>
      fmlookup em spn = fmlookup (slices_map x vs' c0 nn (applied_of c nn)) spn"
    using made by (auto simp: made_from_def)
  note pend = slices_pending_lookup [where vs = "vs_of v", OF c(1,2,4) vs(2), of x]
  have "fmlookup (endpoints_commit x v ect em) spn =
      (if fmlookup (pending_trackers c) nn = None then fmlookup em spn
       else fmlookup (slices_map x (vs_of v) c0 nn (live nn)) spn)" if "NamespacedName_of spn = nn" for spn
  proof (subst slice_source.commit_current [OF good legal1])
    show "spn |\<in>| fmdom (nilmap prev)"
      if "fmlookup (slices_pending x (vs_of v) ect) (NamespacedName_of spn) = Some (prev, cur)"
        and "spn |\<in>| fmdom em" for prev cur
      using that em \<open>NamespacedName_of spn = nn\<close> pend [of nn]
        slices_map_keys [where vs = "vs_of v" and vs' = vs', OF applied_slices_ok [OF c(3)] vs(2) vs'(2)]
      by (auto simp: fmlookup_dom_iff split: if_splits)
  qed (simp add: pend that)
  then show ?thesis
    using vs vs' em applied_live [OF c(4), of nn]
    by (cases "fmlookup (pending_trackers c) nn") (auto simp: made_from_def)
qed

lemma drained_cache:
  assumes inv: "slice_run_inv x V c0 live ect em" and legal: "slices_legal V v ect"
  obtains c where "endpointSliceCache (endpoints_drain x v ect) = Some c" and "same_cache_config c0 c"
    and "cache_ok c" and "effective_is c live" and "pending_trackers c = fmempty"
proof -
  obtain c where c: "endpointSliceCache ect = Some c" "effective_is c live" and good: "slices_good c0 ect"
    using inv by (auto simp: slice_run_inv_def slices_good_def)
  have "slices_legal {vs_of v} v ect" using legal by (auto simp: slices_legal_def)
  note d = slices_commit_drain [OF good this, of x]
  obtain c' where c': "endpointSliceCache (endpoints_drain x v ect) = Some c'" "effective c' = effective c"
    using d c(1) by blast
  show ?thesis
    using that [OF c'(1)] d c'(2) c(2) slices_pending_empty [OF c'(1)]
    by (auto simp: slices_good_def c'(1) effective_is_def)
qed

text \<open>So a second sync finds nothing to do.\<close>

lemma commit_drained:
  assumes inv: "slice_run_inv x V c0 live ect em" and legal: "slices_legal V v ect"
    and legal': "slices_legal V' v' (endpoints_drain x v ect)"
  shows "endpoints_commit x v' (endpoints_drain x v ect) m = m"
proof -
  obtain c where c: "endpointSliceCache (endpoints_drain x v ect) = Some c" "same_cache_config c0 c"
      "cache_ok c" "effective_is c live" "pending_trackers c = fmempty"
    by (rule drained_cache [OF inv legal])
  have good: "slices_good c0 (endpoints_drain x v ect)" using c by (auto simp: slices_good_def)
  have "slices_legal {vs_of v'} v' (endpoints_drain x v ect)" using legal' by (simp add: slices_legal_def)
  from slice_source.commit_nothing [OF good this] show ?thesis
    using slices_pending_empty [OF c(1)] c(5) by simp
qed

lemma sync_slice_inv:
  assumes inv: "slice_run_inv x V c0 live ect em" and legal: "slices_legal V v ect"
  shows "slice_run_inv x V c0 live (endpoints_drain x v ect) (endpoints_commit x v ect em)"
proof -
  obtain c where c: "endpointSliceCache (endpoints_drain x v ect) = Some c" "same_cache_config c0 c"
      "cache_ok c" "effective_is c live" "pending_trackers c = fmempty"
    by (rule drained_cache [OF inv legal])
  moreover have "applied_of c nn = live nn" for nn using applied_live [OF c(4)] c(5) by simp
  ultimately show ?thesis using commit_made [OF inv legal] by (simp add: slice_run_inv_def)
qed

lemma slice_run_keeps:
  assumes "slice_run x V ect0 live ect em" and "vs \<in> V" and vis: "\<And>m. visits (vs m) m"
    and "endpointSliceCache ect0 = Some c0" and "trackerByServiceMap c0 = fmempty"
  shows "slice_run_inv x V c0 live ect em"
  using assms(1)
proof (induction rule: slice_run.induct)
  case start
  have "effective_is c0 (\<lambda>_. fmempty)" using assms(5) by (simp add: effective_is_def effective_def)
  moreover have "made_from x V c0 nn fmempty fmempty" for nn
    using assms(2) vis slices_map_empty [where vs = vs, OF vis] unfolding made_from_def
    by (intro bexI [of _ vs]) simp_all
  ultimately show ?case using assms(4,5)
    by (simp add: slice_run_inv_def cache_ok_def cache_inv_def applied_of_def)
next
  case (ignored live ect em es remove r ect')
  then show ?case using EndpointSliceUpdate_ignored by simp
next
  case (deliver live ect em es remove si nn name r ect')
  then show ?case using deliver_slice_inv by blast
next
  case (sync live ect em v)
  then show ?case using sync_slice_inv by blast
qed


section \<open>Runs without slices\<close>

definition endpoints_run ::
    "k8s_ext \<Rightarrow> endpoint_change_tracker \<Rightarrow> (namespaced_name \<rightharpoonup> v1_endpoints) \<Rightarrow>
     endpoint_change_tracker \<Rightarrow> endpoints_map \<Rightarrow> bool" where
  "endpoints_run x =
     tracker_run endpoints_key (\<lambda>_. True) (\<lambda>prev cur t. Inr (ect_update x prev cur t))
       endpoints_legal (endpoints_commit x) (endpoints_drain x)"

lemma endpoints_run_start: "endpoints_run x ect0 Map.empty ect0 fmempty"
  unfolding endpoints_run_def by (rule tracker_run.start)

lemma endpoints_run_deliver:
  "endpoints_run x ect0 live ect em \<Longrightarrow> informer_event endpoints_key live prev cur \<Longrightarrow>
   ect_update x prev cur ect = (r, ect') \<Longrightarrow>
   endpoints_run x ect0 (live_after endpoints_key live prev cur) ect' em"
  unfolding endpoints_run_def by (rule tracker_run.deliver) (simp_all add: option.pred_True)

lemma endpoints_run_sync:
  "endpoints_run x ect0 live ect em \<Longrightarrow> endpoints_legal v ect \<Longrightarrow>
   endpoints_run x ect0 live (endpoints_drain x v ect) (endpoints_commit x v ect em)"
  unfolding endpoints_run_def by (rule tracker_run.sync)

lemma endpoints_run_induct
  [consumes 1, case_names start deliver sync, induct pred: endpoints_run]:
  assumes "endpoints_run x ect0 live ect em"
    and "P Map.empty ect0 fmempty"
    and "\<And>live ect em prev cur. endpoints_run x ect0 live ect em \<Longrightarrow> P live ect em \<Longrightarrow>
       informer_event endpoints_key live prev cur \<Longrightarrow>
       P (live_after endpoints_key live prev cur) (snd (ect_update x prev cur ect)) em"
    and "\<And>live ect em v. endpoints_run x ect0 live ect em \<Longrightarrow> P live ect em \<Longrightarrow>
       endpoints_legal v ect \<Longrightarrow> P live (endpoints_drain x v ect) (endpoints_commit x v ect em)"
  shows "P live ect em"
  using assms(1) unfolding endpoints_run_def
proof (induction rule: tracker_run.induct)
  case start
  show ?case by (rule assms(2))
next
  case (deliver live t m prev cur r t')
  then show ?case using assms(3) [of live t m prev cur]
    by (simp add: endpoints_run_def)
next
  case (sync live t m ord)
  then show ?case using assms(4) by (simp add: endpoints_run_def)
qed

definition new_ect :: "endpoint_change_tracker \<Rightarrow> bool" where
  "new_ect ect \<longleftrightarrow> endpointSliceCache ect = None \<and> ect_items ect = fmempty \<and>
     lastChangeTriggerTimes ect = fmempty"

lemma endpoints_run_good:
  assumes "endpoints_run x ect0 live ect em" and "new_ect ect0"
  shows "endpoints_good ect0 ect"
  using assms(1) unfolding endpoints_run_def
  by (rule eps_tracker.run_invariant [THEN conjunct1])
    (use assms(2) in \<open>simp_all add: new_ect_def endpoints_good_def same_ect_config_def
        endpoints_pending_def\<close>)

text \<open>A trigger time is kept only while there is a pending change.\<close>

lemma ect_update_times:
  assumes "fmdom (lastChangeTriggerTimes ect) |\<subseteq>| fmdom (ect_items ect)"
  shows "fmdom (lastChangeTriggerTimes (snd (ect_update x prev cur ect))) |\<subseteq>|
     fmdom (ect_items (snd (ect_update x prev cur ect)))"
  using assms by (auto simp: ect_update_def add_trigger_time_def Let_def split: option.splits)

lemma endpoints_run_times:
  assumes "endpoints_run x ect0 live ect em" and "new_ect ect0"
  shows "fmdom (lastChangeTriggerTimes ect) |\<subseteq>| fmdom (ect_items ect)"
  using assms(1)
proof (induction rule: endpoints_run_induct)
  case start
  then show ?case using assms(2) by (simp add: new_ect_def)
next
  case (deliver live ect em prev cur)
  then show ?case by (intro ect_update_times)
next
  case (sync live ect em v)
  then show ?case using endpoints_drain_eq [OF endpoints_run_good [OF sync(1) assms(2)]] by simp
qed

lemma trigger_times_moved:
  assumes "visits ks ts"
  shows "range_in ks (\<lambda>k v acc. case fmlookup acc k of
      None \<Rightarrow> fmupd k v acc | Some prev \<Rightarrow> fmupd k (prev @ v) acc) ts fmempty = ts"
proof -
  have "fmlookup (range_in js (\<lambda>k v acc. case fmlookup acc k of
      None \<Rightarrow> fmupd k v acc | Some prev \<Rightarrow> fmupd k (prev @ v) acc) ts acc) k =
      (if k \<in> set js then fmlookup ts k else fmlookup acc k)"
    if "distinct js" "set js \<inter> fset (fmdom acc) = {}" "set js \<subseteq> fset (fmdom ts)" for js acc k
    using that
  proof (induction js arbitrary: acc)
    case (Cons j js)
    obtain v where v: "fmlookup ts j = Some v" using Cons.prems(3) by (auto simp: fmlookup_dom_iff)
    moreover have "fmlookup acc j = None" using Cons.prems(2) by (auto simp: fmdom_notD)
    ultimately show ?case using Cons.IH [of "fmupd j v acc"] Cons.prems by auto
  qed simp
  then show ?thesis using assms
    by (intro fmap_ext) (auto simp: visits_def fmdom_notD)
qed

lemma UpdateEndpointsMap_times:
  assumes "endpointSliceCache ect = None" and "visits (ordT_of v) (lastChangeTriggerTimes ect)"
    and "UpdateEndpointsMap x v em ect = Inr (em', ect', res)"
  shows "LastChangeTriggerTimes res = lastChangeTriggerTimes ect"
  using assms(1,3) trigger_times_moved [OF assms(2)]
  by (auto simp: UpdateEndpointsMap_def endpoints_map_apply_def ect_checkoutChanges_def
      checkoutTriggerTimes_def Let_def split: prod.splits)


lemma UpdateEndpointsMap_run:
  assumes run: "endpoints_run x ect0 live ect em" and new: "new_ect ect0"
    and ord: "visits (ord_of v) (ect_items ect)"
  shows "\<exists>em' ect' res. UpdateEndpointsMap x v em ect = Inr (em', ect', res) \<and>
     ect_items ect' = fmempty \<and> lastChangeTriggerTimes ect' = fmempty \<and>
     (\<forall>spn. fmlookup em' spn =
        (case live (NamespacedName_of spn) of None \<Rightarrow> None
         | Some e \<Rightarrow> fmlookup (nilmap (endpoints_entries x ect0 e)) spn))"
proof -
  note good = endpoints_run_good [OF run new]
  have legal: "endpoints_legal v ect" using ord by (simp add: endpoints_legal_def)
  obtain em' res where upd: "UpdateEndpointsMap x v em ect =
      Inr (em', ect\<lparr>ect_items := fmempty, lastChangeTriggerTimes := fmempty\<rparr>, res)"
    using UpdateEndpointsMap_items [OF _ ord, of x em] good by (auto simp: endpoints_good_def)
  have "fmlookup (endpoints_commit x v ect em) spn =
      fmlookup (nilmap (entries_of (endpoints_entries x ect0) (live (NamespacedName_of spn)))) spn"
    for spn
    by (rule eps_tracker.run_sync_exact [OF run [unfolded endpoints_run_def] _ _ legal])
      (use new in \<open>simp_all add: new_ect_def endpoints_good_def same_ect_config_def
        endpoints_pending_def\<close>)
  then have "fmlookup em' spn = (case live (NamespacedName_of spn) of None \<Rightarrow> None
         | Some e \<Rightarrow> fmlookup (nilmap (endpoints_entries x ect0 e)) spn)" for spn
    using upd by (simp add: endpoints_commit_def split: option.split)
  then show ?thesis using upd by simp
qed

lemma live_slices_ok:
  assumes "cache_ok c" and "effective_is c live"
  shows "slices_ok (live nn)"
proof -
  have "proto_ok si" if "effective c nn name = Some si" for name si
  proof -
    obtain tr where tr: "fmlookup (trackerByServiceMap c) nn = Some tr" "effective_slice tr name = Some si"
      using \<open>effective c nn name = Some si\<close> by (auto simp: effective_def split: option.splits)
    then have "slices_ok (applied tr)" "slices_ok (pending tr)"
      using assms(1) by (auto simp: cache_ok_def dest: fmpredD)
    then show ?thesis using tr(2)
      by (auto simp: effective_slice_def slices_ok_def split: option.splits if_splits dest: fmpredD)
  qed
  then show ?thesis using assms(2) by (simp add: slices_ok_def fmpred_iff effective_is_def)
qed

lemma UpdateEndpointsMap_slice_run:
  assumes run: "slice_run x V ect0 live ect em"
    and c0: "endpointSliceCache ect0 = Some c0" "trackerByServiceMap c0 = fmempty"
    and legal: "slices_legal V v ect"
  shows "\<exists>em' ect' res. UpdateEndpointsMap x v em ect = Inr (em', ect', res) \<and>
     (\<forall>nn. \<exists>vs \<in> V. \<exists>m. (\<forall>m. visits (vs m) m) \<and> getEndpointsMap x vs c0 nn (live nn) = Inr m \<and>
        (\<forall>spn. NamespacedName_of spn = nn \<longrightarrow> fmlookup em' spn = fmlookup m spn))"
proof -
  have vs: "vs_of v \<in> V" "\<And>m. visits (vs_of v m) m" using legal by (simp_all add: slices_legal_def)
  have inv: "slice_run_inv x V c0 live ect em" using slice_run_keeps [OF run vs c0] .
  then obtain c where c: "endpointSliceCache ect = Some c" "same_cache_config c0 c" "cache_ok c"
      "effective_is c live" by (auto simp: slice_run_inv_def)
  have ord: "visits (ord_of v) (trackerByServiceMap c)"
    using legal c(1) by (simp add: slices_legal_def)
  obtain changes c' where "cache_checkoutChanges x (vs_of v) (ord_of v) c = Inr (changes, c')"
    using checkout_run [where vs = "vs_of v" and x = x, OF vs(2) c(3) ord] by blast
  then obtain em' ect' res where upd: "UpdateEndpointsMap x v em ect = Inr (em', ect', res)"
    using UpdateEndpointsMap_slices [OF c(1), of x v changes c' em] by blast
  have "em' = endpoints_commit x v ect em" using upd by (simp add: endpoints_commit_def)
  then have "made_from x V c0 nn (live nn) em'" for nn using commit_made [OF inv legal] by simp
  moreover have "getEndpointsMap x vs c0 nn (live nn) = Inr (slices_map x vs c0 nn (live nn))" for vs nn
    using getEndpointsMap_slices_map [OF live_slices_ok [OF c(3,4)] same_cache_config_refl] .
  ultimately show ?thesis using upd unfolding made_from_def by blast
qed

lemma EndpointSliceUpdate_panics:
  "EndpointSliceUpdate x slice remove ect = Inl e \<longleftrightarrow> e = NilDeref \<and>
     (case slice of
        None \<Rightarrow> True
      | Some es \<Rightarrow> slice_supported es \<and>
          (endpointSliceCache ect = None \<or>
           2 \<le> length (es_Ports es) \<and> (\<exists>p \<in> set (es_Ports es). slp_Port p = None)))"
proof (cases slice)
  case None
  then show ?thesis by (auto simp: EndpointSliceUpdate_def)
next
  case (Some es)
  show ?thesis
  proof (cases "slice_supported es \<and> endpointSliceCache ect \<noteq> None")
    case True
    then obtain c where "endpointSliceCache ect = Some c" by blast
    then show ?thesis using True Some updatePending_panics_iff [of c es remove e]
      by (auto simp: EndpointSliceUpdate_def slice_supported_def bindr_Inl_iff Let_def
          split: prod.splits)
  next
    case False
    then show ?thesis using Some
      by (auto simp: EndpointSliceUpdate_def slice_supported_def split: prod.splits)
  qed
qed


section \<open>Concrete objects\<close>

definition web_endpoints :: v1_endpoints where
  "web_endpoints = \<lparr>eps_Namespace = ''shop'', eps_Name = ''web'',
     eps_Annotations = fmupd EndpointsLastChangeTriggerTime ''12345'' fmempty,
     Subsets = [\<lparr>Addresses = [\<lparr>addr_IP = ''10.1.0.5'', NodeName = Some ''node1''\<rparr>],
                 ss_Ports = [\<lparr>ep_Name = ''http'', ep_Port = 8080, ep_Protocol = ''TCP''\<rparr>]\<rparr>]\<rparr>"

definition local_web :: endpoint where
  "local_web = BaseEndpointInfo \<lparr>Endpoint = ''10.1.0.5:8080'', IsLocal = True, Topology = None\<rparr>"

abbreviation web_nn :: namespaced_name where
  "web_nn \<equiv> NamespacedName ''shop'' ''web''"

abbreviation plain_ect :: endpoint_change_tracker where
  "plain_ect \<equiv> NewEndpointChangeTracker ''node1'' None None False"

abbreviation slice_ect :: endpoint_change_tracker where
  "slice_ect \<equiv> NewEndpointChangeTracker ''node1'' None None True"

definition web_orders :: visit_orders where
  "web_orders = \<lparr>vs_of = (\<lambda>m. sorted_list_of_fset (fmdom m)), vo_of = (\<lambda>m. sorted_list_of_fset (fmdom m)),
     ord_of = [web_nn], ordT_of = [web_nn]\<rparr>"

lemma web_entries:
  "endpointsToEndpointsMap simple_ext plain_ect (Some web_endpoints) =
     Some (fmupd web_name [local_web] fmempty)"
proof -
  have "Itoa 8080 = ''8080''" by (simp add: Itoa_eval)
  then show ?thesis
    by (simp add: endpointsToEndpointsMap_def web_endpoints_def add_endpoint_port_def add_address_def
        NewEndpointChangeTracker_def newBaseEndpointInfo_def JoinHostPort_def local_web_def
        web_name_def endpoints_key_def)
qed

definition web_ect :: endpoint_change_tracker where
  "web_ect = plain_ect\<lparr>
     ect_items := fmupd web_nn
       \<lparr>ec_previous = None, ec_current = Some (fmupd web_name [local_web] fmempty)\<rparr> fmempty,
     lastChangeTriggerTimes := fmupd web_nn [5] fmempty\<rparr>"

lemma web_key: "endpoints_key web_endpoints = web_nn"
  by (simp add: endpoints_key_def web_endpoints_def)

lemma plain_new: "new_ect plain_ect"
  by (simp add: new_ect_def NewEndpointChangeTracker_def)

lemma web_time: "getLastChangeTriggerTime simple_ext (eps_Annotations web_endpoints) = 5"
  by (simp add: getLastChangeTriggerTime_def web_endpoints_def simple_ext_def)

lemma web_endpoints_run: "endpoints_run simple_ext plain_ect [web_nn \<mapsto> web_endpoints] web_ect fmempty"
proof -
  have "ect_update simple_ext None (Some web_endpoints) plain_ect = (True, web_ect)"
    using web_entries web_time
    by (simp add: ect_update_def web_key web_ect_def add_trigger_time_def Let_def
        NewEndpointChangeTracker_def endpointsToEndpointsMap_def [of _ _ None])
  from endpoints_run_deliver [OF endpoints_run_start _ this] show ?thesis
    by (simp add: informer_event_def event_key_def live_after_def web_key)
qed

lemma web_ect_visits:
  "visits (ord_of web_orders) (ect_items web_ect)"
  "visits (ordT_of web_orders) (lastChangeTriggerTimes web_ect)"
  by (simp_all add: web_orders_def web_ect_def)

section \<open>Properties\<close>

text \<open>
  C13. Without slices: however the events of the \<open>Endpoints\<close> objects were delivered and grouped,
  \<open>EndpointsMap.Update\<close> does not panic, the map holds exactly the entries of the objects that
  are alive, and neither a change nor a trigger time is left behind.
\<close>

theorem endpoints_map_exact:
  assumes "endpoints_run x ect0 live ect em" and "new_ect ect0"
    and "visits (ord_of v) (ect_items ect)"
  shows "\<exists>em' ect' res. UpdateEndpointsMap x v em ect = Inr (em', ect', res) \<and>
     ect_items ect' = fmempty \<and> lastChangeTriggerTimes ect' = fmempty \<and>
     (\<forall>spn. fmlookup em' spn =
        (case live (NamespacedName_of spn) of None \<Rightarrow> None
         | Some e \<Rightarrow> fmlookup (nilmap (endpoints_entries x ect0 e)) spn))"
  using UpdateEndpointsMap_run [OF assms] .

theorem endpoints_map_exact_witness:
  "\<exists>em' ect' res. UpdateEndpointsMap simple_ext web_orders fmempty web_ect = Inr (em', ect', res) \<and>
     fmlookup em' web_name = Some [local_web]"
proof -
  obtain em' ect' res where "UpdateEndpointsMap simple_ext web_orders fmempty web_ect =
      Inr (em', ect', res)"
    and "\<forall>spn. fmlookup em' spn =
        (case [web_nn \<mapsto> web_endpoints] (NamespacedName_of spn) of None \<Rightarrow> None
         | Some e \<Rightarrow> fmlookup (nilmap (endpoints_entries simple_ext plain_ect e)) spn)"
    using endpoints_map_exact [OF web_endpoints_run plain_new web_ect_visits(1)] by blast
  then show ?thesis
    by (intro exI [of _ em'] exI [of _ ect'] exI [of _ res])
      (simp add: web_name_def endpoints_entries_def web_entries)
qed

text \<open>
  C14. With slices: after any sequence of slice events and syncs the next \<open>Update\<close> does not
  panic and makes the map hold, for every service, exactly what its live slices list, as some
  order of visiting them gives it. Every sync may visit the slices in another order, out of \<open>V\<close>.
\<close>

theorem slice_mode_map_exact:
  assumes "slice_run x V ect0 live ect em"
    and "endpointSliceCache ect0 = Some c0" and "trackerByServiceMap c0 = fmempty"
    and "slices_legal V v ect"
  shows "\<exists>em' ect' res. UpdateEndpointsMap x v em ect = Inr (em', ect', res) \<and>
     (\<forall>nn. \<exists>vs \<in> V. \<exists>m. (\<forall>m. visits (vs m) m) \<and> getEndpointsMap x vs c0 nn (live nn) = Inr m \<and>
        (\<forall>spn. NamespacedName_of spn = nn \<longrightarrow> fmlookup em' spn = fmlookup m spn))"
  using UpdateEndpointsMap_slice_run [OF assms] .

text \<open>
  C33. An update with a slice panics exactly if the slice is nil, or if it is supported and
  either there is no slice cache or it has at least two ports, one of them without a number,
  which the sort of the ports dereferences (a single port is not compared). The nil
  test in the code comes after the first use of the pointer, so it protects nothing.
\<close>

theorem EndpointSliceUpdate_panics_iff:
  "EndpointSliceUpdate x slice remove ect = Inl e \<longleftrightarrow> e = NilDeref \<and>
     (case slice of
        None \<Rightarrow> True
      | Some es \<Rightarrow> slice_supported es \<and>
          (endpointSliceCache ect = None \<or>
           2 \<le> length (es_Ports es) \<and> (\<exists>p \<in> set (es_Ports es). slp_Port p = None)))"
  by (rule EndpointSliceUpdate_panics)

text \<open>
  C35. The trigger times an \<open>Update\<close> reports are those collected since the last one, and each
  belongs to an object with a pending change: events that cancel out report nothing.
\<close>

theorem trigger_times_exact:
  assumes "endpoints_run x ect0 live ect em" and "new_ect ect0"
    and "visits (ordT_of v) (lastChangeTriggerTimes ect)"
    and "UpdateEndpointsMap x v em ect = Inr (em', ect', res)"
  shows "LastChangeTriggerTimes res = lastChangeTriggerTimes ect \<and>
     fmdom (LastChangeTriggerTimes res) |\<subseteq>| fmdom (ect_items ect)"
  using endpoints_run_times [OF assms(1,2)] UpdateEndpointsMap_times [OF _ assms(3,4)]
    endpoints_run_good [OF assms(1,2)] by (simp add: endpoints_good_def)

theorem trigger_times_exact_witness:
  "\<exists>em' ect' res. UpdateEndpointsMap simple_ext web_orders fmempty web_ect = Inr (em', ect', res) \<and>
     LastChangeTriggerTimes res = fmupd web_nn [5] fmempty"
proof -
  obtain em' ect' res where upd: "UpdateEndpointsMap simple_ext web_orders fmempty web_ect =
      Inr (em', ect', res)"
    using UpdateEndpointsMap_run [OF web_endpoints_run plain_new web_ect_visits(1)] by blast
  then show ?thesis
    using trigger_times_exact [OF web_endpoints_run plain_new web_ect_visits(2) upd]
    by (auto simp: web_ect_def)
qed

section \<open>A run with slices\<close>

definition web_slice_cache :: slice_cache where
  "web_slice_cache = empty_slices\<lparr>trackerByServiceMap :=
     fmupd (NamespacedName ''default'' ''web'')
       \<lparr>applied = fmempty, pending = fmupd ''s1'' (web_slice_info [''10.1.0.1'']) fmempty\<rparr> fmempty\<rparr>"

lemma web_slice_run:
  "slice_run simple_ext V slice_ect
     (live_slices_after (\<lambda>_. fmempty) (NamespacedName ''default'' ''web'') ''s1''
        (Some (web_slice_info [''10.1.0.1''])))
     (slice_ect\<lparr>endpointSliceCache := Some web_slice_cache\<rparr>) fmempty"
proof -
  have keys: "endpointSliceCacheKeys (web_slice ''s1'' [''10.1.0.1'']) =
      (NamespacedName ''default'' ''web'', ''s1'', False)"
    by (simp add: endpointSliceCacheKeys_def web_slice_def LabelServiceName_def)
  have info: "newEndpointSliceInfo (web_slice ''s1'' [''10.1.0.1'']) False =
      Inr (web_slice_info [''10.1.0.1''])"
    by (simp add: newEndpointSliceInfo_def sort_ports_def sort_by_address_def web_slice_def
        web_slice_info_def)
  have sup: "slice_supported (web_slice ''s1'' [''10.1.0.1''])"
    by (simp add: slice_supported_def keys supportedEndpointSliceAddressTypes_def
        web_slice_def [THEN arg_cong, of AddressType])
  have cache: "endpointSliceCache slice_ect = Some empty_slices"
    by (simp add: NewEndpointChangeTracker_def empty_slices_def)
  have "updatePending empty_slices (web_slice ''s1'' [''10.1.0.1'']) False =
      Inr (True, web_slice_cache)"
    by (simp add: updatePending_def keys info esInfoChanged_def empty_slices_def
        NewEndpointSliceCache_def newEndpointSliceTracker_def web_slice_cache_def
        web_slice_info_ok)
  then have "EndpointSliceUpdate simple_ext (Some (web_slice ''s1'' [''10.1.0.1''])) False slice_ect =
      Inr (True, slice_ect\<lparr>endpointSliceCache := Some web_slice_cache\<rparr>)"
    using sup by (simp add: EndpointSliceUpdate_def slice_supported_def keys cache
        getLastChangeTriggerTime_def web_slice_def [THEN arg_cong, of es_Annotations])
  from slice_run.deliver [OF slice_run.start sup info web_slice_info_ok(1) keys this]
  show ?thesis by simp
qed

theorem slice_mode_map_exact_witness:
  "\<exists>em' ect' res. UpdateEndpointsMap simple_ext
       (web_orders\<lparr>ord_of := [NamespacedName ''default'' ''web'']\<rparr>) fmempty
       (slice_ect\<lparr>endpointSliceCache := Some web_slice_cache\<rparr>) = Inr (em', ect', res) \<and>
     (\<exists>m. getEndpointsMap simple_ext (\<lambda>m. sorted_list_of_fset (fmdom m)) empty_slices
          (NamespacedName ''default'' ''web'') (fmupd ''s1'' (web_slice_info [''10.1.0.1'']) fmempty) =
          Inr m \<and>
        (\<forall>spn. NamespacedName_of spn = NamespacedName ''default'' ''web'' \<longrightarrow>
           fmlookup em' spn = fmlookup m spn))"
proof -
  have c0: "endpointSliceCache slice_ect = Some empty_slices" "trackerByServiceMap empty_slices = fmempty"
    by (simp_all add: NewEndpointChangeTracker_def empty_slices_def NewEndpointSliceCache_def)
  have legal: "slices_legal {\<lambda>m. sorted_list_of_fset (fmdom m)}
      (web_orders\<lparr>ord_of := [NamespacedName ''default'' ''web'']\<rparr>)
      (slice_ect\<lparr>endpointSliceCache := Some web_slice_cache\<rparr>)"
    by (simp add: slices_legal_def web_orders_def visits_sorted web_slice_cache_def)
  have live: "live_slices_after (\<lambda>_. fmempty) nn ''s1'' (Some si) nn = fmupd ''s1'' si fmempty" for nn si
    by (simp add: live_slices_after_def)
  obtain em' ect' res where upd: "UpdateEndpointsMap simple_ext
       (web_orders\<lparr>ord_of := [NamespacedName ''default'' ''web'']\<rparr>) fmempty
       (slice_ect\<lparr>endpointSliceCache := Some web_slice_cache\<rparr>) = Inr (em', ect', res)"
    and all: "\<forall>nn. \<exists>vs \<in> {\<lambda>m. sorted_list_of_fset (fmdom m)}. \<exists>m. (\<forall>m. visits (vs m) m) \<and>
        getEndpointsMap simple_ext vs empty_slices nn
        (live_slices_after (\<lambda>_. fmempty) (NamespacedName ''default'' ''web'') ''s1''
           (Some (web_slice_info [''10.1.0.1''])) nn) = Inr m \<and>
        (\<forall>spn. NamespacedName_of spn = nn \<longrightarrow> fmlookup em' spn = fmlookup m spn)"
    using slice_mode_map_exact [OF web_slice_run c0 legal] by blast
  show ?thesis
    using upd all [rule_format, of "NamespacedName ''default'' ''web''"] by (auto simp: live)
qed

end
