(* ===== verification/Haproxy_Types.thy ===== *)
theory Haproxy_Types
  imports Prelude Go_Strings
begin

text \<open>
  \<open>haproxy/types.go\<close> and the objects of the HAProxy Data Plane API (\<open>haproxytech/models\<close>) as far
  as the program uses them: backends, frontends, binds and servers, their zero values, and the
  services read back from HAProxy. The fields of a model that the program never sets or reads
  are kept together in an \<open>other\<close> field, the list of those that are not zero, because
  \<open>reflect.DeepEqual\<close> compares them too.
\<close>

section \<open>Constants\<close>

definition BACKEND :: string where
  "BACKEND = ''/v2/services/haproxy/configuration/backends''"

definition FRONTEND :: string where
  "FRONTEND = ''/v2/services/haproxy/configuration/frontends''"

definition SERVER :: string where
  "SERVER = ''/v2/services/haproxy/configuration/servers''"

definition VERSION :: string where
  "VERSION = ''/v2/services/haproxy/configuration/version''"

definition BIND :: string where
  "BIND = ''/v2/services/haproxy/configuration/binds''"

definition OnlyFetch :: string where "OnlyFetch = ''of''"
definition processName :: string where "processName = ''haproxy''"
definition defaultInterface :: string where "defaultInterface = ''eth0''"
definition BACKEND_PREFIX :: string where "BACKEND_PREFIX = ''BACKEND.''"
definition FRONTEND_PREFIX :: string where "FRONTEND_PREFIX = ''FRONTEND.''"
definition BIND_PREFIX :: string where "BIND_PREFIX = ''BIND.''"
definition SERVER_PREFIX :: string where "SERVER_PREFIX = ''POD.''"
definition checkTimeout :: int where "checkTimeout = 1"
definition forwordEnable :: string where "forwordEnable = ''enabled''"

section \<open>Objects\<close>

type_synonym other_fields = "(string \<times> string) list"

record backend =
  bk_Name :: string
  bk_Mode :: string
  Balance :: "string option"
  CheckTimeout :: "int option"
  Httpchk :: "(string \<times> string) option"
  Forwardfor :: "string option"
  bk_other :: other_fields

record frontend =
  fe_Name :: string
  fe_Mode :: string
  DefaultBackend :: string
  fe_other :: other_fields

record bind =
  bd_Name :: string
  bd_Address :: string
  bd_Port :: "int option"
  bd_other :: other_fields

record server =
  Address :: string
  Allow0rtt :: bool
  Backup :: string
  Check :: string
  Cookie :: string
  Inter :: int
  Maintenance :: string
  Maxconn :: int
  srv_Name :: string
  OnError :: string
  OnMarkedDown :: string
  OnMarkedUp :: string
  srv_Port :: int
  SendProxy :: string
  SendProxyV2 :: string
  Ssl :: string
  SslCafile :: string
  SslCertificate :: string
  TLSTickets :: string
  Verify :: string
  Weight :: int

definition zero_backend :: backend where
  "zero_backend = \<lparr>bk_Name = '''', bk_Mode = '''', Balance = None, CheckTimeout = None,
     Httpchk = None, Forwardfor = None, bk_other = []\<rparr>"

definition zero_frontend :: frontend where
  "zero_frontend = \<lparr>fe_Name = '''', fe_Mode = '''', DefaultBackend = '''', fe_other = []\<rparr>"

definition zero_bind :: bind where
  "zero_bind = \<lparr>bd_Name = '''', bd_Address = '''', bd_Port = None, bd_other = []\<rparr>"

definition zero_server :: server where
  "zero_server = \<lparr>Address = '''', Allow0rtt = False, Backup = '''', Check = '''', Cookie = '''',
     Inter = 0, Maintenance = '''', Maxconn = 0, srv_Name = '''', OnError = '''',
     OnMarkedDown = '''', OnMarkedUp = '''', srv_Port = 0, SendProxy = '''', SendProxyV2 = '''',
     Ssl = '''', SslCafile = '''', SslCertificate = '''', TLSTickets = '''', Verify = '''',
     Weight = 0\<rparr>"

record init_info =
  ii_Host :: string
  User :: string
  Passwd :: string
  Dev :: string
  ii_Mode :: string
  IsCheckServer :: bool
  ServerAlgorithm :: string

record haproxy_info =
  hi_Backend :: backend
  hi_Bind :: bind
  hi_Frontend :: frontend

record service =
  s_Name :: string
  s_Backend :: backend
  s_Frontend :: frontend

text \<open>A model with a name is not the zero model.\<close>

lemma zero_names [simp]:
  "bk_Name zero_backend = ''''" "fe_Name zero_frontend = ''''" "bd_Name zero_bind = ''''"
  "srv_Name zero_server = ''''"
  by (simp_all add: zero_backend_def zero_frontend_def zero_bind_def zero_server_def)

lemma named_not_zero:
  "bk_Name b \<noteq> '''' \<Longrightarrow> b \<noteq> zero_backend" "fe_Name f \<noteq> '''' \<Longrightarrow> f \<noteq> zero_frontend"
  "bd_Name d \<noteq> '''' \<Longrightarrow> d \<noteq> zero_bind" "srv_Name s \<noteq> '''' \<Longrightarrow> s \<noteq> zero_server"
  by auto

end
