(* ===== verification/Url.thy ===== *)
theory Url
  imports Go_Strings
begin

text \<open>
  The part of \<open>net/url\<close> and \<open>fmt\<close> with which \<open>haproxy/haproxy.go\<close> builds its request paths:
  \<open>QueryEscape\<close>, and \<open>QueryUnescape\<close> to state what a server reads back. An escaped name is
  free of the characters that structure a URL, and names can be recovered from it.
\<close>

section \<open>Escaping\<close>

definition unreserved :: "char \<Rightarrow> bool" where
  "unreserved c \<longleftrightarrow>
     (let n = of_char c :: nat in
        48 \<le> n \<and> n \<le> 57 \<or> 65 \<le> n \<and> n \<le> 90 \<or> 97 \<le> n \<and> n \<le> 122 \<or>
        c = CHR ''-'' \<or> c = CHR ''_'' \<or> c = CHR ''.'' \<or> c = CHR ''~'')"

definition hex_char :: "nat \<Rightarrow> char" where
  "hex_char d = (if d < 10 then char_of (48 + d) else char_of (55 + d))"

definition unhex :: "char \<Rightarrow> nat option" where
  "unhex c =
     (let n = of_char c :: nat in
        if 48 \<le> n \<and> n \<le> 57 then Some (n - 48)
        else if 65 \<le> n \<and> n \<le> 70 then Some (n - 55)
        else if 97 \<le> n \<and> n \<le> 102 then Some (n - 87)
        else None)"

definition escape_char :: "char \<Rightarrow> string" where
  "escape_char c =
     (if unreserved c then [c]
      else if c = CHR '' '' then ''+''
      else [CHR ''%'', hex_char (of_char c div 16), hex_char (of_char c mod 16)])"

definition QueryEscape :: "string \<Rightarrow> string" where
  "QueryEscape s = concat (map escape_char s)"

text \<open>\<open>None\<close> is an \<open>EscapeError\<close>.\<close>

fun QueryUnescape :: "string \<Rightarrow> string option" where
  "QueryUnescape [] = Some []"
| "QueryUnescape (c # s) =
     (if c = CHR ''%'' then
        (case s of
           h # l # s' \<Rightarrow>
             (case (unhex h, unhex l) of
                (Some a, Some b) \<Rightarrow> map_option ((#) (char_of (16 * a + b))) (QueryUnescape s')
              | _ \<Rightarrow> None)
         | _ \<Rightarrow> None)
      else map_option ((#) (if c = CHR ''+'' then CHR '' '' else c)) (QueryUnescape s))"

section \<open>Lemmas\<close>

lemma of_char_less: "(of_char c :: nat) < 256"
  by simp

lemma unhex_hex: "d < 16 \<Longrightarrow> unhex (hex_char d) = Some d"
  by (simp add: unhex_def hex_char_def Let_def)

lemma unreserved_not: "unreserved c \<Longrightarrow> c \<noteq> CHR ''%'' \<and> c \<noteq> CHR ''+'' \<and> c \<noteq> CHR '' ''"
  by (auto simp: unreserved_def Let_def)

lemma escape_char_unescape:
  "QueryUnescape (escape_char c @ s) = map_option ((#) c) (QueryUnescape s)"
proof -
  have lt: "(of_char c :: nat) < 256" by (rule of_char_less)
  then have "(of_char c :: nat) div 16 < 16" by (simp add: less_mult_imp_div_less)
  then have "unhex (hex_char (of_char c div 16)) = Some (of_char c div 16)"
      "unhex (hex_char (of_char c mod 16)) = Some (of_char c mod 16)"
    by (simp_all add: unhex_hex)
  moreover have "16 * (of_char c div 16) + of_char c mod 16 = (of_char c :: nat)"
    by (rule mult_div_mod_eq)
  then have "char_of (16 * (of_char c div 16) + of_char c mod 16 :: nat) = c" by simp
  ultimately show ?thesis using unreserved_not [of c] by (auto simp: escape_char_def)
qed

lemma QueryUnescape_Escape_append:
  "QueryUnescape (QueryEscape s @ t) = map_option ((@) s) (QueryUnescape t)"
  by (induction s) (simp_all add: QueryEscape_def escape_char_unescape option.map_comp comp_def option.map_ident)

lemma QueryUnescape_Escape: "QueryUnescape (QueryEscape s) = Some s"
  using QueryUnescape_Escape_append [of s "[]"] by simp

lemma QueryEscape_inject: "QueryEscape s = QueryEscape t \<longleftrightarrow> s = t"
  by (metis QueryUnescape_Escape option.inject)

lemma hex_char_cases:
  assumes "d < 16"
  shows "hex_char d \<in> set ''0123456789ABCDEF''"
proof -
  have "d \<in> set [0..<16]" using assms by simp
  moreover have "list_all (\<lambda>d. hex_char d \<in> set ''0123456789ABCDEF'') [0..<16]" by code_simp
  ultimately show ?thesis by (simp add: list_all_iff)
qed

text \<open>An escaped name holds nothing but unreserved characters, plus signs and percent triples.\<close>

lemma QueryEscape_chars:
  assumes "c \<in> set (QueryEscape s)"
  shows "unreserved c \<or> c = CHR ''%'' \<or> c = CHR ''+''"
proof -
  obtain d where d: "c \<in> set (escape_char d)" using assms by (auto simp: QueryEscape_def)
  have "(of_char d :: nat) div 16 < 16" using of_char_less [of d] by (simp add: less_mult_imp_div_less)
  then have "hex_char (of_char d div 16) \<in> set ''0123456789ABCDEF''"
      "hex_char (of_char d mod 16) \<in> set ''0123456789ABCDEF''"
    by (intro hex_char_cases; simp)+
  moreover have "\<forall>h \<in> set ''0123456789ABCDEF''. unreserved h" by (simp add: unreserved_def)
  ultimately show ?thesis using d by (auto simp: escape_char_def split: if_splits)
qed

lemma QueryEscape_no_reserved:
  "CHR ''/'' \<notin> set (QueryEscape s)" "CHR ''?'' \<notin> set (QueryEscape s)"
  "CHR ''&'' \<notin> set (QueryEscape s)" "CHR ''='' \<notin> set (QueryEscape s)"
  "CHR ''#'' \<notin> set (QueryEscape s)" "CHR '' '' \<notin> set (QueryEscape s)"
  by (auto dest!: QueryEscape_chars simp: unreserved_def)

section \<open>Reading a URL back\<close>

text \<open>The path up to the question mark, and the query split at ampersands into pairs.\<close>

definition cut :: "char \<Rightarrow> string \<Rightarrow> string \<times> string" where
  "cut c s = (takeWhile (\<lambda>d. d \<noteq> c) s, drop 1 (dropWhile (\<lambda>d. d \<noteq> c) s))"

fun split_on :: "char \<Rightarrow> string \<Rightarrow> string list" where
  "split_on c [] = [[]]"
| "split_on c (d # s) =
     (if d = c then [] # split_on c s
      else (case split_on c s of [] \<Rightarrow> [[d]] | p # ps \<Rightarrow> (d # p) # ps))"

definition query_param :: "string \<Rightarrow> string \<Rightarrow> string option" where
  "query_param k q =
     (case map_of (map (cut (CHR ''='')) (split_on (CHR ''&'') q)) k of
        None \<Rightarrow> None | Some v \<Rightarrow> QueryUnescape v)"

lemma cut_append: "c \<notin> set a \<Longrightarrow> cut c (a @ c # b) = (a, b)"
  by (induction a) (auto simp: cut_def)

lemma split_on_not_Nil [simp]: "split_on c s \<noteq> []"
  by (induction s) (auto split: list.splits)

lemma split_on_none: "c \<notin> set a \<Longrightarrow> split_on c a = [a]"
  by (induction a) auto

lemma split_on_append: "c \<notin> set a \<Longrightarrow> split_on c (a @ c # b) = a # split_on c b"
  by (induction a) (auto split: list.split)

end
