(* ===== verification/Go_Format.thy ===== *)
theory Go_Format
  imports Go_Strings
begin

text \<open>
  \<open>fmt.Errorf\<close> with a format and no operand, as \<open>haproxy/haproxy.go\<close> calls it with texts that hold
  names: a text without a percent sign is the error as it is, and after a percent sign \<open>fmt\<close>
  looks for a verb, for which there is no operand. The definitions follow \<open>doPrintf\<close> and its
  helpers in \<open>fmt/print.go\<close>, with the number of operands 0.
\<close>

section \<open>Runes\<close>

text \<open>
  The bytes of the first rune of a string, as \<open>utf8.DecodeRuneInString\<close> finds it, and what is
  printed for it: the replacement character for a byte that starts no rune.
\<close>

definition byte_in :: "nat \<Rightarrow> nat \<Rightarrow> char \<Rightarrow> bool" where
  "byte_in lo hi c \<longleftrightarrow> lo \<le> of_char c \<and> of_char c \<le> hi"

definition tail_bytes :: "(nat \<times> nat) list \<Rightarrow> string \<Rightarrow> bool" where
  "tail_bytes bounds s \<longleftrightarrow> length bounds \<le> length s \<and>
     list_all2 (\<lambda>(lo, hi) c. byte_in lo hi c) bounds (take (length bounds) s)"

definition rune_tail :: "char \<Rightarrow> (nat \<times> nat) list option" where
  "rune_tail c =
     (let b = of_char c; t = (128, 191)
      in if b < (128::nat) then Some []
         else if 194 \<le> b \<and> b \<le> 223 then Some [t]
         else if b = 224 then Some [(160, 191), t]
         else if b = 237 then Some [(128, 159), t]
         else if 225 \<le> b \<and> b \<le> 239 then Some [t, t]
         else if b = 240 then Some [(144, 191), t, t]
         else if 241 \<le> b \<and> b \<le> 243 then Some [t, t, t]
         else if b = 244 then Some [(128, 143), t, t]
         else None)"

definition replacement_rune :: string where
  "replacement_rune = [char_of (239::nat), char_of (191::nat), char_of (189::nat)]"

definition decode_rune :: "char \<Rightarrow> string \<Rightarrow> string \<times> string" where
  "decode_rune c s =
     (case rune_tail c of
        None \<Rightarrow> (replacement_rune, s)
      | Some bounds \<Rightarrow>
          if tail_bytes bounds s then (c # take (length bounds) s, drop (length bounds) s)
          else (replacement_rune, s))"

section \<open>Verbs\<close>

text \<open>\<open>parsenum\<close>: whether there is a number, and the rest; a number that is too large ends it all.\<close>

fun parsenum :: "nat \<Rightarrow> bool \<Rightarrow> string \<Rightarrow> bool \<times> string" where
  "parsenum num isnum [] = (isnum, [])"
| "parsenum num isnum (c # s) =
     (if is_digit c then
        if num > 1000000 then (False, [])
        else parsenum (num * 10 + (of_char c - 48)) True s
      else (isnum, c # s))"

text \<open>
  \<open>argNumber\<close> at an opening bracket: the rest, and whether the index is well formed. An index is
  never good, as there is no operand.
\<close>

definition parseArgNumber :: "string \<Rightarrow> bool \<times> string" where
  "parseArgNumber s =
     (if length s < 3 \<or> CHR '']'' \<notin> set (tl s) then (False, tl s)
      else
        let inner = takeWhile (\<lambda>c. c \<noteq> CHR '']'') (tl s)
        in (parsenum 0 False inner = (True, []), drop (length inner + 2) s))"

definition argNumber :: "bool \<Rightarrow> string \<Rightarrow> bool \<times> string \<times> bool" where
  "argNumber good s =
     (case s of
        CHR ''['' # _ \<Rightarrow> let (ok, rest) = parseArgNumber s in (False, rest, ok)
      | _ \<Rightarrow> (good, s, False))"

text \<open>What stands for a verb, and the rest of the format: flags, index, width, precision, verb.\<close>

definition parse_width :: "bool \<Rightarrow> bool \<Rightarrow> string \<Rightarrow> string \<times> bool \<times> string \<times> bool" where
  "parse_width good after s =
     (case s of
        CHR ''*'' # t \<Rightarrow> (''%!(BADWIDTH)'', good, t, False)
      | _ \<Rightarrow> let (n, t) = parsenum 0 False s in ('''', good \<and> \<not> (after \<and> n), t, after))"

definition parse_precision :: "bool \<Rightarrow> bool \<Rightarrow> string \<Rightarrow> string \<times> bool \<times> string \<times> bool" where
  "parse_precision good after s =
     (case s of
        CHR ''.'' # t \<Rightarrow>
          (let (good1, t1, after1) = argNumber (good \<and> \<not> after) t
           in case t1 of
                CHR ''*'' # t2 \<Rightarrow> (''%!(BADPREC)'', good1, t2, False)
              | _ \<Rightarrow> ('''', good1, snd (parsenum 0 False t1), after1))
      | _ \<Rightarrow> ('''', good, s, after))"

definition parse_directive :: "string \<Rightarrow> string \<times> bool \<times> string" where
  "parse_directive s =
     (let (good1, s1, after1) = argNumber True (dropWhile (\<lambda>c. c \<in> set ''#0+- '') s);
          (bad1, good2, s2, after2) = parse_width good1 after1 s1;
          (bad2, good3, s3, after3) = parse_precision good2 after2 s2;
          (good4, s4, _) = (if after3 then (good3, s3, True) else argNumber good3 s3)
      in (bad1 @ bad2, good4, s4))"

definition verb_text :: "bool \<Rightarrow> string \<Rightarrow> string \<times> string" where
  "verb_text good s =
     (case s of
        [] \<Rightarrow> (''%!(NOVERB)'', [])
      | c # t \<Rightarrow>
          let (rune, rest) = decode_rune c t
          in (if c = CHR ''%'' then ''%''
              else ''%!'' @ rune @ (if good then ''(MISSING)'' else ''(BADINDEX)''), rest))"

definition print_verb :: "string \<Rightarrow> string \<times> string" where
  "print_verb s =
     (let (bad, good, t) = parse_directive s; (out, rest) = verb_text good t in (bad @ out, rest))"

text \<open>A verb uses up a part of the format, so the loop ends.\<close>

lemma parsenum_rest: "length (snd (parsenum num isnum s)) \<le> length s"
  by (induction num isnum s rule: parsenum.induct) auto

lemma parseArgNumber_rest: "length (snd (parseArgNumber s)) \<le> length s"
  by (simp add: parseArgNumber_def Let_def)

lemma argNumber_rest: "argNumber good s = (g, t, a) \<Longrightarrow> length t \<le> length s"
  using parseArgNumber_rest [of s]
  by (auto simp: argNumber_def Let_def split: list.splits char.splits bool.splits prod.splits)

lemma parse_width_rest: "parse_width good after s = (b, g, t, a) \<Longrightarrow> length t \<le> length s"
  using parsenum_rest [of 0 False s]
  by (auto simp: parse_width_def Let_def split: list.splits char.splits bool.splits prod.splits)

lemma parse_precision_rest:
  assumes "parse_precision good after s = (b, g, t, a)"
  shows "length t \<le> length s"
proof (cases "\<exists>u. s = CHR ''.'' # u")
  case True
  then obtain u where u: "s = CHR ''.'' # u" by blast
  obtain g1 t1 a1 where 1: "argNumber (good \<and> \<not> after) u = (g1, t1, a1)" by (metis prod_cases3)
  show ?thesis using assms argNumber_rest [OF 1] parsenum_rest [of 0 False t1]
    by (auto simp: parse_precision_def u 1 split: list.splits char.splits bool.splits)
next
  case False
  then show ?thesis using assms
    by (auto simp: parse_precision_def split: list.splits char.splits bool.splits)
qed

lemma decode_rune_rest: "length (snd (decode_rune c s)) \<le> length s"
  by (simp add: decode_rune_def split: option.split)

lemma parse_directive_rest: "parse_directive s = (b, g, t) \<Longrightarrow> length t \<le> length s"
proof -
  assume p: "parse_directive s = (b, g, t)"
  obtain g1 s1 a1 where 1: "argNumber True (dropWhile (\<lambda>c. c \<in> set ''#0+- '') s) = (g1, s1, a1)"
    by (metis prod_cases3)
  obtain b1 g2 s2 a2 where 2: "parse_width g1 a1 s1 = (b1, g2, s2, a2)" by (metis prod_cases4)
  obtain b2 g3 s3 a3 where 3: "parse_precision g2 a2 s2 = (b2, g3, s3, a3)" by (metis prod_cases4)
  obtain g4 s4 a4 where 4: "argNumber g3 s3 = (g4, s4, a4)" by (metis prod_cases3)
  have "t = (if a3 then s3 else s4)"
    using p unfolding parse_directive_def 1 Let_def prod.case 2 3 4 by (simp split: if_splits)
  then show ?thesis
    using argNumber_rest [OF 1] parse_width_rest [OF 2] parse_precision_rest [OF 3] argNumber_rest [OF 4]
      length_dropWhile_le [of "\<lambda>c. c \<in> set ''#0+- ''" s] by simp
qed

lemma verb_text_rest: "length (snd (verb_text good s)) \<le> length s"
  using decode_rune_rest by (auto simp: verb_text_def le_SucI split: list.split prod.split) (metis le_SucI snd_conv)

lemma print_verb_rest: "length (snd (print_verb s)) \<le> length s"
proof -
  obtain b g t where d: "parse_directive s = (b, g, t)" by (metis prod_cases3)
  show ?thesis using parse_directive_rest [OF d] verb_text_rest [of g t]
    by (auto simp: print_verb_def d split: prod.split)
qed

section \<open>The text of an error\<close>

function Errorf :: "string \<Rightarrow> string" where
  "Errorf s =
     (case dropWhile (\<lambda>c. c \<noteq> CHR ''%'') s of
        [] \<Rightarrow> s
      | _ # t \<Rightarrow> takeWhile (\<lambda>c. c \<noteq> CHR ''%'') s @ fst (print_verb t) @ Errorf (snd (print_verb t)))"
  by pat_completeness auto

termination
proof (relation "measure length")
  fix s c t assume "dropWhile (\<lambda>c. c \<noteq> CHR ''%'') s = c # t"
  then have "Suc (length t) \<le> length s" using length_dropWhile_le [of "\<lambda>c. c \<noteq> CHR ''%''" s] by simp
  then show "(snd (print_verb t), s) \<in> measure length" using print_verb_rest [of t] by simp
qed simp

declare Errorf.simps [simp del]

lemma Errorf_plain: "CHR ''%'' \<notin> set s \<Longrightarrow> Errorf s = s"
proof -
  assume "CHR ''%'' \<notin> set s"
  then have none: "dropWhile (\<lambda>c. c \<noteq> CHR ''%'') s = []" by (auto simp: dropWhile_eq_Nil_conv)
  show ?thesis by (subst Errorf.simps, simp only: none list.case)
qed

lemmas verb_defs = print_verb_def parse_directive_def argNumber_def parse_width_def
  parse_precision_def verb_text_def decode_rune_def rune_tail_def tail_bytes_def is_digit_def

lemma Errorf_prefix:
  assumes "CHR ''%'' \<notin> set s"
  shows "Errorf (s @ CHR ''%'' # t) = s @ fst (print_verb t) @ Errorf (snd (print_verb t))"
proof -
  have "dropWhile (\<lambda>c. c \<noteq> CHR ''%'') (s @ CHR ''%'' # t) = CHR ''%'' # t"
    "takeWhile (\<lambda>c. c \<noteq> CHR ''%'') (s @ CHR ''%'' # t) = s"
    using assms by (induction s) auto
  then show ?thesis by (subst Errorf.simps) simp
qed

end
