(* ===== verification/Haproxy_Client.thy ===== *)
theory Haproxy_Client
  imports Haproxy_Types Url Go_Format
begin

text \<open>
  \<open>haproxy/haproxy.go\<close>: the client of the HAProxy Data Plane API. Every operation builds a URL,
  sends one request (the changing ones first ask for the configuration version) and
  classifies the answer.

  The REST client (\<open>gorest\<close>), the JSON codec (\<open>json-iterator\<close>) and the server at the other end
  are not part of the repository: they are the fields of \<open>rest_env\<close>, with \<open>'b\<close> the type of a
  body and \<open>'w\<close> the state of everything outside. Each operation takes such a state and returns
  the next one. Locking, logging, \<open>fmt.Println\<close> and the credentials are left out.
\<close>

section \<open>Requests and responses\<close>

datatype http_method = GET | POST | PUT | DELETE

record 'b request =
  Method :: http_method
  Path :: string
  ReqBody :: "'b option"

record 'b response =
  Err :: "string option"
  Code :: int
  Body :: 'b

text \<open>
  A decoder returns an error message or a value. \<open>decode_servers\<close> returns also what it
  had decoded before an error, because one caller uses it; the elements of the lists of
  backends and frontends are pointers.
\<close>

record ('b, 'w) rest_env =
  send :: "'b request \<Rightarrow> 'w \<Rightarrow> 'b response \<times> 'w"
  body_text :: "'b \<Rightarrow> string"
  raw_nil :: 'b
  decode_raw :: "'b \<Rightarrow> string + (string, 'b) fmap"
  decode_backend :: "'b \<Rightarrow> string + backend"
  decode_backends :: "'b \<Rightarrow> string + backend option list"
  decode_frontend :: "'b \<Rightarrow> string + frontend"
  decode_frontends :: "'b \<Rightarrow> string + frontend option list"
  decode_server :: "'b \<Rightarrow> string + server"
  decode_servers :: "'b \<Rightarrow> server list \<times> string option"
  decode_bind :: "'b \<Rightarrow> string + bind"
  decode_bind_lists :: "'b \<Rightarrow> (string, bind list) fmap"
  encode_backend :: "backend \<Rightarrow> string + 'b"
  encode_frontend :: "frontend \<Rightarrow> string + 'b"
  encode_server :: "server \<Rightarrow> string + 'b"
  encode_bind :: "bind \<Rightarrow> string + 'b"

text \<open>A call \<open>h.request.Path(url).<Method>().Body(body).Do(...)\<close>.\<close>

definition call ::
    "('b, 'w) rest_env \<Rightarrow> http_method \<Rightarrow> string \<Rightarrow> 'b option \<Rightarrow> 'w \<Rightarrow> 'b response \<times> 'w" where
  "call env m url body w = send env \<lparr>Method = m, Path = url, ReqBody = body\<rparr> w"

section \<open>The answer of the server\<close>

text \<open>
  \<open>handleError\<close> switches on the type of its second argument. Every payload reaches it as a
  pointer, which none of the cases matches, so that the messages of these calls are empty;
  names reach it as strings. In the case of a bind \<open>log400\<close> has one verb for two operands, so
  \<open>Sprintf\<close> adds a note on the surplus one. The texts become errors by \<open>fmt.Errorf\<close>, which reads
  them as formats (\<open>Errorf\<close>): a percent sign in a name, or in that note, stands for a verb.
\<close>

datatype handled =
    HString string
  | HBind bind
  | HFrontend frontend
  | HBackend backend
  | HServer server
  | HPointer

record log_texts =
  log201 :: string
  log204 :: string
  log400 :: string
  log404 :: string
  log409 :: string

definition no_texts :: log_texts where
  "no_texts = \<lparr>log201 = '''', log204 = '''', log400 = '''', log404 = '''', log409 = ''''\<rparr>"

definition texts_of :: "handled \<Rightarrow> log_texts" where
  "texts_of res =
     (case res of
        HString s \<Rightarrow> no_texts\<lparr>
          log204 := ''The resource '' @ s @ '' deleted.\<newline>'',
          log404 := ''The specified resource '' @ s @ '' was not found\<newline>''\<rparr>
      | HBind p \<Rightarrow> no_texts\<lparr>
          log201 := ''The resource '' @ bd_Name p @ '' created\<newline>'',
          log400 := ''Bad request bind: bind\<newline>%!(EXTRA string='' @ bd_Name p @ '')'',
          log404 := ''The specified resource '' @ bd_Name p @ '' was not found \<newline>'',
          log409 := ''The specified resource '' @ bd_Name p @ '' already exists.\<newline>''\<rparr>
      | HFrontend p \<Rightarrow> no_texts\<lparr>
          log201 := ''The resource '' @ fe_Name p @ '' created\<newline>'',
          log400 := ''Bad request frontend: '' @ fe_Name p @ ''\<newline>'',
          log404 := ''The specified resource was not found '' @ fe_Name p @ ''\<newline>'',
          log409 := ''The specified resource '' @ fe_Name p @ '' already exists.\<newline>''\<rparr>
      | HBackend p \<Rightarrow> no_texts\<lparr>
          log201 := ''The resource '' @ bk_Name p @ '' created\<newline>'',
          log400 := ''Bad request backend: '' @ bk_Name p @ ''\<newline>'',
          log404 := ''The specified resource was not found '' @ bk_Name p @ ''\<newline>'',
          log409 := ''The specified resource '' @ bk_Name p @ '' already exists.\<newline>''\<rparr>
      | HServer p \<Rightarrow> no_texts\<lparr>
          log201 := ''The resource '' @ srv_Name p @ '' created\<newline>'',
          log400 := ''Bad request server: '' @ srv_Name p @ ''\<newline>'',
          log404 := ''The specified resource was not found '' @ srv_Name p @ ''\<newline>'',
          log409 := ''The specified resource '' @ srv_Name p @ '' already exists.\<newline>''\<rparr>
      | HPointer \<Rightarrow> no_texts)"

text \<open>The result is the pair of the Go function, with the message as the error.\<close>

definition handleError ::
    "('b, 'w) rest_env \<Rightarrow> 'b response \<Rightarrow> handled \<Rightarrow> bool \<times> string option" where
  "handleError env resp res =
     (case Err resp of
        Some e \<Rightarrow> (False, Some e)
      | None \<Rightarrow>
          let t = texts_of res in
          if Code resp = 0 then (True, None)
          else if Code resp = 200 then (True, None)
          else if Code resp = 201 then (True, None)
          else if Code resp = 202 then (True, None)
          else if Code resp = 204 then (True, Some (Errorf (log204 t)))
          else if Code resp = 400 then (False, Some (Errorf (log400 t)))
          else if Code resp = 404 then (False, Some (Errorf (log404 t)))
          else if Code resp = 409 then (True, Some (Errorf (log409 t)))
          else (False, Some (''Unkown error, '' @ body_text env (Body resp))))"

definition getVersion :: "('b, 'w) rest_env \<Rightarrow> 'w \<Rightarrow> int \<times> 'w" where
  "getVersion env w =
     (let (resp, w1) = call env GET VERSION None w
      in (case Err resp of
            Some _ \<Rightarrow> -1
          | None \<Rightarrow> fst (Atoi (TrimSpace (body_text env (Body resp)))), w1))"


section \<open>Operations that do not change the configuration\<close>

definition EnsureHaproxy :: "'w \<Rightarrow> bool \<times> 'w" where
  "EnsureHaproxy w = (True, w)"

definition EnsureFrontendBind ::
    "('b, 'w) rest_env \<Rightarrow> string \<Rightarrow> string \<Rightarrow> 'w \<Rightarrow> bool \<times> 'w" where
  "EnsureFrontendBind env bindName frontendName w =
     (let url = BIND @ ''/'' @ QueryEscape bindName @ ''?parent_type=frontend&parent_name='' @
                QueryEscape frontendName;
          (resp, w1) = call env GET url None w
      in (case Err resp of
            Some _ \<Rightarrow> False
          | None \<Rightarrow> (case fmlookup (decode_bind_lists env (Body resp)) ''data'' of
                       Some l \<Rightarrow> length l = 0 | None \<Rightarrow> True), w1))"

definition EnsureBackend :: "('b, 'w) rest_env \<Rightarrow> string \<Rightarrow> 'w \<Rightarrow> bool \<times> 'w" where
  "EnsureBackend env backendName w =
     (let (resp, w1) = call env GET (BACKEND @ ''/'' @ QueryEscape backendName) None w
      in (fst (handleError env resp (HString backendName)), w1))"

definition EnsureFrontend :: "('b, 'w) rest_env \<Rightarrow> string \<Rightarrow> 'w \<Rightarrow> bool \<times> 'w" where
  "EnsureFrontend env frontendName w =
     (let (resp, w1) = call env GET (FRONTEND @ ''/'' @ QueryEscape frontendName) None w
      in (fst (handleError env resp (HString frontendName)), w1))"

text \<open>
  The format of \<open>EnsureServer\<close> has three verbs for four operands: the backend name meets \<open>%d\<close>
  and the version is left over. What \<open>Sprintf\<close> makes of that is written out.
\<close>

definition EnsureServer :: "('b, 'w) rest_env \<Rightarrow> string \<Rightarrow> string \<Rightarrow> 'w \<Rightarrow> bool \<times> 'w" where
  "EnsureServer env serverName backendName w =
     (let (v, w1) = getVersion env w;
          url = SERVER @ ''/'' @ QueryEscape serverName @ ''?version=%!d(string='' @
                QueryEscape backendName @ '')%!(EXTRA int='' @ Itoa v @ '')'';
          (resp, w2) = call env GET url None w1
      in (fst (handleError env resp (HString (backendName @ '':'' @ serverName))), w2))"

definition ensureOneBind ::
    "('b, 'w) rest_env \<Rightarrow> string \<Rightarrow> string \<Rightarrow> 'w \<Rightarrow> (bool \<times> string option) \<times> 'w" where
  "ensureOneBind env bindName frontendName w =
     (let (v, w1) = getVersion env w;
          url = BIND @ ''/'' @ QueryEscape bindName @ ''?parent_type=frontend&frontend='' @
                QueryEscape frontendName @ ''&version='' @ Itoa v;
          (resp, w2) = call env GET url None w1
      in (handleError env resp (HString bindName), w2))"

text \<open>Two decodings: the body into raw fields, its \<open>data\<close> field into the object.\<close>

definition decode_data ::
    "('b, 'w) rest_env \<Rightarrow> ('b \<Rightarrow> string + 'a) \<Rightarrow> 'b response \<Rightarrow> 'a option" where
  "decode_data env dec resp =
     (case Err resp of
        Some _ \<Rightarrow> None
      | None \<Rightarrow>
          (case decode_raw env (Body resp) of
             Inl _ \<Rightarrow> None
           | Inr raw \<Rightarrow>
               (case dec (case fmlookup raw ''data'' of Some b \<Rightarrow> b | None \<Rightarrow> raw_nil env) of
                  Inl _ \<Rightarrow> None
                | Inr a \<Rightarrow> Some a)))"

definition GetBackend :: "('b, 'w) rest_env \<Rightarrow> string \<Rightarrow> 'w \<Rightarrow> backend \<times> 'w" where
  "GetBackend env backendName w =
     (let (resp, w1) = call env GET (BACKEND @ ''/'' @ QueryEscape backendName) None w
      in (case decode_data env (decode_backend env) resp of
            Some b \<Rightarrow> b | None \<Rightarrow> zero_backend, w1))"

definition GetBackends :: "('b, 'w) rest_env \<Rightarrow> 'w \<Rightarrow> backend option list \<times> 'w" where
  "GetBackends env w =
     (let (resp, w1) = call env GET BACKEND None w
      in (case decode_data env (decode_backends env) resp of Some bs \<Rightarrow> bs | None \<Rightarrow> [], w1))"

definition GetFrontend :: "('b, 'w) rest_env \<Rightarrow> string \<Rightarrow> 'w \<Rightarrow> frontend \<times> 'w" where
  "GetFrontend env frontendName w =
     (let (resp, w1) = call env GET (FRONTEND @ ''/'' @ QueryEscape frontendName) None w
      in (case decode_data env (decode_frontend env) resp of
            Some f \<Rightarrow> f | None \<Rightarrow> zero_frontend, w1))"

definition GetFrontends :: "('b, 'w) rest_env \<Rightarrow> 'w \<Rightarrow> frontend option list \<times> 'w" where
  "GetFrontends env w =
     (let (resp, w1) = call env GET FRONTEND None w
      in (case decode_data env (decode_frontends env) resp of Some fs \<Rightarrow> fs | None \<Rightarrow> [], w1))"

text \<open>
  \<open>GetServices\<close> pairs every frontend except \<open>stats\<close> with its default backend. The pointers are
  dereferenced. The name is the frontend's with all leading and trailing characters of
  \<open>FRONTEND.\<close> trimmed off.
\<close>

definition backends_by_name :: "backend option list \<Rightarrow> (string, backend) fmap result" where
  "backends_by_name bs =
     foldr_r (\<lambda>m item. case item of
                None \<Rightarrow> Inl NilDeref | Some b \<Rightarrow> Inr (fmupd (bk_Name b) b m)) fmempty bs"

definition service_of :: "(string, backend) fmap \<Rightarrow> frontend \<Rightarrow> service" where
  "service_of bs f =
     \<lparr>s_Name = Trim (fe_Name f) ''FRONTEND.'',
      s_Backend = (case fmlookup bs (DefaultBackend f) of Some b \<Rightarrow> b | None \<Rightarrow> zero_backend),
      s_Frontend = f\<rparr>"

definition services_of :: "(string, backend) fmap \<Rightarrow> frontend option list \<Rightarrow> service list result" where
  "services_of bs fs =
     foldr_r (\<lambda>services item. case item of
                None \<Rightarrow> Inl NilDeref
              | Some f \<Rightarrow> Inr (if fe_Name f = ''stats'' then services
                              else services @ [service_of bs f])) [] fs"

definition GetServices :: "('b, 'w) rest_env \<Rightarrow> 'w \<Rightarrow> (service list \<times> 'w) result" where
  "GetServices env w =
     (let (backends, w1) = GetBackends env w;
          (frontends, w2) = GetFrontends env w1
      in if length frontends = 0 \<or> length backends = 0 then Inr ([], w2)
         else bindr (backends_by_name backends) (\<lambda>bs.
              bindr (services_of bs frontends) (\<lambda>ss. Inr (ss, w2))))"

text \<open>After an error in the list itself \<open>GetServers\<close> returns what was decoded before it.\<close>

definition GetServers :: "('b, 'w) rest_env \<Rightarrow> string \<Rightarrow> 'w \<Rightarrow> server list \<times> 'w" where
  "GetServers env backendName w =
     (let url = SERVER @ ''?parent_type=backend&parent_name='' @ QueryEscape backendName;
          (resp, w1) = call env GET url None w
      in (case Err resp of
            Some _ \<Rightarrow> []
          | None \<Rightarrow>
              (case decode_raw env (Body resp) of
                 Inl _ \<Rightarrow> []
               | Inr raw \<Rightarrow> fst (decode_servers env
                   (case fmlookup raw ''data'' of Some b \<Rightarrow> b | None \<Rightarrow> raw_nil env))), w1))"

definition GetServer :: "('b, 'w) rest_env \<Rightarrow> string \<Rightarrow> string \<Rightarrow> 'w \<Rightarrow> server \<times> 'w" where
  "GetServer env backendName srvName w =
     (let url = SERVER @ ''/'' @ srvName @ ''?parent_type=backend&parent_name='' @
                QueryEscape backendName;
          (resp, w1) = call env GET url None w
      in (case decode_data env (decode_server env) resp of
            Some s \<Rightarrow> s | None \<Rightarrow> zero_server, w1))"

definition GetBind :: "('b, 'w) rest_env \<Rightarrow> string \<Rightarrow> string \<Rightarrow> 'w \<Rightarrow> bind \<times> 'w" where
  "GetBind env bindName frontName w =
     (let url = BIND @ ''/'' @ QueryEscape bindName @ ''?parent_type=frontend&frontend='' @
                QueryEscape frontName;
          (resp, w1) = call env GET url None w
      in (case decode_data env (decode_bind env) resp of
            Some b \<Rightarrow> b | None \<Rightarrow> zero_bind, w1))"

section \<open>Operations that change the configuration\<close>

text \<open>
  Each asks for the version, encodes its payload where it has one (a payload that cannot be
  encoded ends the operation without a request), and sends one request.
\<close>

definition AddBackend ::
    "('b, 'w) rest_env \<Rightarrow> backend \<Rightarrow> 'w \<Rightarrow> (bool \<times> string option) \<times> 'w" where
  "AddBackend env payload w =
     (let (v, w1) = getVersion env w;
          url = BACKEND @ ''?version='' @ Itoa v
      in case encode_backend env payload of
           Inl err \<Rightarrow> ((False, Some err), w1)
         | Inr body \<Rightarrow>
             (let (resp, w2) = call env POST url (Some body) w1
              in (handleError env resp HPointer, w2)))"

definition DeleteBackend :: "('b, 'w) rest_env \<Rightarrow> string \<Rightarrow> 'w \<Rightarrow> bool \<times> 'w" where
  "DeleteBackend env backendName w =
     (let (v, w1) = getVersion env w;
          url = BACKEND @ ''/'' @ QueryEscape backendName @ ''?version='' @ Itoa v;
          (resp, w2) = call env DELETE url None w1
      in (fst (handleError env resp (HString backendName)), w2))"

text \<open>The URL is that of the servers, as in the code.\<close>

definition ReplaceBackend ::
    "('b, 'w) rest_env \<Rightarrow> string \<Rightarrow> backend \<Rightarrow> 'w \<Rightarrow> (bool \<times> string option) \<times> 'w" where
  "ReplaceBackend env oldName new w =
     (let (v, w1) = getVersion env w;
          url = SERVER @ ''/'' @ QueryEscape oldName @ ''?version='' @ Itoa v
      in case encode_backend env new of
           Inl err \<Rightarrow> ((False, Some err), w1)
         | Inr body \<Rightarrow>
             (let (resp, w2) = call env PUT url (Some body) w1
              in (handleError env resp HPointer, w2)))"

definition DeleteFrontend :: "('b, 'w) rest_env \<Rightarrow> string \<Rightarrow> 'w \<Rightarrow> bool \<times> 'w" where
  "DeleteFrontend env frontendName w =
     (let (v, w1) = getVersion env w;
          url = FRONTEND @ ''/'' @ QueryEscape frontendName @ ''?version='' @ Itoa v;
          (resp, w2) = call env DELETE url None w1
      in (fst (handleError env resp (HString frontendName)), w2))"

definition AddFrontend ::
    "('b, 'w) rest_env \<Rightarrow> frontend \<Rightarrow> 'w \<Rightarrow> (bool \<times> string option) \<times> 'w" where
  "AddFrontend env payload w =
     (let (v, w1) = getVersion env w;
          url = FRONTEND @ ''?version='' @ Itoa v
      in case encode_frontend env payload of
           Inl err \<Rightarrow> ((False, Some err), w1)
         | Inr body \<Rightarrow>
             (let (resp, w2) = call env POST url (Some body) w1
              in (handleError env resp HPointer, w2)))"

text \<open>The method is \<open>POST\<close>, as in the code.\<close>

definition ReplaceFrontend ::
    "('b, 'w) rest_env \<Rightarrow> frontend \<Rightarrow> frontend \<Rightarrow> 'w \<Rightarrow> (bool \<times> string option) \<times> 'w" where
  "ReplaceFrontend env old new w =
     (let (v, w1) = getVersion env w;
          url = FRONTEND @ ''/'' @ QueryEscape (fe_Name old) @ ''?version='' @ Itoa v
      in case encode_frontend env new of
           Inl err \<Rightarrow> ((False, Some err), w1)
         | Inr body \<Rightarrow>
             (let (resp, w2) = call env POST url (Some body) w1
              in (handleError env resp HPointer, w2)))"


definition AddServerToBackend ::
    "('b, 'w) rest_env \<Rightarrow> server \<Rightarrow> string \<Rightarrow> 'w \<Rightarrow> (bool \<times> string option) \<times> 'w" where
  "AddServerToBackend env payload backendName w =
     (let (v, w1) = getVersion env w;
          url = SERVER @ ''?parent_type=backend&parent_name='' @ QueryEscape backendName @
                ''&version='' @ Itoa v
      in case encode_server env payload of
           Inl err \<Rightarrow> ((False, Some err), w1)
         | Inr body \<Rightarrow>
             (let (resp, w2) = call env POST url (Some body) w1
              in (handleError env resp HPointer, w2)))"

text \<open>The name of the server is not escaped here, nor in \<open>GetServer\<close>.\<close>

definition DeleteServerFromBackend ::
    "('b, 'w) rest_env \<Rightarrow> string \<Rightarrow> string \<Rightarrow> 'w \<Rightarrow> (bool \<times> string option) \<times> 'w" where
  "DeleteServerFromBackend env serverName backendName w =
     (let (v, w1) = getVersion env w;
          url = SERVER @ ''/'' @ serverName @ ''?parent_type=backend&parent_name='' @
                QueryEscape backendName @ ''&version='' @ Itoa v;
          (resp, w2) = call env DELETE url None w1
      in (handleError env resp (HString serverName), w2))"

definition replaceServerFromBackend ::
    "('b, 'w) rest_env \<Rightarrow> server \<Rightarrow> server \<Rightarrow> string \<Rightarrow> 'w \<Rightarrow> (bool \<times> string option) \<times> 'w" where
  "replaceServerFromBackend env old new backendName w =
     (let (v, w1) = getVersion env w;
          url = SERVER @ ''/'' @ QueryEscape (srv_Name old) @ ''?parent_type=backend&parent_name='' @
                QueryEscape backendName @ ''&version='' @ Itoa v
      in case encode_server env new of
           Inl err \<Rightarrow> ((False, Some err), w1)
         | Inr body \<Rightarrow>
             (let (resp, w2) = call env PUT url (Some body) w1
              in (handleError env resp HPointer, w2)))"

definition unbindFrontend ::
    "('b, 'w) rest_env \<Rightarrow> string \<Rightarrow> 'w \<Rightarrow> (bool \<times> string option) \<times> 'w" where
  "unbindFrontend env bindName w =
     (let (v, w1) = getVersion env w;
          url = BIND @ ''?parent_type=frontend&parent_name='' @ QueryEscape bindName @
                ''&version='' @ Itoa v;
          (resp, w2) = call env DELETE url None w1
      in (handleError env resp (HString bindName), w2))"

definition AddBind ::
    "('b, 'w) rest_env \<Rightarrow> bind \<Rightarrow> string \<Rightarrow> 'w \<Rightarrow> (bool \<times> string option) \<times> 'w" where
  "AddBind env payload frontendName w =
     (let (v, w1) = getVersion env w;
          url = BIND @ ''?parent_type=frontend&frontend='' @ QueryEscape frontendName @
                ''&version='' @ Itoa v
      in case encode_bind env payload of
           Inl err \<Rightarrow> ((False, Some err), w1)
         | Inr body \<Rightarrow>
             (let (resp, w2) = call env POST url (Some body) w1
              in (handleError env resp HPointer, w2)))"

definition DeleteBind ::
    "('b, 'w) rest_env \<Rightarrow> string \<Rightarrow> string \<Rightarrow> 'w \<Rightarrow> (bool \<times> string option) \<times> 'w" where
  "DeleteBind env bindName frontendName w =
     (let (v, w1) = getVersion env w;
          url = BIND @ ''/'' @ QueryEscape bindName @ ''?parent_type=frontend&frontend='' @
                QueryEscape frontendName @ ''&version='' @ Itoa v;
          (resp, w2) = call env DELETE url None w1
      in (handleError env resp (HString bindName), w2))"

definition replaceBind ::
    "('b, 'w) rest_env \<Rightarrow> string \<Rightarrow> string \<Rightarrow> bind \<Rightarrow> 'w \<Rightarrow> (bool \<times> string option) \<times> 'w" where
  "replaceBind env oldName frontendName new w =
     (let (v, w1) = getVersion env w;
          url = BIND @ ''/'' @ QueryEscape oldName @ ''?parent_type=frontend&frontend='' @
                QueryEscape frontendName @ ''&version='' @ Itoa v
      in case encode_bind env new of
           Inl err \<Rightarrow> ((False, Some err), w1)
         | Inr body \<Rightarrow>
             (let (resp, w2) = call env PUT url (Some body) w1
              in (handleError env resp HPointer, w2)))"

section \<open>The handle, ports and addresses\<close>

record haproxy_handle =
  localAddr :: string
  requestHost :: string
  h_mode :: string

text \<open>The request gets the host as given, the local address a default.\<close>

definition NewHaproxyHandle :: "init_info \<Rightarrow> haproxy_handle" where
  "NewHaproxyHandle h =
     \<lparr>localAddr = (if ii_Host h = '''' then ''127.0.0.1:5555'' else ii_Host h),
      requestHost = ii_Host h,
      h_mode = (if ii_Mode h = '''' then OnlyFetch else ii_Mode h)\<rparr>"

text \<open>
  The outcome of \<open>net.DialTimeout\<close>: a connection, an \<open>*net.OpError\<close> with its message and whether
  it is a timeout, or another error; for the last the code calls \<open>Timeout\<close> on a nil
  pointer.
\<close>

datatype dial_result = DialConn | DialOpError string bool | DialOtherError

definition checkPortIsAvailable ::
    "(string \<Rightarrow> string \<Rightarrow> 'w \<Rightarrow> dial_result \<times> 'w) \<Rightarrow> haproxy_handle \<Rightarrow> string \<Rightarrow> int \<Rightarrow> 'w \<Rightarrow>
     (bool \<times> 'w) result" where
  "checkPortIsAvailable dial h protocol port w =
     (let (r, w1) = dial protocol (JoinHostPort (localAddr h) (Itoa port)) w
      in case r of
           DialConn \<Rightarrow> Inr (False, w1)
         | DialOpError msg _ \<Rightarrow> Inr (Contains msg ''refused'', w1)
         | DialOtherError \<Rightarrow> Inl NilDeref)"

text \<open>
  \<open>GetLocalAddr\<close>. An interface address that is an \<open>*net.IPNet\<close> holds an IP, given here by its
  IPv4 form, if it has one; any other address fails the type assertion.
\<close>

datatype if_addr = IPNet "nat list option" | OtherAddr

datatype addr_panic = TypeAssertion

fun first_ipv4 :: "if_addr list \<Rightarrow> addr_panic + nat list option" where
  "first_ipv4 [] = Inr None"
| "first_ipv4 (OtherAddr # as) = Inl TypeAssertion"
| "first_ipv4 (IPNet (Some ip) # as) = Inr (Some ip)"
| "first_ipv4 (IPNet None # as) = first_ipv4 as"

definition GetLocalAddr ::
    "(string \<Rightarrow> string + (string + if_addr list)) \<Rightarrow> string \<Rightarrow>
     addr_panic + (nat list option \<times> string option)" where
  "GetLocalAddr interfaceByName dev =
     (case interfaceByName dev of
        Inl err \<Rightarrow> Inr (None, Some err)
      | Inr (Inl err) \<Rightarrow> Inr (None, Some err)
      | Inr (Inr addrs) \<Rightarrow>
          (case first_ipv4 addrs of
             Inl p \<Rightarrow> Inl p
           | Inr None \<Rightarrow> Inr (Some [], Some (''interface '' @ dev @ '' don'' @ [CHR 0x27] @
                           ''t have an ipv4 address\<newline>''))
           | Inr (Some ip) \<Rightarrow> Inr (Some ip, None)))"

text \<open>The names of the running processes, each of which may fail to be read.\<close>

fun any_process :: "string \<Rightarrow> string option list \<Rightarrow> bool" where
  "any_process n [] = False"
| "any_process n (None # ps) = False"
| "any_process n (Some p # ps) = (Contains p n \<or> any_process n ps)"

definition getProcessByName :: "string option list option \<Rightarrow> string \<Rightarrow> bool" where
  "getProcessByName processes name =
     (case processes of None \<Rightarrow> False | Some ps \<Rightarrow> any_process name ps)"


section \<open>Lemmas\<close>

lemma handleError_fst:
  "fst (handleError env resp res) \<longleftrightarrow>
     Err resp = None \<and> Code resp \<in> {0, 200, 201, 202, 204, 409}"
  by (auto simp: handleError_def Let_def split: option.split)

lemma handleError_snd:
  "snd (handleError env resp res) = None \<longleftrightarrow>
     Err resp = None \<and> Code resp \<in> {0, 200, 201, 202}"
  by (auto simp: handleError_def Let_def split: option.split)

lemma handleError_ok:
  "Err resp = None \<Longrightarrow> Code resp \<in> {0, 200, 201, 202} \<Longrightarrow> handleError env resp res = (True, None)"
  by (auto simp: handleError_def)

lemma handleError_code:
  "Err resp = Some e \<Longrightarrow> handleError env resp res = (False, Some e)"
  "Err resp = None \<Longrightarrow> Code resp = 204 \<Longrightarrow> handleError env resp res = (True, Some (Errorf (log204 (texts_of res))))"
  "Err resp = None \<Longrightarrow> Code resp = 400 \<Longrightarrow> handleError env resp res = (False, Some (Errorf (log400 (texts_of res))))"
  "Err resp = None \<Longrightarrow> Code resp = 404 \<Longrightarrow> handleError env resp res = (False, Some (Errorf (log404 (texts_of res))))"
  "Err resp = None \<Longrightarrow> Code resp = 409 \<Longrightarrow> handleError env resp res = (True, Some (Errorf (log409 (texts_of res))))"
  "Err resp = None \<Longrightarrow> Code resp \<notin> {0, 200, 201, 202, 204, 400, 404, 409} \<Longrightarrow>
     handleError env resp res = (False, Some (''Unkown error, '' @ body_text env (Body resp)))"
  by (simp_all add: handleError_def)

lemma services_of_names:
  "services_of bs (map Some fs) = Inr (map (service_of bs) (filter (\<lambda>f. fe_Name f \<noteq> ''stats'') fs))"
proof -
  have "foldr_r (\<lambda>services item. case item of
                None \<Rightarrow> Inl NilDeref
              | Some f \<Rightarrow> Inr (if fe_Name f = ''stats'' then services
                              else services @ [service_of bs f])) acc (map Some fs) =
      Inr (acc @ map (service_of bs) (filter (\<lambda>f. fe_Name f \<noteq> ''stats'') fs))" for acc
    by (induction fs arbitrary: acc) auto
  then show ?thesis by (simp add: services_of_def)
qed

lemma backends_by_name_ok:
  "\<exists>m. backends_by_name (map Some bs) = Inr m \<and>
     (\<forall>b \<in> set bs. distinct (map bk_Name bs) \<longrightarrow> fmlookup m (bk_Name b) = Some b) \<and>
     fset (fmdom m) = bk_Name ` set bs"
proof -
  have "\<exists>m. foldr_r (\<lambda>m item. case item of
                None \<Rightarrow> Inl NilDeref | Some b \<Rightarrow> Inr (fmupd (bk_Name b) b m)) m0 (map Some bs) = Inr m \<and>
     (\<forall>b \<in> set bs. distinct (map bk_Name bs) \<longrightarrow> fmlookup m (bk_Name b) = Some b) \<and>
     (\<forall>n. n \<notin> bk_Name ` set bs \<longrightarrow> fmlookup m n = fmlookup m0 n) \<and>
     fset (fmdom m) = bk_Name ` set bs \<union> fset (fmdom m0)" for m0
  proof (induction bs arbitrary: m0)
    case (Cons b bs)
    obtain m where "foldr_r (\<lambda>m item. case item of
                None \<Rightarrow> Inl NilDeref | Some b \<Rightarrow> Inr (fmupd (bk_Name b) b m))
          (fmupd (bk_Name b) b m0) (map Some bs) = Inr m"
      "\<forall>b \<in> set bs. distinct (map bk_Name bs) \<longrightarrow> fmlookup m (bk_Name b) = Some b"
      "\<forall>n. n \<notin> bk_Name ` set bs \<longrightarrow> fmlookup m n = fmlookup (fmupd (bk_Name b) b m0) n"
      "fset (fmdom m) = bk_Name ` set bs \<union> fset (fmdom (fmupd (bk_Name b) b m0))"
      using Cons.IH by blast
    then show ?case by (intro exI [of _ m]) auto
  qed simp
  from this [of fmempty] show ?thesis unfolding backends_by_name_def by auto
qed

text \<open>What the server reads of a path that a changing operation builds.\<close>

definition read_path :: "string \<Rightarrow> string \<times> string" where
  "read_path = cut (CHR ''?'')"

lemma read_version_path:
  assumes "CHR ''?'' \<notin> set p"
  shows "read_path (p @ ''?version='' @ Itoa v) = (p, ''version='' @ Itoa v)"
  using cut_append [OF assms, of "''version='' @ Itoa v"] by (simp add: read_path_def)

lemma Itoa_plain: "c \<in> set (Itoa v) \<Longrightarrow> c \<noteq> CHR ''&'' \<and> c \<noteq> CHR ''='' \<and> c \<noteq> CHR ''%'' \<and> c \<noteq> CHR ''+''"
  by (auto dest!: Itoa_chars simp: is_digit_def)

lemma QueryUnescape_plain:
  "CHR ''%'' \<notin> set s \<Longrightarrow> CHR ''+'' \<notin> set s \<Longrightarrow> QueryUnescape s = Some s"
  by (induction s) auto

lemma Itoa_unescape: "QueryUnescape (Itoa v) = Some (Itoa v)"
  by (rule QueryUnescape_plain) (use Itoa_plain in blast)+

lemma query_param_version: "query_param ''version'' (''version='' @ Itoa v) = Some (Itoa v)"
proof -
  have "split_on (CHR ''&'') (''version='' @ Itoa v) = [''version='' @ Itoa v]"
    by (rule split_on_none) (use Itoa_plain [of "CHR ''&''" v] in auto)
  moreover have "cut (CHR ''='') (''version'' @ CHR ''='' # Itoa v) = (''version'', Itoa v)"
    by (rule cut_append) simp
  ultimately show ?thesis by (simp add: query_param_def Itoa_unescape)
qed


text \<open>The query of an operation on a server or a bind, read back.\<close>

lemma query_params:
  assumes "CHR ''&'' \<notin> set (k1 @ v1 @ k2)" "CHR ''='' \<notin> set (k1 @ k2)"
  shows "map (cut (CHR ''='')) (split_on (CHR ''&'')
      (k1 @ ''='' @ v1 @ ''&'' @ k2 @ ''='' @ QueryEscape n)) =
     [(k1, v1), (k2, QueryEscape n)]"
    and "map (cut (CHR ''='')) (split_on (CHR ''&'')
      (k1 @ ''='' @ v1 @ ''&'' @ k2 @ ''='' @ QueryEscape n @ ''&version='' @ Itoa v)) =
     [(k1, v1), (k2, QueryEscape n), (''version'', Itoa v)]"
proof -
  have amp: "CHR ''&'' \<notin> set (k1 @ CHR ''='' # v1)" "CHR ''&'' \<notin> set (k2 @ CHR ''='' # QueryEscape n)"
      "CHR ''&'' \<notin> set (''version'' @ CHR ''='' # Itoa v)"
    using assms(1) QueryEscape_no_reserved [of n] Itoa_plain [of "CHR ''&''" v] by auto
  have eq: "CHR ''='' \<notin> set k1" "CHR ''='' \<notin> set k2" "CHR ''='' \<notin> set ''version''"
    using assms(2) by auto
  show "map (cut (CHR ''='')) (split_on (CHR ''&'')
      (k1 @ ''='' @ v1 @ ''&'' @ k2 @ ''='' @ QueryEscape n)) =
     [(k1, v1), (k2, QueryEscape n)]"
    using split_on_append [OF amp(1), of "k2 @ CHR ''='' # QueryEscape n"] split_on_none [OF amp(2)]
      cut_append [OF eq(1), of v1] cut_append [OF eq(2), of "QueryEscape n"] by simp
  show "map (cut (CHR ''='')) (split_on (CHR ''&'')
      (k1 @ ''='' @ v1 @ ''&'' @ k2 @ ''='' @ QueryEscape n @ ''&version='' @ Itoa v)) =
     [(k1, v1), (k2, QueryEscape n), (''version'', Itoa v)]"
    using split_on_append [OF amp(1),
        of "(k2 @ CHR ''='' # QueryEscape n) @ CHR ''&'' # ''version'' @ CHR ''='' # Itoa v"]
      split_on_append [OF amp(2), of "''version'' @ CHR ''='' # Itoa v"] split_on_none [OF amp(3)]
      cut_append [OF eq(1), of v1] cut_append [OF eq(2), of "QueryEscape n"]
      cut_append [OF eq(3), of "Itoa v"] by simp
qed

end
