(* ===== verification/Store_Spec.thy ===== *)
theory Store_Spec
  imports Haproxy_Client "HOL-Library.Product_Lexorder"
begin

text \<open>
  What the proxier relies on at the other end of the client, as an interface. Its laws follow
  the documented behaviour of the HAProxy Data Plane API, version 2: objects are stored under
  their names, are created once, deleted by name, and read back as they were stored; binds and
  servers are created in a parent that is there; an object with a mode or a load balancing
  algorithm that the API does not know is refused; a request with a method the URL does not
  take, or without the parent the URL needs, is answered with an error code. What is refused
  changes nothing.
\<close>

section \<open>The store\<close>

record store =
  st_backends :: "(string, backend) fmap"
  st_frontends :: "(string, frontend) fmap"
  st_binds :: "(string \<times> string, bind) fmap"
  st_servers :: "(string \<times> string, server) fmap"

definition drop_backend :: "string \<Rightarrow> store \<Rightarrow> store" where
  "drop_backend n st = st\<lparr>st_backends := fmdrop n (st_backends st),
     st_servers := fmfilter (\<lambda>k. fst k \<noteq> n) (st_servers st)\<rparr>"

definition drop_frontend :: "string \<Rightarrow> store \<Rightarrow> store" where
  "drop_frontend n st = st\<lparr>st_frontends := fmdrop n (st_frontends st),
     st_binds := fmfilter (\<lambda>k. fst k \<noteq> n) (st_binds st)\<rparr>"

definition values_of :: "('k::linorder, 'v) fmap \<Rightarrow> 'v list" where
  "values_of m = map snd (sorted_list_of_fmap m)"

definition servers_in :: "string \<Rightarrow> store \<Rightarrow> server list" where
  "servers_in be st = values_of (fmfilter (\<lambda>k. fst k = be) (st_servers st))"

text \<open>Every object is stored under its own name, binds and servers with their parent.\<close>

definition store_wf :: "store \<Rightarrow> bool" where
  "store_wf st \<longleftrightarrow>
     fmpred (\<lambda>n b. bk_Name b = n) (st_backends st) \<and>
     fmpred (\<lambda>n f. fe_Name f = n) (st_frontends st) \<and>
     fmpred (\<lambda>k b. bd_Name b = snd k \<and> fst k |\<in>| fmdom (st_frontends st)) (st_binds st) \<and>
     fmpred (\<lambda>k s. srv_Name s = snd k \<and> fst k |\<in>| fmdom (st_backends st)) (st_servers st)"

definition lookup_or :: "'v \<Rightarrow> ('k, 'v) fmap \<Rightarrow> 'k \<Rightarrow> 'v" where
  "lookup_or z m k = (case fmlookup m k of Some v \<Rightarrow> v | None \<Rightarrow> z)"

lemma lookup_or_simps [simp]:
  "fmlookup m k = None \<Longrightarrow> lookup_or z m k = z"
  "fmlookup m k = Some v \<Longrightarrow> lookup_or z m k = v"
  by (simp_all add: lookup_or_def)

text \<open>A server name that stands in a path as it is.\<close>

definition url_plain :: "string \<Rightarrow> bool" where
  "url_plain n \<longleftrightarrow> n \<noteq> '''' \<and> CHR ''%'' \<notin> set n \<and> CHR ''+'' \<notin> set n \<and> CHR ''?'' \<notin> set n \<and>
     CHR ''#'' \<notin> set n \<and> CHR ''/'' \<notin> set n"

definition accepted :: "'b response \<Rightarrow> bool" where
  "accepted resp \<longleftrightarrow> Err resp = None \<and> Code resp \<in> {0, 200, 201, 202}"

text \<open>
  The API knows two modes and ten algorithms of load balancing; an object with another one is
  refused.
\<close>

definition valid_mode :: "string \<Rightarrow> bool" where
  "valid_mode m \<longleftrightarrow> m = ''tcp'' \<or> m = ''http''"

definition valid_balance :: "string \<Rightarrow> bool" where
  "valid_balance a \<longleftrightarrow> a \<in> {''roundrobin'', ''static-rr'', ''leastconn'', ''first'', ''source'',
     ''uri'', ''url_param'', ''hdr'', ''random'', ''rdp-cookie''}"

definition valid_backend :: "backend \<Rightarrow> bool" where
  "valid_backend b \<longleftrightarrow> valid_mode (bk_Mode b) \<and> pred_option valid_balance (Balance b)"

section \<open>The URLs of the API\<close>

text \<open>
  How a URL of the API is read. Four kinds of objects are collections: the path of a collection
  takes GET and POST, the path of an item GET, PUT and DELETE; the servers and the binds also
  need the name of their parent in the query. The version takes GET only. Nothing is said of
  the other paths of the API.
\<close>

datatype collection = CBackends | CFrontends | CServers | CBinds

datatype route = RVersion | RAll collection | RItem collection string | RNone

definition strip :: "string \<Rightarrow> string \<Rightarrow> string option" where
  "strip pre s = (if take (length pre) s = pre then Some (drop (length pre) s) else None)"

definition url_of :: "collection \<Rightarrow> string" where
  "url_of c = (case c of CBackends \<Rightarrow> BACKEND | CFrontends \<Rightarrow> FRONTEND | CServers \<Rightarrow> SERVER
     | CBinds \<Rightarrow> BIND)"

definition route_in :: "collection \<Rightarrow> string \<Rightarrow> route option" where
  "route_in c p =
     (if p = url_of c then Some (RAll c)
      else (case strip (url_of c @ ''/'') p of
              None \<Rightarrow> None
            | Some s \<Rightarrow> map_option (RItem c) (QueryUnescape s)))"

definition route_of :: "string \<Rightarrow> route" where
  "route_of p =
     (if p = VERSION then RVersion
      else (case List.map_filter (\<lambda>c. route_in c p) [CBackends, CFrontends, CServers, CBinds] of
              [] \<Rightarrow> RNone | r # _ \<Rightarrow> r))"

definition has_parent :: "collection \<Rightarrow> string \<Rightarrow> bool" where
  "has_parent c q \<longleftrightarrow>
     (case c of
        CServers \<Rightarrow> query_param ''parent_name'' q \<noteq> None \<or> query_param ''backend'' q \<noteq> None
      | CBinds \<Rightarrow> query_param ''parent_name'' q \<noteq> None \<or> query_param ''frontend'' q \<noteq> None
      | _ \<Rightarrow> True)"

text \<open>The requests for which the API has no operation.\<close>

definition unoffered :: "http_method \<Rightarrow> string \<Rightarrow> bool" where
  "unoffered m path \<longleftrightarrow>
     (case route_of (fst (read_path path)) of
        RVersion \<Rightarrow> m \<noteq> GET
      | RAll c \<Rightarrow> m \<notin> {GET, POST} \<or> \<not> has_parent c (snd (read_path path))
      | RItem c _ \<Rightarrow> m \<notin> {GET, PUT, DELETE} \<or> \<not> has_parent c (snd (read_path path))
      | RNone \<Rightarrow> False)"

lemmas url_defs = url_of_def BACKEND_def FRONTEND_def SERVER_def BIND_def VERSION_def

lemma route_all: "route_of (url_of c) = RAll c"
  by (cases c) (simp_all add: route_of_def route_in_def strip_def url_defs List.map_filter_simps)

lemma route_item:
  "QueryUnescape s = Some n \<Longrightarrow> route_of (url_of c @ ''/'' @ s) = RItem c n"
  by (cases c) (simp_all add: route_of_def route_in_def strip_def url_defs List.map_filter_simps)

lemma route_version: "route_of VERSION = RVersion"
  by (simp add: route_of_def)

lemma no_query:
  "CHR ''?'' \<notin> set (url_of c)" "CHR ''?'' \<notin> set VERSION"
  by (cases c; simp add: url_defs)+

lemma no_query_item: "CHR ''?'' \<notin> set s \<Longrightarrow> CHR ''?'' \<notin> set (url_of c @ ''/'' @ s)"
  using no_query(1) by simp

lemma read_plain: "CHR ''?'' \<notin> set p \<Longrightarrow> read_path p = (p, [])"
  by (induction p) (auto simp: read_path_def cut_def)

lemma read_query: "CHR ''?'' \<notin> set p \<Longrightarrow> read_path (p @ ''?'' @ q) = (p, q)"
  using cut_append by (simp add: read_path_def)

text \<open>
  Two requests of the client have no operation: the one of \<open>ReplaceBackend\<close> goes to a server and
  names no parent, the one of \<open>ReplaceFrontend\<close> posts to an item.
\<close>

lemma version_query_parent: "k \<noteq> ''version'' \<Longrightarrow> query_param k (''version='' @ Itoa v) = None"
proof -
  assume k: "k \<noteq> ''version''"
  have "split_on (CHR ''&'') (''version='' @ Itoa v) = [''version='' @ Itoa v]"
    by (rule split_on_none) (use Itoa_plain [of "CHR ''&''" v] in auto)
  moreover have "cut (CHR ''='') (''version'' @ CHR ''='' # Itoa v) = (''version'', Itoa v)"
    by (rule cut_append) simp
  ultimately show ?thesis using k by (simp add: query_param_def)
qed

lemma read_item_version:
  "read_path (url_of c @ ''/'' @ QueryEscape n @ ''?version='' @ Itoa v) =
     (url_of c @ ''/'' @ QueryEscape n, ''version='' @ Itoa v)"
  using read_version_path [OF no_query_item [OF QueryEscape_no_reserved(2)], of c n v] by simp

lemma unoffered_replace_backend:
  "unoffered PUT (SERVER @ ''/'' @ QueryEscape n @ ''?version='' @ Itoa v)"
  using read_item_version [of CServers n v] route_item [OF QueryUnescape_Escape, of CServers n]
    version_query_parent [of "''parent_name''" v] version_query_parent [of "''backend''" v]
  by (simp add: unoffered_def has_parent_def url_of_def)

lemma unoffered_replace_frontend:
  "unoffered POST (FRONTEND @ ''/'' @ QueryEscape n @ ''?version='' @ Itoa v)"
  using read_item_version [of CFrontends n v] route_item [OF QueryUnescape_Escape, of CFrontends n]
  by (simp add: unoffered_def url_of_def)

section \<open>The interface\<close>

locale haproxy_store =
  fixes env :: "('b, 'w) rest_env" and view :: "'w \<Rightarrow> store" and ok :: "'w \<Rightarrow> bool"
  assumes wf: "ok w \<Longrightarrow> store_wf (view w)"
    and version: "ok w \<Longrightarrow> \<exists>v w'. getVersion env w = (v, w') \<and> ok w' \<and> view w' = view w"
    and get_backend: "ok w \<Longrightarrow> n \<noteq> '''' \<Longrightarrow>
      \<exists>w'. GetBackend env n w = (lookup_or zero_backend (st_backends (view w)) n, w') \<and>
        ok w' \<and> view w' = view w"
    and add_backend: "ok w \<Longrightarrow> bk_Name b \<noteq> '''' \<Longrightarrow>
      \<exists>r w'. AddBackend env b w = (r, w') \<and> ok w' \<and>
        (if \<not> valid_backend b then \<not> fst r \<and> snd r \<noteq> None \<and> view w' = view w
         else if bk_Name b |\<in>| fmdom (st_backends (view w))
         then fst r \<and> snd r \<noteq> None \<and> view w' = view w
         else r = (True, None) \<and>
           view w' = view w\<lparr>st_backends := fmupd (bk_Name b) b (st_backends (view w))\<rparr>)"
    and delete_backend: "ok w \<Longrightarrow> n \<noteq> '''' \<Longrightarrow>
      \<exists>w'. DeleteBackend env n w = (n |\<in>| fmdom (st_backends (view w)), w') \<and> ok w' \<and>
        view w' = (if n |\<in>| fmdom (st_backends (view w)) then drop_backend n (view w) else view w)"
    and get_frontend: "ok w \<Longrightarrow> n \<noteq> '''' \<Longrightarrow>
      \<exists>w'. GetFrontend env n w = (lookup_or zero_frontend (st_frontends (view w)) n, w') \<and>
        ok w' \<and> view w' = view w"
    and add_frontend: "ok w \<Longrightarrow> fe_Name f \<noteq> '''' \<Longrightarrow>
      \<exists>r w'. AddFrontend env f w = (r, w') \<and> ok w' \<and>
        (if \<not> valid_mode (fe_Mode f) then \<not> fst r \<and> snd r \<noteq> None \<and> view w' = view w
         else if fe_Name f |\<in>| fmdom (st_frontends (view w))
         then fst r \<and> snd r \<noteq> None \<and> view w' = view w
         else r = (True, None) \<and>
           view w' = view w\<lparr>st_frontends := fmupd (fe_Name f) f (st_frontends (view w))\<rparr>)"
    and delete_frontend: "ok w \<Longrightarrow> n \<noteq> '''' \<Longrightarrow>
      \<exists>w'. DeleteFrontend env n w = (n |\<in>| fmdom (st_frontends (view w)), w') \<and> ok w' \<and>
        view w' = (if n |\<in>| fmdom (st_frontends (view w)) then drop_frontend n (view w) else view w)"
    and get_bind: "ok w \<Longrightarrow> n \<noteq> '''' \<Longrightarrow> fe \<noteq> '''' \<Longrightarrow>
      \<exists>w'. GetBind env n fe w = (lookup_or zero_bind (st_binds (view w)) (fe, n), w') \<and>
        ok w' \<and> view w' = view w"
    and add_bind: "ok w \<Longrightarrow> bd_Name d \<noteq> '''' \<Longrightarrow> fe \<noteq> '''' \<Longrightarrow>
      \<exists>r w'. AddBind env d fe w = (r, w') \<and> ok w' \<and>
        (if fe |\<notin>| fmdom (st_frontends (view w)) then \<not> fst r \<and> snd r \<noteq> None \<and> view w' = view w
         else if (fe, bd_Name d) |\<in>| fmdom (st_binds (view w))
         then fst r \<and> snd r \<noteq> None \<and> view w' = view w
         else r = (True, None) \<and>
           view w' = view w\<lparr>st_binds := fmupd (fe, bd_Name d) d (st_binds (view w))\<rparr>)"
    and replace_bind: "ok w \<Longrightarrow> bd_Name d \<noteq> '''' \<Longrightarrow> fe \<noteq> '''' \<Longrightarrow>
      (fe, bd_Name d) |\<in>| fmdom (st_binds (view w)) \<Longrightarrow>
      \<exists>w'. replaceBind env (bd_Name d) fe d w = ((True, None), w') \<and> ok w' \<and>
        view w' = view w\<lparr>st_binds := fmupd (fe, bd_Name d) d (st_binds (view w))\<rparr>"
    and get_servers: "ok w \<Longrightarrow> be \<noteq> '''' \<Longrightarrow>
      \<exists>ss w'. GetServers env be w = (ss, w') \<and> ok w' \<and> view w' = view w \<and> distinct ss \<and>
        (\<forall>s. s \<in> set ss \<longleftrightarrow> fmlookup (st_servers (view w)) (be, srv_Name s) = Some s)"
    and get_server: "ok w \<Longrightarrow> be \<noteq> '''' \<Longrightarrow> url_plain n \<Longrightarrow>
      \<exists>w'. GetServer env be n w = (lookup_or zero_server (st_servers (view w)) (be, n), w') \<and>
        ok w' \<and> view w' = view w"
    and add_server: "ok w \<Longrightarrow> be \<noteq> '''' \<Longrightarrow> url_plain (srv_Name s) \<Longrightarrow>
      \<exists>r w'. AddServerToBackend env s be w = (r, w') \<and> ok w' \<and>
        (if be |\<notin>| fmdom (st_backends (view w)) then \<not> fst r \<and> snd r \<noteq> None \<and> view w' = view w
         else if (be, srv_Name s) |\<in>| fmdom (st_servers (view w))
         then fst r \<and> snd r \<noteq> None \<and> view w' = view w
         else r = (True, None) \<and>
           view w' = view w\<lparr>st_servers := fmupd (be, srv_Name s) s (st_servers (view w))\<rparr>)"
    and delete_server: "ok w \<Longrightarrow> be \<noteq> '''' \<Longrightarrow> url_plain n \<Longrightarrow>
      \<exists>r w'. DeleteServerFromBackend env n be w = (r, w') \<and> ok w' \<and>
        (if (be, n) |\<in>| fmdom (st_servers (view w))
         then fst r \<and> view w' = view w\<lparr>st_servers := fmdrop (be, n) (st_servers (view w))\<rparr>
         else \<not> fst r \<and> snd r \<noteq> None \<and> view w' = view w)"
    and get_services: "ok w \<Longrightarrow>
      \<exists>ss w'. GetServices env w = Inr (ss, w') \<and> ok w' \<and> view w' = view w \<and>
        set ss = (if st_frontends (view w) = fmempty \<or> st_backends (view w) = fmempty then {}
          else service_of (st_backends (view w)) `
            {f. fmlookup (st_frontends (view w)) (fe_Name f) = Some f \<and> fe_Name f \<noteq> ''stats''})"
    and refused: "ok w \<Longrightarrow> unoffered (Method req) (Path req) \<Longrightarrow> send env req w = (resp, w') \<Longrightarrow>
      ok w' \<and> view w' = view w \<and> \<not> accepted resp"
begin

text \<open>Two operations of the client can never succeed: the API has no such operation.\<close>

lemma replace_backend_fails:
  assumes "ok w"
  shows "\<exists>r e w'. ReplaceBackend env n b w = ((r, Some e), w') \<and> ok w' \<and> view w' = view w"
proof -
  obtain v w1 where v: "getVersion env w = (v, w1)" "ok w1" "view w1 = view w"
    using version [OF assms] by blast
  show ?thesis
  proof (cases "encode_backend env b")
    case (Inl e)
    then show ?thesis using v by (auto simp: ReplaceBackend_def)
  next
    case (Inr body)
    obtain resp w2 where s: "send env \<lparr>Method = PUT,
        Path = SERVER @ ''/'' @ QueryEscape n @ ''?version='' @ Itoa v, ReqBody = Some body\<rparr> w1 =
        (resp, w2)" by fastforce
    have no: "ok w2 \<and> view w2 = view w1 \<and> \<not> accepted resp"
      using refused [OF v(2) _ s] unoffered_replace_backend by simp
    then have "snd (handleError env resp HPointer) \<noteq> None"
      by (simp add: handleError_snd accepted_def)
    then obtain r e where "handleError env resp HPointer = (r, Some e)"
      by (cases "handleError env resp HPointer") auto
    then show ?thesis using v s no Inr by (simp add: ReplaceBackend_def call_def)
  qed
qed

lemma replace_frontend_fails:
  assumes "ok w"
  shows "\<exists>r e w'. ReplaceFrontend env old new w = ((r, Some e), w') \<and> ok w' \<and> view w' = view w"
proof -
  obtain v w1 where v: "getVersion env w = (v, w1)" "ok w1" "view w1 = view w"
    using version [OF assms] by blast
  show ?thesis
  proof (cases "encode_frontend env new")
    case (Inl e)
    then show ?thesis using v by (auto simp: ReplaceFrontend_def)
  next
    case (Inr body)
    obtain resp w2 where s: "send env \<lparr>Method = POST,
        Path = FRONTEND @ ''/'' @ QueryEscape (fe_Name old) @ ''?version='' @ Itoa v,
        ReqBody = Some body\<rparr> w1 = (resp, w2)" by fastforce
    have no: "ok w2 \<and> view w2 = view w1 \<and> \<not> accepted resp"
      using refused [OF v(2) _ s] unoffered_replace_frontend by simp
    then have "snd (handleError env resp HPointer) \<noteq> None"
      by (simp add: handleError_snd accepted_def)
    then obtain r e where "handleError env resp HPointer = (r, Some e)"
      by (cases "handleError env resp HPointer") auto
    then show ?thesis using v s no Inr by (simp add: ReplaceFrontend_def call_def)
  qed
qed

end

end
