(* ===== verification/Graceful.thy ===== *)
theory Graceful
  imports Store_Spec "HOL-Library.FSet"
begin

text \<open>
  \<open>haproxy/graceful_termination.go\<close>: the list of servers that wait to be deleted. The set type
  comes from a library (\<open>goset\<close>); a finite set stands for it, with the order in which \<open>For\<close>
  visits its elements as an argument. The manager reaches HAProxy through \<open>HaproxyInterface\<close>,
  of which it calls two methods.
\<close>

section \<open>The list\<close>

record srv_item =
  backendName :: string
  it_srv :: server

type_synonym srv_list = "srv_item fset"

text \<open>The condition of \<open>add\<close> is the one in the code: an element that is not there is not added.\<close>

definition srv_list_add :: "srv_item \<Rightarrow> srv_list \<Rightarrow> bool \<times> srv_list" where
  "srv_list_add item q = (if item |\<notin>| q then (False, q) else (True, finsert item q))"

definition srv_list_remove :: "srv_item \<Rightarrow> srv_list \<Rightarrow> bool \<times> srv_list" where
  "srv_list_remove item q = (if item |\<in>| q then (True, q |-| {|item|}) else (False, q))"

definition srv_list_exist :: "srv_item \<Rightarrow> srv_list \<Rightarrow> bool" where
  "srv_list_exist item q \<longleftrightarrow> item |\<in>| q"

text \<open>\<open>flushList\<close>: one visit, and the loop in the order \<open>ord\<close>.\<close>

definition flush_one ::
    "(srv_item \<Rightarrow> 'w \<Rightarrow> (bool \<times> string option) \<times> 'w) \<Rightarrow> bool \<times> srv_list \<times> 'w \<Rightarrow> srv_item \<Rightarrow>
     bool \<times> srv_list \<times> 'w" where
  "flush_one handler st item =
     (case st of (success, q, w) \<Rightarrow>
        let ((deleted, err), w1) = handler item w
        in (if err \<noteq> None then False else success,
            if deleted then snd (srv_list_remove item q) else q, w1))"

definition flushList ::
    "(srv_item \<Rightarrow> 'w \<Rightarrow> (bool \<times> string option) \<times> 'w) \<Rightarrow> srv_item list \<Rightarrow> srv_list \<Rightarrow> 'w \<Rightarrow>
     bool \<times> srv_list \<times> 'w" where
  "flushList handler ord q w = foldl (flush_one handler) (True, q, w) ord"

section \<open>The manager\<close>

record 'w haproxy_interface =
  if_GetServer :: "string \<Rightarrow> string \<Rightarrow> 'w \<Rightarrow> server \<times> 'w"
  if_DeleteServer :: "string \<Rightarrow> string \<Rightarrow> 'w \<Rightarrow> (bool \<times> string option) \<times> 'w"

definition handle_interface :: "('b, 'w) rest_env \<Rightarrow> 'w haproxy_interface" where
  "handle_interface env =
     \<lparr>if_GetServer = GetServer env, if_DeleteServer = DeleteServerFromBackend env\<rparr>"

definition NewGracefulTerminationManager :: srv_list where
  "NewGracefulTerminationManager = {||}"

definition InTerminationList :: "server \<Rightarrow> string \<Rightarrow> srv_list \<Rightarrow> bool" where
  "InTerminationList srv be q = srv_list_exist \<lparr>backendName = be, it_srv = srv\<rparr> q"

definition deleteSrvFunc ::
    "'w haproxy_interface \<Rightarrow> srv_item \<Rightarrow> 'w \<Rightarrow> (bool \<times> string option) \<times> 'w" where
  "deleteSrvFunc h item w =
     (let (rss, w1) = if_GetServer h (backendName item) (srv_Name (it_srv item)) w
      in if rss = zero_server then ((False, Some ''server is nil''), w1)
         else
           (let ((b, err), w2) = if_DeleteServer h (srv_Name (it_srv item)) (backendName item) w1
            in if err \<noteq> None \<or> \<not> b
               then ((False, Some (''Delete destination '' @ Address (it_srv item) @ '' failed: '' @
                       (case err of Some e \<Rightarrow> e | None \<Rightarrow> ''<nil>''))), w2)
               else ((b, None), w2)))"

text \<open>The error of the deletion is only logged: the result is always nil.\<close>

definition GracefulDeleteSrv ::
    "'w haproxy_interface \<Rightarrow> server \<Rightarrow> string \<Rightarrow> srv_list \<Rightarrow> 'w \<Rightarrow>
     string option \<times> srv_list \<times> 'w" where
  "GracefulDeleteSrv h srv be q w =
     (let ele = \<lparr>backendName = be, it_srv = srv\<rparr>;
          ((deleted, err), w1) = deleteSrvFunc h ele w
      in if deleted then (None, q, w1) else (None, snd (srv_list_add ele q), w1))"

definition tryDeleteSrv ::
    "'w haproxy_interface \<Rightarrow> srv_item list \<Rightarrow> srv_list \<Rightarrow> 'w \<Rightarrow> srv_list \<times> 'w" where
  "tryDeleteSrv h ord q w = snd (flushList (deleteSrvFunc h) ord q w)"

definition MoveRSOutofGracefulDeleteList ::
    "'w haproxy_interface \<Rightarrow> server \<Rightarrow> string \<Rightarrow> srv_list \<Rightarrow> 'w \<Rightarrow>
     string option \<times> srv_list \<times> 'w" where
  "MoveRSOutofGracefulDeleteList h srv be q w =
     (let item = \<lparr>backendName = be, it_srv = srv\<rparr>
      in if \<not> srv_list_exist item q
         then (Some (''failed to find server '' @ Address srv @ '' in backend: '' @ be), q, w)
         else
           (let ((b, err), w1) = if_DeleteServer h (srv_Name srv) be w
            in case err of
                 Some e \<Rightarrow> (Some e, q, w1)
               | None \<Rightarrow> (None, snd (srv_list_remove item q), w1)))"

section \<open>Lemmas\<close>

text \<open>The steps of the manager, with any HAProxy behind the interface.\<close>

inductive graceful_run :: "'w haproxy_interface \<Rightarrow> srv_list \<Rightarrow> 'w \<Rightarrow> bool" for h where
  start: "graceful_run h NewGracefulTerminationManager w"
| deletion: "graceful_run h q w \<Longrightarrow> GracefulDeleteSrv h srv be q w = (err, q', w') \<Longrightarrow>
     graceful_run h q' w'"
| flush: "graceful_run h q w \<Longrightarrow> tryDeleteSrv h ord q w = (q', w') \<Longrightarrow> graceful_run h q' w'"
| moved: "graceful_run h q w \<Longrightarrow> MoveRSOutofGracefulDeleteList h srv be q w = (err, q', w') \<Longrightarrow>
     graceful_run h q' w'"
| other: "graceful_run h q w \<Longrightarrow> graceful_run h q w'"

lemma flush_empty: "fst (snd (foldl (flush_one handler) (b, {||}, w) ord)) = {||}"
  by (induction ord arbitrary: b w)
    (auto simp: flush_one_def srv_list_remove_def split: prod.splits)

lemma GracefulDeleteSrv_empty: "fst (snd (GracefulDeleteSrv h srv be {||} w)) = {||}"
  by (simp add: GracefulDeleteSrv_def srv_list_add_def Let_def split: prod.splits)

lemma Move_empty:
  "MoveRSOutofGracefulDeleteList h srv be {||} w =
     (Some (''failed to find server '' @ Address srv @ '' in backend: '' @ be), {||}, w)"
  by (simp add: MoveRSOutofGracefulDeleteList_def srv_list_exist_def)

lemma graceful_run_empty: "graceful_run h q w \<Longrightarrow> q = {||}"
proof (induction rule: graceful_run.induct)
  case (deletion q w srv be err q' w')
  then show ?case using GracefulDeleteSrv_empty [of h srv be w] by simp
next
  case (flush q w ord q' w')
  then show ?case using flush_empty [of "deleteSrvFunc h" True w ord]
    by (auto simp: tryDeleteSrv_def flushList_def)
next
  case (moved q w srv be err q' w')
  then show ?case by (simp add: Move_empty)
qed (simp_all add: NewGracefulTerminationManager_def)

context haproxy_store begin

text \<open>Deleting a server that is there removes it, whatever the answer says.\<close>

lemma deleteSrvFunc_removes:
  assumes "ok w" and be: "be \<noteq> ''''" and n: "url_plain (srv_Name srv)"
    and there: "fmlookup (st_servers (view w)) (be, srv_Name srv) = Some s"
  shows "\<exists>r w'. deleteSrvFunc (handle_interface env) \<lparr>backendName = be, it_srv = srv\<rparr> w = (r, w') \<and>
     ok w' \<and> view w' = view w\<lparr>st_servers := fmdrop (be, srv_Name srv) (st_servers (view w))\<rparr>"
proof -
  have "srv_Name s = srv_Name srv" using wf [OF assms(1)] there by (auto simp: store_wf_def dest: fmpredD)
  then have nz: "s \<noteq> zero_server" using n by (intro named_not_zero) (simp add: url_plain_def)
  obtain w1 where w1: "GetServer env be (srv_Name srv) w = (s, w1)" "ok w1" "view w1 = view w"
    using get_server [OF assms(1) be n] there by auto
  then have "(be, srv_Name srv) |\<in>| fmdom (st_servers (view w1))"
    using there by (simp add: fmlookup_dom_iff)
  then obtain r w2 where "DeleteServerFromBackend env (srv_Name srv) be w1 = (r, w2)" "ok w2"
      "view w2 = view w1\<lparr>st_servers := fmdrop (be, srv_Name srv) (st_servers (view w1))\<rparr>"
    using delete_server [OF w1(2) be n] by auto
  then show ?thesis using w1 nz
    by (cases r) (auto simp: deleteSrvFunc_def handle_interface_def)
qed

lemma GracefulDeleteSrv_removes:
  assumes "ok w" and "be \<noteq> ''''" and "url_plain (srv_Name srv)"
    and "fmlookup (st_servers (view w)) (be, srv_Name srv) = Some s"
  shows "\<exists>w'. GracefulDeleteSrv (handle_interface env) srv be {||} w = (None, {||}, w') \<and>
     ok w' \<and> view w' = view w\<lparr>st_servers := fmdrop (be, srv_Name srv) (st_servers (view w))\<rparr>"
  using deleteSrvFunc_removes [OF assms]
  by (fastforce simp: GracefulDeleteSrv_def srv_list_add_def Let_def split: prod.splits)

end

end
