(* ===== verification/Proxier.thy ===== *)
theory Proxier
  imports Service_Tracker Endpoints_Tracker Graceful
begin

text \<open>
  \<open>haproxy/proxier.go\<close>: the proxier. It collects the events of services, endpoints and slices in
  the change trackers, and a sync brings HAProxy in line with them: one backend, frontend and
  bind per service port, one server per endpoint, and no frontend that belongs to no service.

  HAProxy is reached through the client (\<open>rest_env\<close>), whose state is threaded through. The
  bounded-frequency runner, the clock and the mutexes are left out: \<open>Sync\<close> is an output of the
  handlers. The fields \<open>nodeLabels\<close>, \<open>haproxyEndpointsList\<close> and \<open>syncPeriod\<close> are never read here.
\<close>

section \<open>State\<close>

record proxier =
  endpointsChanges :: endpoint_change_tracker
  serviceChanges :: service_change_tracker
  serviceMap :: service_map
  endpointsMap :: endpoints_map
  haproxyHandle :: haproxy_handle
  endpointsSynced :: bool
  endpointSlicesSynced :: bool
  servicesSynced :: bool
  initialized :: int
  serverAlgorithm :: string
  gracefuldeleteManager :: srv_list
  interfaceName :: string
  px_mode :: string
  proxyIP :: net_ip
  isHealthCheck :: bool

definition newServiceInfo ::
    "v1_service_port \<Rightarrow> v1_service \<Rightarrow> base_service_info \<Rightarrow> service_port" where
  "newServiceInfo p s baseInfo =
     ServiceInfo baseInfo (ServicePortName_String
       (ServicePortName (NamespacedName (svc_Namespace s) (svc_Name s)) (sp_Name p) ''''))"

definition newEndpointInfo :: "base_endpoint_info \<Rightarrow> endpoint" where
  "newEndpointInfo baseInfo = EndpointsInfo baseInfo ''''"

text \<open>
  \<open>NewProxier\<close>. The constant \<open>allInterface\<close> makes the proxy address \<open>0.0.0.0\<close> whatever the
  interface is; the address of the interface is still looked up, and that may panic.
\<close>

definition NewProxier ::
    "k8s_ext \<Rightarrow> (string \<Rightarrow> string + (string + if_addr list)) \<Rightarrow> bool \<Rightarrow> string \<Rightarrow> string \<Rightarrow>
     init_info \<Rightarrow> string \<Rightarrow> addr_panic + proxier" where
  "NewProxier x interfaceByName endpointSlicesEnabled hostname ifName haproxyInfo mode =
     bindr (if ifName = '''' then Inr (None, None) else GetLocalAddr interfaceByName ifName) (\<lambda>_.
       let isIPv6 = IsIPv6String x ''0.0.0.0'' in
       Inr \<lparr>endpointsChanges =
              NewEndpointChangeTracker hostname (Some newEndpointInfo) (Some isIPv6) endpointSlicesEnabled,
            serviceChanges = NewServiceChangeTracker (Some newServiceInfo),
            serviceMap = fmempty, endpointsMap = fmempty,
            haproxyHandle = NewHaproxyHandle haproxyInfo,
            endpointsSynced = False, endpointSlicesSynced = False, servicesSynced = False,
            initialized = 0,
            serverAlgorithm = ServerAlgorithm haproxyInfo,
            gracefuldeleteManager = NewGracefulTerminationManager,
            interfaceName = (if ifName = '''' then defaultInterface else ifName),
            px_mode = mode,
            proxyIP = ParseIP x ''0.0.0.0'',
            isHealthCheck = IsCheckServer haproxyInfo\<rparr>)"

section \<open>One service\<close>

text \<open>
  The result of a step that talks to HAProxy: the error, if any, and the state outside. An
  error ends the function.
\<close>

definition and_then :: "string option \<times> 'w \<Rightarrow> ('w \<Rightarrow> string option \<times> 'w) \<Rightarrow> string option \<times> 'w" where
  "and_then r f = (case r of (Some e, w) \<Rightarrow> (Some e, w) | (None, w) \<Rightarrow> f w)"

lemma and_then_simps [simp]:
  "and_then (None, w) f = f w" "and_then (Some e, w) f = (Some e, w)"
  by (simp_all add: and_then_def)

text \<open>An addition fails if there is an error and \<open>ok\<close> is false; a replacement on any error.\<close>

definition add_error :: "bool \<times> string option \<Rightarrow> string option" where
  "add_error r = (case r of (okay, err) \<Rightarrow> if err \<noteq> None \<and> \<not> okay then err else None)"

definition sync_backend ::
    "('b, 'w) rest_env \<Rightarrow> haproxy_info \<Rightarrow> 'w \<Rightarrow> string option \<times> 'w" where
  "sync_backend env info w =
     (let (backend, w1) = GetBackend env (bk_Name (hi_Backend info)) w
      in if bk_Mode backend = ''udp'' then (None, w1)
         else if backend = zero_backend
         then (let (r, w2) = AddBackend env (hi_Backend info) w1 in (add_error r, w2))
         else if backend \<noteq> hi_Backend info
         then (let (r, w2) = ReplaceBackend env (bk_Name backend) (hi_Backend info) w1 in (snd r, w2))
         else (None, w1))"

definition sync_frontend ::
    "('b, 'w) rest_env \<Rightarrow> haproxy_info \<Rightarrow> 'w \<Rightarrow> string option \<times> 'w" where
  "sync_frontend env info w =
     (let (frontend, w1) = GetFrontend env (fe_Name (hi_Frontend info)) w
      in if fe_Mode frontend = ''udp'' then (None, w1)
         else if frontend = zero_frontend
         then (let (r, w2) = AddFrontend env (hi_Frontend info) w1 in (add_error r, w2))
         else if frontend \<noteq> hi_Frontend info
         then (let (r, w2) = ReplaceFrontend env frontend (hi_Frontend info) w1 in (snd r, w2))
         else (None, w1))"

definition sync_bind ::
    "('b, 'w) rest_env \<Rightarrow> haproxy_info \<Rightarrow> 'w \<Rightarrow> string option \<times> 'w" where
  "sync_bind env info w =
     (let (bind, w1) = GetBind env (bd_Name (hi_Bind info)) (fe_Name (hi_Frontend info)) w
      in if bind = zero_bind
         then (let (r, w2) = AddBind env (hi_Bind info) (fe_Name (hi_Frontend info)) w1
               in (add_error r, w2))
         else if hi_Bind info \<noteq> bind
         then (let (r, w2) = replaceBind env (bd_Name bind) (fe_Name (hi_Frontend info))
                               (hi_Bind info) w1 in (snd r, w2))
         else (None, w1))"

definition syncService ::
    "('b, 'w) rest_env \<Rightarrow> haproxy_info \<Rightarrow> 'w \<Rightarrow> string option \<times> 'w" where
  "syncService env info w =
     and_then (and_then (sync_backend env info w) (sync_frontend env info)) (sync_bind env info)"

section \<open>The servers of a backend\<close>

text \<open>\<open>elems\<close> lists the elements of a set of servers in the order of the set library.\<close>

definition endpoint_server :: "k8s_ext \<Rightarrow> bool \<Rightarrow> endpoint \<Rightarrow> server" where
  "endpoint_server x healthCheck ep =
     zero_server\<lparr>Address := endpoint_IP x ep, srv_Port := fst (endpoint_Port x ep),
       srv_Name := SERVER_PREFIX @ endpoint_String ep,
       Check := (if healthCheck then ''enabled'' else '''')\<rparr>"

definition sync_new_server ::
    "('b, 'w) rest_env \<Rightarrow> string \<Rightarrow> server fset \<Rightarrow> srv_list \<times> 'w \<Rightarrow> server \<Rightarrow> srv_list \<times> 'w" where
  "sync_new_server env be cur st item =
     (case st of (q, w) \<Rightarrow>
        if item |\<in>| cur
        then (if \<not> InTerminationList item be q then (q, w)
              else snd (MoveRSOutofGracefulDeleteList (handle_interface env) item be q w))
        else (q, snd (AddServerToBackend env item be w)))"

definition sync_old_server ::
    "('b, 'w) rest_env \<Rightarrow> string \<Rightarrow> srv_list \<times> 'w \<Rightarrow> server \<Rightarrow> srv_list \<times> 'w" where
  "sync_old_server env be st srv =
     (case st of (q, w) \<Rightarrow>
        if InTerminationList srv be q then (q, w)
        else snd (GracefulDeleteSrv (handle_interface env) srv be q w))"

definition syncEndpoint ::
    "k8s_ext \<Rightarrow> ('b, 'w) rest_env \<Rightarrow> (server fset \<Rightarrow> server list) \<Rightarrow> bool \<Rightarrow> endpoints_map \<Rightarrow>
     service_port_name \<Rightarrow> string \<Rightarrow> srv_list \<times> 'w \<Rightarrow> srv_list \<times> 'w" where
  "syncEndpoint x env elems healthCheck em svcPortName be st =
     (case st of (q, w) \<Rightarrow>
        let (curDests, w1) = GetServers env be w;
            curEndpoints = fset_of_list curDests;
            endpoints = (case fmlookup em svcPortName of Some l \<Rightarrow> l | None \<Rightarrow> []);
            newEndpoints = fset_of_list (map (endpoint_server x healthCheck) endpoints);
            st1 = foldl (sync_new_server env be curEndpoints) (q, w1) (elems newEndpoints)
        in foldl (sync_old_server env be) st1 (elems (curEndpoints |-| newEndpoints)))"

section \<open>Services that are gone\<close>

definition clean_one ::
    "('b, 'w) rest_env \<Rightarrow> string fset \<Rightarrow> string \<Rightarrow> service \<Rightarrow> 'w \<Rightarrow> 'w" where
  "clean_one env active cs svc w =
     (if cs |\<in>| active then w
      else (let (_, w1) = DeleteFrontend env (fe_Name (s_Frontend svc)) w
            in snd (DeleteBackend env (bk_Name (s_Backend svc)) w1)))"

text \<open>Only the keys of \<open>activeServices\<close> are looked at.\<close>

definition cleanLegacyService ::
    "('b, 'w) rest_env \<Rightarrow> string list \<Rightarrow> string fset \<Rightarrow> (string, service) fmap \<Rightarrow> 'w \<Rightarrow> 'w" where
  "cleanLegacyService env ord active cur w = range_in ord (clean_one env active) cur w"

section \<open>A sync\<close>

definition svc_name_string :: "service_port_name \<Rightarrow> string" where
  "svc_name_string svcName =
     ReplaceAll (ReplaceAll (ServicePortName_String svcName) (CHR ''/'') (CHR ''.'')) (CHR '':'') (CHR ''.'')"

text \<open>
  The objects of a service port. A protocol that is neither \<open>tcp\<close> nor \<open>http\<close> becomes \<open>tcp\<close> in the
  backend; the frontend keeps it.
\<close>

definition haproxy_objects ::
    "k8s_ext \<Rightarrow> proxier \<Rightarrow> service_port_name \<Rightarrow> base_service_info \<Rightarrow> haproxy_info" where
  "haproxy_objects x p svcName info =
     (let proto = ToLower (protocol info);
          name = svc_name_string svcName;
          backendEntry = zero_backend\<lparr>bk_Name := BACKEND_PREFIX @ name,
            Balance := Some (serverAlgorithm p), bk_Mode := proto, CheckTimeout := Some checkTimeout\<rparr>;
          backendEntry =
            (if proto = ''tcp'' then backendEntry
             else if proto = ''http''
             then backendEntry\<lparr>Httpchk := Some (''get'', ''/ping''), Forwardfor := Some forwordEnable\<rparr>
             else backendEntry\<lparr>bk_Mode := ''tcp''\<rparr>);
          frontendEntry = zero_frontend\<lparr>fe_Name := FRONTEND_PREFIX @ name,
            DefaultBackend := BACKEND_PREFIX @ name, fe_Mode := proto\<rparr>;
          backendEntry =
            (if fe_Mode frontendEntry = ''http'' then backendEntry\<lparr>Forwardfor := Some forwordEnable\<rparr>
             else backendEntry);
          bindEntry = zero_bind\<lparr>bd_Name := BIND_PREFIX @ name, bd_Port := Some (port info),
            bd_Address := IPString x (proxyIP p)\<rparr>
      in \<lparr>hi_Backend = backendEntry, hi_Bind = bindEntry, hi_Frontend = frontendEntry\<rparr>)"

definition skipped :: "proxier \<Rightarrow> string \<Rightarrow> bool" where
  "skipped p name \<longleftrightarrow> px_mode p = ''of'' \<and>
     (Contains name ''default.kubernetes'' \<or> Contains name ''kube-system.kube-dns'')"

text \<open>One round of the loop: the active services, the graceful list and the state outside.\<close>

definition sync_one ::
    "k8s_ext \<Rightarrow> ('b, 'w) rest_env \<Rightarrow> (server fset \<Rightarrow> server list) \<Rightarrow> proxier \<Rightarrow>
     service_port_name \<Rightarrow> service_port \<Rightarrow> string fset \<times> srv_list \<times> 'w \<Rightarrow>
     string fset \<times> srv_list \<times> 'w" where
  "sync_one x env elems p svcName svc st =
     (case svc of
        BaseServiceInfo _ \<Rightarrow> st
      | ServiceInfo info _ \<Rightarrow>
          (case st of (active, q, w) \<Rightarrow>
             let name = svc_name_string svcName;
                 obj = haproxy_objects x p svcName info
             in if skipped p name then st
                else
                  (let (err, w1) = syncService env obj w
                   in if err = None
                      then (let (q', w2) = syncEndpoint x env elems (isHealthCheck p) (endpointsMap p)
                                  svcName (bk_Name (hi_Backend obj)) (q, w1)
                            in (finsert name active, q', w2))
                      else (active, q, w1))))"

record sync_orders =
  so_eps :: visit_orders
  so_items :: "namespaced_name list"
  so_hc :: "service_map \<Rightarrow> service_port_name list"
  so_services :: "service_map \<Rightarrow> service_port_name list"
  so_servers :: "server fset \<Rightarrow> server list"
  so_legacy :: "(string, service) fmap \<Rightarrow> string list"

definition isInitialized :: "proxier \<Rightarrow> bool" where
  "isInitialized p \<longleftrightarrow> initialized p > 0"

definition setInitialized :: "bool \<Rightarrow> proxier \<Rightarrow> proxier" where
  "setInitialized value p = p\<lparr>initialized := (if value then 1 else 0)\<rparr>"

text \<open>Updating the two maps, the first part of a sync.\<close>

definition update_maps :: "k8s_ext \<Rightarrow> sync_orders \<Rightarrow> proxier \<Rightarrow>
    (proxier \<times> update_service_map_result \<times> update_endpoint_map_result) result" where
  "update_maps x so p =
     (let (sm, sct, sres) = UpdateServiceMap x (so_items so) (so_hc so) (serviceMap p) (serviceChanges p)
      in bindr (UpdateEndpointsMap x (so_eps so) (endpointsMap p) (endpointsChanges p)) (\<lambda>(em, ect, eres).
           Inr (p\<lparr>serviceMap := sm, serviceChanges := sct, endpointsMap := em, endpointsChanges := ect\<rparr>,
                sres, eres)))"

text \<open>The stale addresses of a sync; the code computes the set and does not use it further.\<close>

definition stale_services :: "k8s_ext \<Rightarrow> service_map \<Rightarrow> string fset \<Rightarrow> service_port_name list \<Rightarrow> string fset" where
  "stale_services x sm stale names =
     foldl (\<lambda>st spn. case fmlookup sm spn of
         None \<Rightarrow> st
       | Some svc \<Rightarrow>
           if IsClearConntrackNeeded x (protocol (base_of svc))
           then finsert (IPString x (clusterIP (base_of svc))) (fset_of_list (externalIPs (base_of svc)) |\<union>| st)
           else st) stale names"

definition current_services :: "service list \<Rightarrow> (string, service) fmap" where
  "current_services services = foldl (\<lambda>m svc. fmupd (s_Name svc) svc m) fmempty services"

definition syncProxyRules ::
    "k8s_ext \<Rightarrow> ('b, 'w) rest_env \<Rightarrow> sync_orders \<Rightarrow> proxier \<Rightarrow> 'w \<Rightarrow> (proxier \<times> 'w) result" where
  "syncProxyRules x env so p w =
     (if \<not> isInitialized p then Inr (p, w)
      else bindr (update_maps x so p) (\<lambda>(p1, sres, eres).
        let (healthy, w1) = EnsureHaproxy w
        in if \<not> healthy then Inr (p1, w1)
           else
             let (active, q, w2) = range_in (so_services so (serviceMap p1))
                   (sync_one x env (so_servers so) p1) (serviceMap p1)
                   ({||}, gracefuldeleteManager p1, w1)
             in bindr (GetServices env w2) (\<lambda>(services, w3).
                  let cur = current_services services
                  in Inr (p1\<lparr>gracefuldeleteManager := q\<rparr>,
                       cleanLegacyService env (so_legacy so cur) active cur w3))))"

section \<open>Events\<close>

text \<open>
  Every handler returns whether it asked for a sync (\<open>Sync\<close>). The three notifications at the
  end of the initial lists run a sync themselves.
\<close>

definition OnServiceUpdate ::
    "k8s_ext \<Rightarrow> v1_service option \<Rightarrow> v1_service option \<Rightarrow> proxier \<Rightarrow> (bool \<times> proxier) result" where
  "OnServiceUpdate x oldService service p =
     bindr (sct_update x oldService service (serviceChanges p)) (\<lambda>(changed, sct).
       let p' = p\<lparr>serviceChanges := sct\<rparr> in Inr (changed \<and> isInitialized p', p'))"

definition OnServiceAdd :: "k8s_ext \<Rightarrow> v1_service option \<Rightarrow> proxier \<Rightarrow> (bool \<times> proxier) result" where
  "OnServiceAdd x service p = OnServiceUpdate x None service p"

definition OnServiceDelete :: "k8s_ext \<Rightarrow> v1_service option \<Rightarrow> proxier \<Rightarrow> (bool \<times> proxier) result" where
  "OnServiceDelete x service p = OnServiceUpdate x service None p"

definition OnServiceSynced ::
    "k8s_ext \<Rightarrow> ('b, 'w) rest_env \<Rightarrow> sync_orders \<Rightarrow> proxier \<Rightarrow> 'w \<Rightarrow> (proxier \<times> 'w) result" where
  "OnServiceSynced x env so p w =
     (let p1 = p\<lparr>servicesSynced := True\<rparr>
      in syncProxyRules x env so (setInitialized (endpointsSynced p1) p1) w)"

definition OnEndpointsUpdate ::
    "k8s_ext \<Rightarrow> v1_endpoints option \<Rightarrow> v1_endpoints option \<Rightarrow> proxier \<Rightarrow> bool \<times> proxier" where
  "OnEndpointsUpdate x oldEndpoints endpoints p =
     (let (changed, ect) = ect_update x oldEndpoints endpoints (endpointsChanges p);
          p' = p\<lparr>endpointsChanges := ect\<rparr>
      in (changed \<and> isInitialized p', p'))"

definition OnEndpointsAdd :: "k8s_ext \<Rightarrow> v1_endpoints option \<Rightarrow> proxier \<Rightarrow> bool \<times> proxier" where
  "OnEndpointsAdd x endpoints p = OnEndpointsUpdate x None endpoints p"

definition OnEndpointsDelete :: "k8s_ext \<Rightarrow> v1_endpoints option \<Rightarrow> proxier \<Rightarrow> bool \<times> proxier" where
  "OnEndpointsDelete x endpoints p = OnEndpointsUpdate x endpoints None p"

definition OnEndpointsSynced ::
    "k8s_ext \<Rightarrow> ('b, 'w) rest_env \<Rightarrow> sync_orders \<Rightarrow> proxier \<Rightarrow> 'w \<Rightarrow> (proxier \<times> 'w) result" where
  "OnEndpointsSynced x env so p w =
     (let p1 = p\<lparr>endpointsSynced := True\<rparr>
      in syncProxyRules x env so (setInitialized (servicesSynced p1) p1) w)"

definition slice_event ::
    "k8s_ext \<Rightarrow> endpoint_slice option \<Rightarrow> bool \<Rightarrow> proxier \<Rightarrow> (bool \<times> proxier) result" where
  "slice_event x slice remove p =
     bindr (EndpointSliceUpdate x slice remove (endpointsChanges p)) (\<lambda>(changed, ect).
       let p' = p\<lparr>endpointsChanges := ect\<rparr> in Inr (changed \<and> isInitialized p', p'))"

definition OnEndpointSliceAdd ::
    "k8s_ext \<Rightarrow> endpoint_slice option \<Rightarrow> proxier \<Rightarrow> (bool \<times> proxier) result" where
  "OnEndpointSliceAdd x slice p = slice_event x slice False p"

definition OnEndpointSliceUpdate ::
    "k8s_ext \<Rightarrow> endpoint_slice option \<Rightarrow> endpoint_slice option \<Rightarrow> proxier \<Rightarrow> (bool \<times> proxier) result" where
  "OnEndpointSliceUpdate x old slice p = slice_event x slice False p"

definition OnEndpointSliceDelete ::
    "k8s_ext \<Rightarrow> endpoint_slice option \<Rightarrow> proxier \<Rightarrow> (bool \<times> proxier) result" where
  "OnEndpointSliceDelete x slice p = slice_event x slice True p"

definition OnEndpointSlicesSynced ::
    "k8s_ext \<Rightarrow> ('b, 'w) rest_env \<Rightarrow> sync_orders \<Rightarrow> proxier \<Rightarrow> 'w \<Rightarrow> (proxier \<times> 'w) result" where
  "OnEndpointSlicesSynced x env so p w =
     (let p1 = p\<lparr>endpointSlicesSynced := True\<rparr>
      in syncProxyRules x env so (setInitialized (servicesSynced p1) p1) w)"


section \<open>Lemmas: names\<close>

definition dns_char :: "char \<Rightarrow> bool" where
  "dns_char c \<longleftrightarrow> (let n = of_char c :: nat in 97 \<le> n \<and> n \<le> 122 \<or> 48 \<le> n \<and> n \<le> 57 \<or> n = 45)"

definition dns_label :: "string \<Rightarrow> bool" where
  "dns_label s \<longleftrightarrow> s \<noteq> '''' \<and> list_all dns_char s"

text \<open>What the API server accepts as the names of a namespace, a service and a port.\<close>

definition dns_name_ok :: "service_port_name \<Rightarrow> bool" where
  "dns_name_ok spn \<longleftrightarrow> dns_label (Namespace (NamespacedName_of spn)) \<and>
     dns_label (Name (NamespacedName_of spn)) \<and> (Port spn = '''' \<or> dns_label (Port spn))"

lemma dns_char_not: "dns_char c \<Longrightarrow> c \<noteq> CHR ''/'' \<and> c \<noteq> CHR '':'' \<and> c \<noteq> CHR ''.'' \<and> c \<notin> set ''FRONTEND.''"
  by (auto simp: dns_char_def)

lemma dns_label_plain: "dns_label s \<Longrightarrow> plain s"
  by (auto simp: dns_label_def plain_def list_all_iff dest: dns_char_not)

lemma dns_name_plain: "dns_name_ok spn \<Longrightarrow> plain_name spn"
  by (auto simp: dns_name_ok_def plain_name_def dns_label_plain) (simp add: plain_def)

lemma ReplaceAll_plain: "plain s \<Longrightarrow> ReplaceAll (ReplaceAll s (CHR ''/'') (CHR ''.'')) (CHR '':'') (CHR ''.'') = s"
  by (auto simp: ReplaceAll_def plain_def intro!: map_idI)

lemma svc_name_string_plain:
  assumes "plain_name spn"
  shows "svc_name_string spn = Namespace (NamespacedName_of spn) @ CHR ''.'' # Name (NamespacedName_of spn) @
     (if Port spn = '''' then '''' else CHR ''.'' # Port spn)"
  using assms ReplaceAll_plain [unfolded ReplaceAll_def]
  by (auto simp: svc_name_string_def ServicePortName_String_def NamespacedName_String_def
      fmtPortName_def plain_name_def ReplaceAll_def)

lemma svc_name_inject:
  assumes "plain_name a" and "plain_name b" and "svc_name_string a = svc_name_string b"
  shows "NamespacedName_of a = NamespacedName_of b \<and> Port a = Port b"
proof -
  let ?rest = "\<lambda>spn. if Port spn = '''' then '''' else CHR ''.'' # Port spn"
  have no: "CHR ''.'' \<notin> set (Namespace (NamespacedName_of a))" "CHR ''.'' \<notin> set (Namespace (NamespacedName_of b))"
      "CHR ''.'' \<notin> set (Name (NamespacedName_of a))" "CHR ''.'' \<notin> set (Name (NamespacedName_of b))"
    using assms by (auto simp: plain_name_def plain_def)
  have eq: "Namespace (NamespacedName_of a) = Namespace (NamespacedName_of b)"
      "Name (NamespacedName_of a) @ ?rest a = Name (NamespacedName_of b) @ ?rest b"
    using assms(3) append_sep_inject [OF no(1,2)]
    unfolding svc_name_string_plain [OF assms(1)] svc_name_string_plain [OF assms(2)] by blast+
  have "Name (NamespacedName_of a) = Name (NamespacedName_of b) \<and> Port a = Port b"
  proof (cases "Port a = '''' \<or> Port b = ''''")
    case True
    then show ?thesis using eq(2) no by (auto split: if_splits) (metis in_set_conv_decomp)+
  next
    case False
    then show ?thesis using eq(2) append_sep_inject [OF no(3,4)] by simp
  qed
  then show ?thesis using eq(1) by (cases "NamespacedName_of a"; cases "NamespacedName_of b") simp
qed

lemma Trim_frontend:
  assumes "s \<noteq> ''''" and "hd s \<notin> set ''FRONTEND.''" and "last s \<notin> set ''FRONTEND.''"
  shows "Trim (FRONTEND_PREFIX @ s) ''FRONTEND.'' = s"
  unfolding Trim_def FRONTEND_PREFIX_def using assms by (intro trim_by_append) auto

lemma svc_name_string_ends:
  assumes "dns_name_ok spn"
  shows "svc_name_string spn \<noteq> ''''" "hd (svc_name_string spn) \<notin> set ''FRONTEND.''"
    "last (svc_name_string spn) \<notin> set ''FRONTEND.''"
proof -
  let ?ns = "Namespace (NamespacedName_of spn)" and ?n = "Name (NamespacedName_of spn)"
  have labels: "?ns \<noteq> ''''" "list_all dns_char ?ns" "?n \<noteq> ''''" "list_all dns_char ?n"
      "list_all dns_char (Port spn)"
    using assms by (auto simp: dns_name_ok_def dns_label_def)
  note s = svc_name_string_plain [OF dns_name_plain [OF assms]]
  show "svc_name_string spn \<noteq> ''''" by (simp add: s)
  have "dns_char (hd ?ns)" "dns_char (last ?n)" "Port spn \<noteq> '''' \<Longrightarrow> dns_char (last (Port spn))"
    using labels by (auto simp: list_all_iff)
  then show "hd (svc_name_string spn) \<notin> set ''FRONTEND.''"
    "last (svc_name_string spn) \<notin> set ''FRONTEND.''"
    using labels(1,3) dns_char_not unfolding s by (auto simp del: insert_iff set_simps)
qed

lemma service_name_recovered:
  assumes "dns_name_ok spn" and "fe_Name f = FRONTEND_PREFIX @ svc_name_string spn"
  shows "s_Name (service_of bs f) = svc_name_string spn"
  using Trim_frontend [OF svc_name_string_ends [OF assms(1)]] assms(2) by (simp add: service_of_def)

end
