(* ===== verification/Sync_Spec.thy ===== *)
theory Sync_Spec
  imports Proxier
begin

text \<open>
  What a sync promises, stated on the objects stored in HAProxy, and the refinement: the
  operations of the proxier, run through the client against any server that keeps the laws of
  \<open>haproxy_store\<close>, do exactly this. The objects of one service port are a \<open>svc_view\<close>; a step of
  the sync is a function of the view of its own name and leaves every other name alone.
\<close>

section \<open>The objects of one name\<close>

record svc_view =
  sv_backend :: "backend option"
  sv_frontend :: "frontend option"
  sv_bind :: "bind option"
  sv_servers :: "string \<Rightarrow> server option"

definition view_of :: "string \<Rightarrow> store \<Rightarrow> svc_view" where
  "view_of nm st =
     \<lparr>sv_backend = fmlookup (st_backends st) (BACKEND_PREFIX @ nm),
      sv_frontend = fmlookup (st_frontends st) (FRONTEND_PREFIX @ nm),
      sv_bind = fmlookup (st_binds st) (FRONTEND_PREFIX @ nm, BIND_PREFIX @ nm),
      sv_servers = (\<lambda>n. fmlookup (st_servers st) (BACKEND_PREFIX @ nm, n))\<rparr>"

text \<open>Nothing of another name has changed.\<close>

definition same_outside :: "string \<Rightarrow> store \<Rightarrow> store \<Rightarrow> bool" where
  "same_outside nm st st' \<longleftrightarrow>
     (\<forall>k. k \<noteq> BACKEND_PREFIX @ nm \<longrightarrow> fmlookup (st_backends st') k = fmlookup (st_backends st) k) \<and>
     (\<forall>k. k \<noteq> FRONTEND_PREFIX @ nm \<longrightarrow> fmlookup (st_frontends st') k = fmlookup (st_frontends st) k) \<and>
     (\<forall>k. fst k \<noteq> FRONTEND_PREFIX @ nm \<longrightarrow> fmlookup (st_binds st') k = fmlookup (st_binds st) k) \<and>
     (\<forall>k. fst k \<noteq> BACKEND_PREFIX @ nm \<longrightarrow> fmlookup (st_servers st') k = fmlookup (st_servers st) k)"

lemma same_outside_refl [simp]: "same_outside nm st st"
  by (simp add: same_outside_def)

lemma same_outside_trans: "same_outside nm a b \<Longrightarrow> same_outside nm b c \<Longrightarrow> same_outside nm a c"
  by (simp add: same_outside_def)

lemma same_outside_view: "same_outside nm st st' \<Longrightarrow> nm' \<noteq> nm \<Longrightarrow> view_of nm' st' = view_of nm' st"
  by (simp add: same_outside_def view_of_def)

section \<open>The steps\<close>

text \<open>
  A backend that is not there is created, unless the server refuses its mode or its load
  balancing; one that is there stays as it is, and the step succeeds only if it is the wanted
  one (or has the mode \<open>udp\<close>), because replacing it cannot succeed. Frontends alike. A bind is
  always brought to the wanted state.
\<close>

definition backend_step :: "backend \<Rightarrow> backend option \<Rightarrow> bool \<times> backend option" where
  "backend_step B cur =
     (case cur of
        None \<Rightarrow> if valid_backend B then (True, Some B) else (False, None)
      | Some b \<Rightarrow> (bk_Mode b = ''udp'' \<or> b = B, Some b))"

definition frontend_step :: "frontend \<Rightarrow> frontend option \<Rightarrow> bool \<times> frontend option" where
  "frontend_step F cur =
     (case cur of
        None \<Rightarrow> if valid_mode (fe_Mode F) then (True, Some F) else (False, None)
      | Some f \<Rightarrow> (fe_Mode f = ''udp'' \<or> f = F, Some f))"

definition service_step :: "haproxy_info \<Rightarrow> svc_view \<Rightarrow> bool \<times> svc_view" where
  "service_step obj v =
     (let (okb, b) = backend_step (hi_Backend obj) (sv_backend v); v1 = v\<lparr>sv_backend := b\<rparr>
      in if \<not> okb then (False, v1)
         else let (okf, f) = frontend_step (hi_Frontend obj) (sv_frontend v1);
                  v2 = v1\<lparr>sv_frontend := f\<rparr>
              in if \<not> okf then (False, v2) else (True, v2\<lparr>sv_bind := Some (hi_Bind obj)\<rparr>))"

text \<open>
  The servers: a wanted one is added if its name is free, one that is not wanted as it is
  gets deleted. A server that differs from the wanted one of its name is only deleted.
\<close>

definition wanted_servers :: "k8s_ext \<Rightarrow> bool \<Rightarrow> endpoint list \<Rightarrow> string \<Rightarrow> server option" where
  "wanted_servers x hc eps = map_of (map (\<lambda>e. (srv_Name (endpoint_server x hc e), endpoint_server x hc e)) eps)"

definition servers_step ::
    "(string \<Rightarrow> server option) \<Rightarrow> (string \<Rightarrow> server option) \<Rightarrow> string \<Rightarrow> server option" where
  "servers_step want cur n =
     (case cur n of None \<Rightarrow> want n | Some s \<Rightarrow> if want n = Some s then Some s else None)"

definition port_step ::
    "haproxy_info \<Rightarrow> (string \<Rightarrow> server option) \<Rightarrow> svc_view \<Rightarrow> bool \<times> svc_view" where
  "port_step obj want v =
     (let (good, v') = service_step obj v
      in if good then (True, v'\<lparr>sv_servers := servers_step want (sv_servers v')\<rparr>) else (False, v'))"

text \<open>The objects that are built for a name carry that name.\<close>

definition named_for :: "string \<Rightarrow> haproxy_info \<Rightarrow> bool" where
  "named_for nm obj \<longleftrightarrow> bk_Name (hi_Backend obj) = BACKEND_PREFIX @ nm \<and>
     fe_Name (hi_Frontend obj) = FRONTEND_PREFIX @ nm \<and> bd_Name (hi_Bind obj) = BIND_PREFIX @ nm"

lemma haproxy_objects_named: "named_for (svc_name_string spn) (haproxy_objects x p spn info)"
  by (simp add: named_for_def haproxy_objects_def Let_def zero_backend_def
      zero_frontend_def zero_bind_def)

lemma prefixes [simp]:
  "BACKEND_PREFIX \<noteq> ''''" "FRONTEND_PREFIX \<noteq> ''''" "BIND_PREFIX \<noteq> ''''"
  by (simp_all add: BACKEND_PREFIX_def FRONTEND_PREFIX_def BIND_PREFIX_def)

text \<open>Adding servers one after the other: the first one of a free name wins.\<close>

definition add_one :: "server \<Rightarrow> (string \<Rightarrow> server option) \<Rightarrow> string \<Rightarrow> server option" where
  "add_one s M = (case M (srv_Name s) of None \<Rightarrow> M(srv_Name s \<mapsto> s) | Some _ \<Rightarrow> M)"

definition add_all :: "server list \<Rightarrow> (string \<Rightarrow> server option) \<Rightarrow> string \<Rightarrow> server option" where
  "add_all xs M = foldl (\<lambda>M s. add_one s M) M xs"

lemma add_all_eq:
  "add_all xs M n = (case M n of Some s \<Rightarrow> Some s | None \<Rightarrow> map_of (map (\<lambda>s. (srv_Name s, s)) xs) n)"
  by (induction xs arbitrary: M) (auto simp: add_all_def add_one_def split: option.splits)

text \<open>A server is determined by its name: the name holds the address and the port.\<close>

lemma endpoint_server_name:
  "srv_Name (endpoint_server x hc e) = SERVER_PREFIX @ endpoint_String e"
  by (simp add: endpoint_server_def zero_server_def)

lemma endpoint_server_inject:
  "srv_Name (endpoint_server x hc e) = srv_Name (endpoint_server x hc e') \<Longrightarrow>
     endpoint_server x hc e = endpoint_server x hc e'"
  by (simp add: endpoint_server_def endpoint_String_def endpoint_IP_def endpoint_Port_def zero_server_def)

lemma map_of_names:
  assumes "inj_on f (set xs)"
  shows "map_of (map (\<lambda>s. (f s, s)) xs) n = Some s \<longleftrightarrow> s \<in> set xs \<and> f s = n"
  using assms by (induction xs) (auto simp: inj_on_def)

lemma wanted_servers_iff:
  "wanted_servers x hc eps n = Some s \<longleftrightarrow> s \<in> endpoint_server x hc ` set eps \<and> srv_Name s = n"
proof -
  have "wanted_servers x hc eps = map_of (map (\<lambda>s. (srv_Name s, s)) (map (endpoint_server x hc) eps))"
    by (simp add: wanted_servers_def comp_def)
  moreover have "inj_on srv_Name (set (map (endpoint_server x hc) eps))"
    by (auto simp: inj_on_def intro: endpoint_server_inject)
  ultimately show ?thesis by (simp only: map_of_names set_map)
qed

text \<open>The order in which the set library lists a set.\<close>

definition lists_sets :: "('a fset \<Rightarrow> 'a list) \<Rightarrow> bool" where
  "lists_sets elems \<longleftrightarrow> (\<forall>S. distinct (elems S) \<and> set (elems S) = fset S)"

section \<open>One service\<close>

context haproxy_store begin

lemma stored_backend:
  "ok w \<Longrightarrow> fmlookup (st_backends (view w)) n = Some b \<Longrightarrow> bk_Name b = n"
  using wf [of w] by (auto simp: store_wf_def dest: fmpredD)

lemma stored_frontend:
  "ok w \<Longrightarrow> fmlookup (st_frontends (view w)) n = Some f \<Longrightarrow> fe_Name f = n"
  using wf [of w] by (auto simp: store_wf_def dest: fmpredD)

lemma stored_bind:
  "ok w \<Longrightarrow> fmlookup (st_binds (view w)) k = Some d \<Longrightarrow> bd_Name d = snd k"
  using wf [of w] by (auto simp: store_wf_def dest: fmpredD)

lemma stored_server:
  "ok w \<Longrightarrow> fmlookup (st_servers (view w)) k = Some s \<Longrightarrow> srv_Name s = snd k"
  using wf [of w] by (auto simp: store_wf_def dest: fmpredD)

text \<open>A backend that is not there has no servers.\<close>

lemma no_parent_no_server:
  assumes "ok w" and "sv_backend (view_of nm (view w)) = None"
  shows "sv_servers (view_of nm (view w)) n = None"
proof -
  have "(BACKEND_PREFIX @ nm) |\<in>| fmdom (st_backends (view w))"
    if "fmlookup (st_servers (view w)) (BACKEND_PREFIX @ nm, n) = Some s" for s
    using wf [OF assms(1)] that by (auto simp: store_wf_def dest: fmpredD)
  then show ?thesis using assms(2)
    by (cases "fmlookup (st_servers (view w)) (BACKEND_PREFIX @ nm, n)") (auto simp: view_of_def)
qed

lemma sync_backend_exact:
  assumes "ok w" and "bk_Name (hi_Backend obj) \<noteq> ''''"
  defines "cur \<equiv> fmlookup (st_backends (view w)) (bk_Name (hi_Backend obj))"
  shows "\<exists>err w'. sync_backend env obj w = (err, w') \<and> ok w' \<and>
     (err = None \<longleftrightarrow> fst (backend_step (hi_Backend obj) cur)) \<and>
     view w' = (if cur = None \<and> valid_backend (hi_Backend obj) then view w\<lparr>st_backends :=
         fmupd (bk_Name (hi_Backend obj)) (hi_Backend obj) (st_backends (view w))\<rparr> else view w)"
proof -
  let ?B = "hi_Backend obj"
  obtain w1 where g: "GetBackend env (bk_Name ?B) w = (lookup_or zero_backend (st_backends (view w)) (bk_Name ?B), w1)"
      "ok w1" "view w1 = view w"
    using get_backend [OF assms(1,2)] by blast
  show ?thesis
  proof (cases cur)
    case None
    have free: "bk_Name ?B |\<notin>| fmdom (st_backends (view w1))"
      using None g(3) by (simp add: cur_def fmlookup_dom_iff)
    have z: "bk_Mode zero_backend \<noteq> ''udp''" by (simp add: zero_backend_def)
    obtain r w2 where a: "AddBackend env ?B w1 = (r, w2)" "ok w2"
        "if \<not> valid_backend ?B then \<not> fst r \<and> snd r \<noteq> None \<and> view w2 = view w1
         else r = (True, None) \<and> view w2 = view w1\<lparr>st_backends := fmupd (bk_Name ?B) ?B (st_backends (view w1))\<rparr>"
      using add_backend [OF g(2) assms(2)] free by (fastforce split: if_splits)
    then show ?thesis using None g z
      by (cases r) (auto simp: sync_backend_def cur_def backend_step_def add_error_def split: if_splits)
  next
    case (Some b)
    have "bk_Name b = bk_Name ?B" using stored_backend [OF assms(1)] Some unfolding cur_def by blast
    then have nz: "b \<noteq> zero_backend" using assms(2) by auto
    have look: "lookup_or zero_backend (st_backends (view w)) (bk_Name ?B) = b"
      using Some by (simp add: cur_def)
    show ?thesis
    proof (cases "bk_Mode b = ''udp'' \<or> b = ?B")
      case True
      then show ?thesis using g nz look Some by (auto simp: sync_backend_def backend_step_def)
    next
      case False
      obtain r e w2 where "ReplaceBackend env (bk_Name b) ?B w1 = ((r, Some e), w2)" "ok w2" "view w2 = view w1"
        using replace_backend_fails [OF g(2)] by blast
      then show ?thesis using False g nz look Some by (simp add: sync_backend_def backend_step_def)
    qed
  qed
qed

lemma sync_frontend_exact:
  assumes "ok w" and "fe_Name (hi_Frontend obj) \<noteq> ''''"
  defines "cur \<equiv> fmlookup (st_frontends (view w)) (fe_Name (hi_Frontend obj))"
  shows "\<exists>err w'. sync_frontend env obj w = (err, w') \<and> ok w' \<and>
     (err = None \<longleftrightarrow> fst (frontend_step (hi_Frontend obj) cur)) \<and>
     view w' = (if cur = None \<and> valid_mode (fe_Mode (hi_Frontend obj)) then view w\<lparr>st_frontends :=
         fmupd (fe_Name (hi_Frontend obj)) (hi_Frontend obj) (st_frontends (view w))\<rparr> else view w)"
proof -
  let ?F = "hi_Frontend obj"
  obtain w1 where g: "GetFrontend env (fe_Name ?F) w = (lookup_or zero_frontend (st_frontends (view w)) (fe_Name ?F), w1)"
      "ok w1" "view w1 = view w"
    using get_frontend [OF assms(1,2)] by blast
  show ?thesis
  proof (cases cur)
    case None
    have free: "fe_Name ?F |\<notin>| fmdom (st_frontends (view w1))"
      using None g(3) by (simp add: cur_def fmlookup_dom_iff)
    have z: "fe_Mode zero_frontend \<noteq> ''udp''" by (simp add: zero_frontend_def)
    obtain r w2 where a: "AddFrontend env ?F w1 = (r, w2)" "ok w2"
        "if \<not> valid_mode (fe_Mode ?F) then \<not> fst r \<and> snd r \<noteq> None \<and> view w2 = view w1
         else r = (True, None) \<and> view w2 = view w1\<lparr>st_frontends := fmupd (fe_Name ?F) ?F (st_frontends (view w1))\<rparr>"
      using add_frontend [OF g(2) assms(2)] free by (fastforce split: if_splits)
    then show ?thesis using None g z
      by (cases r) (auto simp: sync_frontend_def cur_def frontend_step_def add_error_def split: if_splits)
  next
    case (Some f)
    have "fe_Name f = fe_Name ?F" using stored_frontend [OF assms(1)] Some unfolding cur_def by blast
    then have nz: "f \<noteq> zero_frontend" using assms(2) by auto
    have look: "lookup_or zero_frontend (st_frontends (view w)) (fe_Name ?F) = f"
      using Some by (simp add: cur_def)
    show ?thesis
    proof (cases "fe_Mode f = ''udp'' \<or> f = ?F")
      case True
      then show ?thesis using g nz look Some by (auto simp: sync_frontend_def frontend_step_def)
    next
      case False
      obtain r e w2 where "ReplaceFrontend env f ?F w1 = ((r, Some e), w2)" "ok w2" "view w2 = view w1"
        using replace_frontend_fails [OF g(2)] by blast
      then show ?thesis using False g nz look Some by (simp add: sync_frontend_def frontend_step_def)
    qed
  qed
qed

lemma sync_bind_exact:
  assumes "ok w" and "fe_Name (hi_Frontend obj) \<noteq> ''''" and "bd_Name (hi_Bind obj) \<noteq> ''''"
    and "fe_Name (hi_Frontend obj) |\<in>| fmdom (st_frontends (view w))"
  defines "k \<equiv> (fe_Name (hi_Frontend obj), bd_Name (hi_Bind obj))"
  shows "\<exists>w'. sync_bind env obj w = (None, w') \<and> ok w' \<and>
     view w' = (if fmlookup (st_binds (view w)) k = Some (hi_Bind obj) then view w
       else view w\<lparr>st_binds := fmupd k (hi_Bind obj) (st_binds (view w))\<rparr>)"
proof -
  let ?D = "hi_Bind obj" and ?fe = "fe_Name (hi_Frontend obj)"
  obtain w1 where g: "GetBind env (bd_Name ?D) ?fe w = (lookup_or zero_bind (st_binds (view w)) k, w1)"
      "ok w1" "view w1 = view w"
    using get_bind [OF assms(1,3,2)] unfolding k_def by blast
  show ?thesis
  proof (cases "fmlookup (st_binds (view w)) k")
    case None
    have "k |\<notin>| fmdom (st_binds (view w1))" using None g(3) by (simp add: fmlookup_dom_iff)
    then obtain w2 where "AddBind env ?D ?fe w1 = ((True, None), w2)" "ok w2"
        "view w2 = view w1\<lparr>st_binds := fmupd k ?D (st_binds (view w1))\<rparr>"
      using add_bind [OF g(2) assms(3,2)] assms(4) g(3) unfolding k_def by auto
    then show ?thesis using None g by (simp add: sync_bind_def add_error_def)
  next
    case (Some d)
    have name: "bd_Name d = bd_Name ?D" using stored_bind [OF assms(1)] Some unfolding k_def by fastforce
    then have nz: "d \<noteq> zero_bind" using assms(3) by auto
    have "(?fe, bd_Name ?D) |\<in>| fmdom (st_binds (view w1))"
      using Some g(3) by (simp add: k_def fmlookup_dom_iff)
    then obtain w2 where "replaceBind env (bd_Name d) ?fe ?D w1 = ((True, None), w2)" "ok w2"
        "view w2 = view w1\<lparr>st_binds := fmupd k ?D (st_binds (view w1))\<rparr>"
      using replace_bind [OF g(2) assms(3,2)] name unfolding k_def by auto
    then show ?thesis using Some g nz by (auto simp: sync_bind_def)
  qed
qed

text \<open>The refinement: \<open>syncService\<close> does \<open>service_step\<close> on the view of its name.\<close>

lemma syncService_refines:
  assumes "ok w" and "named_for nm obj"
  shows "\<exists>err w'. syncService env obj w = (err, w') \<and> ok w' \<and>
     (err = None, view_of nm (view w')) = service_step obj (view_of nm (view w)) \<and>
     same_outside nm (view w) (view w')"
proof -
  have named: "bk_Name (hi_Backend obj) = BACKEND_PREFIX @ nm" "fe_Name (hi_Frontend obj) = FRONTEND_PREFIX @ nm"
      "bd_Name (hi_Bind obj) = BIND_PREFIX @ nm"
    using assms(2) by (simp_all add: named_for_def)
  have nonempty: "bk_Name (hi_Backend obj) \<noteq> ''''" "fe_Name (hi_Frontend obj) \<noteq> ''''" "bd_Name (hi_Bind obj) \<noteq> ''''"
    by (simp_all add: named)
  obtain e1 w1 where b: "sync_backend env obj w = (e1, w1)" "ok w1"
      "e1 = None \<longleftrightarrow> fst (backend_step (hi_Backend obj) (sv_backend (view_of nm (view w))))"
      "view w1 = (if sv_backend (view_of nm (view w)) = None \<and> valid_backend (hi_Backend obj)
         then view w\<lparr>st_backends :=
           fmupd (BACKEND_PREFIX @ nm) (hi_Backend obj) (st_backends (view w))\<rparr> else view w)"
    using sync_backend_exact [OF assms(1) nonempty(1)] unfolding view_of_def named(1) by auto
  have v1: "view_of nm (view w1) = (view_of nm (view w))\<lparr>sv_backend :=
        snd (backend_step (hi_Backend obj) (sv_backend (view_of nm (view w))))\<rparr>"
      "same_outside nm (view w) (view w1)"
    using b(4) by (auto simp: view_of_def backend_step_def same_outside_def split: option.splits)
  show ?thesis
  proof (cases e1)
    case (Some e)
    then show ?thesis using b v1
      by (auto simp: syncService_def service_step_def Let_def split: prod.splits)
  next
    case None
    note e1 = None
    obtain e2 w2 where f: "sync_frontend env obj w1 = (e2, w2)" "ok w2"
        "e2 = None \<longleftrightarrow> fst (frontend_step (hi_Frontend obj) (sv_frontend (view_of nm (view w1))))"
        "view w2 = (if sv_frontend (view_of nm (view w1)) = None \<and> valid_mode (fe_Mode (hi_Frontend obj))
           then view w1\<lparr>st_frontends := fmupd (FRONTEND_PREFIX @ nm) (hi_Frontend obj) (st_frontends (view w1))\<rparr>
           else view w1)"
      using sync_frontend_exact [OF b(2) nonempty(2)] unfolding view_of_def named(2) by auto
    have v2: "view_of nm (view w2) = (view_of nm (view w1))\<lparr>sv_frontend :=
          snd (frontend_step (hi_Frontend obj) (sv_frontend (view_of nm (view w1))))\<rparr>"
        "same_outside nm (view w1) (view w2)"
      using f(4) by (auto simp: view_of_def frontend_step_def same_outside_def split: option.splits)
    show ?thesis
    proof (cases e2)
      case (Some e)
      then show ?thesis using b f v1 v2 e1 same_outside_trans [OF v1(2) v2(2)]
        by (auto simp: syncService_def service_step_def Let_def split: prod.splits)
    next
      case None
      then have "sv_frontend (view_of nm (view w2)) \<noteq> None"
        using f(3) v2(1) by (auto simp: frontend_step_def split: option.splits if_splits)
      then have "FRONTEND_PREFIX @ nm |\<in>| fmdom (st_frontends (view w2))"
        by (auto simp: view_of_def fmlookup_dom_iff)
      then obtain w3 where d: "sync_bind env obj w2 = (None, w3)" "ok w3"
          "view w3 = (if fmlookup (st_binds (view w2)) (FRONTEND_PREFIX @ nm, BIND_PREFIX @ nm) = Some (hi_Bind obj)
             then view w2
             else view w2\<lparr>st_binds := fmupd (FRONTEND_PREFIX @ nm, BIND_PREFIX @ nm) (hi_Bind obj) (st_binds (view w2))\<rparr>)"
        using sync_bind_exact [OF f(2) nonempty(2,3)] unfolding named(2,3) by auto
      have v3: "view_of nm (view w3) = (view_of nm (view w2))\<lparr>sv_bind := Some (hi_Bind obj)\<rparr>"
          "same_outside nm (view w2) (view w3)"
        using d(3) by (auto simp: view_of_def same_outside_def)
      show ?thesis using b f d v1 v2 v3 e1 None same_outside_trans [OF v1(2) same_outside_trans [OF v2(2) v3(2)]]
        by (auto simp: syncService_def service_step_def Let_def split: prod.splits)
    qed
  qed
qed

section \<open>The servers of a backend\<close>

lemma add_server_view:
  assumes "ok w" and "url_plain (srv_Name s)"
  shows "\<exists>r w'. AddServerToBackend env s (BACKEND_PREFIX @ nm) w = (r, w') \<and> ok w' \<and>
     same_outside nm (view w) (view w') \<and>
     view_of nm (view w') = (if sv_backend (view_of nm (view w)) = None then view_of nm (view w)
       else (view_of nm (view w))\<lparr>sv_servers := add_one s (sv_servers (view_of nm (view w)))\<rparr>)"
proof -
  have "BACKEND_PREFIX @ nm \<noteq> ''''" by simp
  from add_server [OF assms(1) this assms(2)] obtain r w' where
      "AddServerToBackend env s (BACKEND_PREFIX @ nm) w = (r, w')" "ok w'"
      "if sv_backend (view_of nm (view w)) = None then view w' = view w
       else if (BACKEND_PREFIX @ nm, srv_Name s) |\<in>| fmdom (st_servers (view w)) then view w' = view w
       else view w' = view w\<lparr>st_servers := fmupd (BACKEND_PREFIX @ nm, srv_Name s) s (st_servers (view w))\<rparr>"
    by (auto simp: view_of_def fmlookup_dom_iff split: if_splits)
  then show ?thesis
    by (auto simp: view_of_def add_one_def same_outside_def fmlookup_dom_iff fun_eq_iff split: if_splits option.splits)
qed

lemma delete_server_view:
  assumes "ok w" and "url_plain (srv_Name s)" and "sv_servers (view_of nm (view w)) (srv_Name s) = Some t"
  shows "\<exists>w'. GracefulDeleteSrv (handle_interface env) s (BACKEND_PREFIX @ nm) {||} w = (None, {||}, w') \<and> ok w' \<and>
     same_outside nm (view w) (view w') \<and>
     view_of nm (view w') = (view_of nm (view w))\<lparr>sv_servers := (sv_servers (view_of nm (view w)))(srv_Name s := None)\<rparr>"
proof -
  have "BACKEND_PREFIX @ nm \<noteq> ''''" by simp
  from GracefulDeleteSrv_removes [OF assms(1) this assms(2)] assms(3) obtain w' where
      "GracefulDeleteSrv (handle_interface env) s (BACKEND_PREFIX @ nm) {||} w = (None, {||}, w')" "ok w'"
      "view w' = view w\<lparr>st_servers := fmdrop (BACKEND_PREFIX @ nm, srv_Name s) (st_servers (view w))\<rparr>"
    by (auto simp: view_of_def)
  then show ?thesis by (auto simp: view_of_def same_outside_def fun_eq_iff)
qed

lemma new_servers_loop:
  assumes "ok w" and "\<And>s. s \<in> set xs \<Longrightarrow> url_plain (srv_Name s)"
    and "\<And>s. s |\<in>| cur \<Longrightarrow> sv_servers (view_of nm (view w)) (srv_Name s) \<noteq> None"
  shows "\<exists>w'. foldl (sync_new_server env (BACKEND_PREFIX @ nm) cur) ({||}, w) xs = ({||}, w') \<and> ok w' \<and>
     same_outside nm (view w) (view w') \<and>
     view_of nm (view w') = (if sv_backend (view_of nm (view w)) = None then view_of nm (view w)
       else (view_of nm (view w))\<lparr>sv_servers := add_all xs (sv_servers (view_of nm (view w)))\<rparr>)"
  using assms
proof (induction xs arbitrary: w)
  case Nil
  then show ?case by (simp add: add_all_def)
next
  case (Cons s xs)
  let ?M = "\<lambda>w. sv_servers (view_of nm (view w))"
  obtain w1 where w1: "sync_new_server env (BACKEND_PREFIX @ nm) cur ({||}, w) s = ({||}, w1)" "ok w1"
      "same_outside nm (view w) (view w1)"
      "view_of nm (view w1) = (if sv_backend (view_of nm (view w)) = None then view_of nm (view w)
         else (view_of nm (view w))\<lparr>sv_servers := add_one s (?M w)\<rparr>)"
  proof (cases "s |\<in>| cur")
    case True
    then have "add_one s (?M w) = ?M w" using Cons.prems(3) [OF True] by (auto simp: add_one_def)
    then show thesis using True Cons.prems(1)
      by (intro that [of w]) (simp_all add: sync_new_server_def InTerminationList_def srv_list_exist_def)
  next
    case False
    then show thesis using add_server_view [OF Cons.prems(1), of s nm] Cons.prems(2)
      by (auto simp: sync_new_server_def intro: that)
  qed
  have keep: "?M w1 n \<noteq> None" if "?M w n \<noteq> None" for n
    using that w1(4) by (auto simp: add_one_def split: option.splits if_splits)
  have there: "sv_backend (view_of nm (view w1)) = sv_backend (view_of nm (view w))" by (simp add: w1(4))
  obtain w2 where "foldl (sync_new_server env (BACKEND_PREFIX @ nm) cur) ({||}, w1) xs = ({||}, w2)" "ok w2"
      "same_outside nm (view w1) (view w2)"
      "view_of nm (view w2) = (if sv_backend (view_of nm (view w1)) = None then view_of nm (view w1)
         else (view_of nm (view w1))\<lparr>sv_servers := add_all xs (?M w1)\<rparr>)"
    using Cons.IH [OF w1(2)] Cons.prems(2,3) keep by auto
  then show ?case using w1 there same_outside_trans [OF w1(3)] by (auto simp: add_all_def)
qed

lemma old_servers_loop:
  assumes "ok w" and "\<And>s. s \<in> set xs \<Longrightarrow> url_plain (srv_Name s)" and "distinct (map srv_Name xs)"
    and "\<And>s. s \<in> set xs \<Longrightarrow> sv_servers (view_of nm (view w)) (srv_Name s) \<noteq> None"
  shows "\<exists>w'. foldl (sync_old_server env (BACKEND_PREFIX @ nm)) ({||}, w) xs = ({||}, w') \<and> ok w' \<and>
     same_outside nm (view w) (view w') \<and>
     view_of nm (view w') = (view_of nm (view w))\<lparr>sv_servers :=
       (\<lambda>n. if n \<in> srv_Name ` set xs then None else sv_servers (view_of nm (view w)) n)\<rparr>"
  using assms
proof (induction xs arbitrary: w)
  case Nil
  then show ?case by simp
next
  case (Cons s xs)
  let ?M = "\<lambda>w. sv_servers (view_of nm (view w))"
  obtain t where "?M w (srv_Name s) = Some t" using Cons.prems(4) by auto
  then obtain w1 where w1: "sync_old_server env (BACKEND_PREFIX @ nm) ({||}, w) s = ({||}, w1)" "ok w1"
      "same_outside nm (view w) (view w1)"
      "view_of nm (view w1) = (view_of nm (view w))\<lparr>sv_servers := (?M w)(srv_Name s := None)\<rparr>"
    using delete_server_view [OF Cons.prems(1), of s nm] Cons.prems(2)
    by (auto simp: sync_old_server_def InTerminationList_def srv_list_exist_def)
  have rest: "?M w1 (srv_Name y) \<noteq> None" if "y \<in> set xs" for y
    using Cons.prems(3,4) that w1(4) by (auto simp: image_iff)
  obtain w2 where "foldl (sync_old_server env (BACKEND_PREFIX @ nm)) ({||}, w1) xs = ({||}, w2)" "ok w2"
      "same_outside nm (view w1) (view w2)"
      "view_of nm (view w2) = (view_of nm (view w1))\<lparr>sv_servers :=
         (\<lambda>n. if n \<in> srv_Name ` set xs then None else ?M w1 n)\<rparr>"
    using Cons.IH [OF w1(2)] Cons.prems(2,3) rest by auto
  then show ?case using w1 same_outside_trans [OF w1(3)] by (auto simp: fun_eq_iff)
qed

lemma syncEndpoint_refines:
  fixes nm :: string
  defines "M \<equiv> \<lambda>w. sv_servers (view_of nm (view w))"
  assumes "ok w" and "lists_sets elems"
    and "\<And>n s. M w n = Some s \<Longrightarrow> url_plain n"
    and "\<And>e. e \<in> set eps \<Longrightarrow> url_plain (SERVER_PREFIX @ endpoint_String e)"
    and "eps = (case fmlookup em spn of Some l \<Rightarrow> l | None \<Rightarrow> [])"
  shows "\<exists>w'. syncEndpoint x env elems hc em spn (BACKEND_PREFIX @ nm) ({||}, w) = ({||}, w') \<and> ok w' \<and>
     same_outside nm (view w) (view w') \<and>
     view_of nm (view w') = (if sv_backend (view_of nm (view w)) = None then view_of nm (view w)
       else (view_of nm (view w))\<lparr>sv_servers := servers_step (wanted_servers x hc eps) (M w)\<rparr>)"
proof -
  define N where "N = fset_of_list (map (endpoint_server x hc) eps)"
  have N: "s |\<in>| N \<longleftrightarrow> s \<in> endpoint_server x hc ` set eps" for s
    by (simp only: N_def fset_of_list_elem set_map)
  have elems: "distinct (elems S)" "set (elems S) = fset S" for S
    using assms(3) by (auto simp: lists_sets_def)
  have "BACKEND_PREFIX @ nm \<noteq> ''''" by simp
  from get_servers [OF assms(2) this] obtain ss w1 where g:
      "GetServers env (BACKEND_PREFIX @ nm) w = (ss, w1)" "ok w1" "view w1 = view w"
      "\<And>s. s \<in> set ss \<longleftrightarrow> M w (srv_Name s) = Some s"
    by (auto simp: M_def view_of_def)
  define cur where "cur = fset_of_list ss"
  have cur: "s |\<in>| cur \<longleftrightarrow> M w (srv_Name s) = Some s" for s
    by (simp add: cur_def fset_of_list_elem g(4))
  have plainN: "url_plain (srv_Name s)" if "s \<in> set (elems N)" for s
    using that assms(5) by (auto simp: elems N endpoint_server_name)
  have cur1: "sv_servers (view_of nm (view w1)) (srv_Name s) \<noteq> None" if "s |\<in>| cur" for s
    using that by (simp add: cur g(3) M_def)
  obtain w2 where w2: "foldl (sync_new_server env (BACKEND_PREFIX @ nm) cur) ({||}, w1) (elems N) = ({||}, w2)" "ok w2"
      "same_outside nm (view w1) (view w2)"
      "view_of nm (view w2) = (if sv_backend (view_of nm (view w1)) = None then view_of nm (view w1)
         else (view_of nm (view w1))\<lparr>sv_servers := add_all (elems N) (M w1)\<rparr>)"
    using new_servers_loop [where xs = "elems N" and cur = cur, OF g(2) plainN cur1] unfolding M_def by auto
  have D: "s \<in> set (elems (cur |-| N)) \<longleftrightarrow> M w (srv_Name s) = Some s \<and> s |\<notin>| N" for s
    by (simp add: elems cur)
  have "distinct (map srv_Name (elems (cur |-| N)))"
    using elems(1) by (auto simp: distinct_map inj_on_def D)
  moreover have "url_plain (srv_Name s)" if "s \<in> set (elems (cur |-| N))" for s
    using that assms(4) by (auto simp: D)
  moreover have "sv_servers (view_of nm (view w2)) (srv_Name s) \<noteq> None" if "s \<in> set (elems (cur |-| N))" for s
    using that g(3) by (auto simp: D w2(4) add_all_eq M_def)
  ultimately obtain w3 where w3: "foldl (sync_old_server env (BACKEND_PREFIX @ nm)) ({||}, w2) (elems (cur |-| N)) = ({||}, w3)" "ok w3"
      "same_outside nm (view w2) (view w3)"
      "view_of nm (view w3) = (view_of nm (view w2))\<lparr>sv_servers :=
         (\<lambda>n. if n \<in> srv_Name ` set (elems (cur |-| N)) then None else M w2 n)\<rparr>"
    using old_servers_loop [OF w2(2), of "elems (cur |-| N)" nm] unfolding M_def by auto
  have want: "map_of (map (\<lambda>s. (srv_Name s, s)) (elems N)) = wanted_servers x hc eps"
  proof
    fix n
    have "inj_on srv_Name (set (elems N))"
      by (auto simp: inj_on_def elems N intro: endpoint_server_inject)
    then have "map_of (map (\<lambda>s. (srv_Name s, s)) (elems N)) n = Some s \<longleftrightarrow> wanted_servers x hc eps n = Some s" for s
      by (auto simp: map_of_names wanted_servers_iff elems N)
    then show "map_of (map (\<lambda>s. (srv_Name s, s)) (elems N)) n = wanted_servers x hc eps n"
      by (metis option.exhaust)
  qed
  have final: "(\<lambda>n. if n \<in> srv_Name ` set (elems (cur |-| N)) then None else M w2 n) =
      servers_step (wanted_servers x hc eps) (M w)" if there: "sv_backend (view_of nm (view w)) \<noteq> None"
  proof
    fix n
    have M2: "M w2 n = (case M w n of Some s \<Rightarrow> Some s | None \<Rightarrow> wanted_servers x hc eps n)"
      unfolding M_def w2(4) g(3) using there by (auto simp: add_all_eq want cong: option.case_cong)
    show "(if n \<in> srv_Name ` set (elems (cur |-| N)) then None else M w2 n) =
        servers_step (wanted_servers x hc eps) (M w) n"
    proof (cases "M w n")
      case None
      then show ?thesis using M2 by (auto simp: servers_step_def D)
    next
      case (Some s)
      have nm: "srv_Name s = n" using stored_server [OF assms(2)] Some by (fastforce simp: M_def view_of_def)
      then have "n \<in> srv_Name ` set (elems (cur |-| N)) \<longleftrightarrow> s |\<notin>| N" using Some by (force simp: D)
      then show ?thesis using M2 Some nm by (auto simp: servers_step_def wanted_servers_iff N)
    qed
  qed
  have "syncEndpoint x env elems hc em spn (BACKEND_PREFIX @ nm) ({||}, w) = ({||}, w3)"
    using g(1) w2(1) w3(1) assms(6) by (simp add: syncEndpoint_def N_def cur_def)
  moreover have "view_of nm (view w3) = view_of nm (view w)" if "sv_backend (view_of nm (view w)) = None"
  proof -
    have "M w n = None" for n using that no_parent_no_server [OF assms(2)] by (simp add: M_def)
    then have "\<forall>s. s \<notin> set (elems (cur |-| N))" by (simp add: D)
    then have "elems (cur |-| N) = []" by (cases "elems (cur |-| N)") auto
    then show ?thesis using w3(4) w2(4) g(3) that by (simp add: M_def)
  qed
  ultimately show ?thesis using w3 w2 g(3) final same_outside_trans [OF w2(3) w3(3)]
    by (intro exI [of _ w3]) (simp add: M_def)
qed

end

end
