(* ===== verification/Sync_Refine.thy ===== *)
theory Sync_Refine
  imports Sync_Spec
begin

text \<open>
  A whole sync. The abstract specification \<open>sync_spec\<close> works on the views of all names: every
  service port makes its step, and every frontend that is left without an active service goes,
  with its backend. The refinement says that \<open>syncProxyRules\<close> does this to the objects in
  HAProxy, whatever the order in which maps and sets are visited.
\<close>

section \<open>The abstract specification\<close>

type_synonym views = "string \<Rightarrow> svc_view"

definition no_objects :: svc_view where
  "no_objects = \<lparr>sv_backend = None, sv_frontend = None, sv_bind = None, sv_servers = (\<lambda>_. None)\<rparr>"

lemma no_objects_fields [simp]:
  "sv_backend no_objects = None" "sv_frontend no_objects = None" "sv_bind no_objects = None"
  "sv_servers no_objects = (\<lambda>_. None)"
  by (simp_all add: no_objects_def)

definition port_endpoints :: "proxier \<Rightarrow> service_port_name \<Rightarrow> endpoint list" where
  "port_endpoints p spn = (case fmlookup (endpointsMap p) spn of Some l \<Rightarrow> l | None \<Rightarrow> [])"

definition port_wanted :: "k8s_ext \<Rightarrow> proxier \<Rightarrow> service_port_name \<Rightarrow> string \<Rightarrow> server option" where
  "port_wanted x p spn = wanted_servers x (isHealthCheck p) (port_endpoints p spn)"

definition spec_one ::
    "k8s_ext \<Rightarrow> proxier \<Rightarrow> service_port_name \<Rightarrow> service_port \<Rightarrow> string fset \<times> views \<Rightarrow>
     string fset \<times> views" where
  "spec_one x p spn svc st =
     (case svc of
        BaseServiceInfo _ \<Rightarrow> st
      | ServiceInfo info _ \<Rightarrow>
          (case st of (active, V) \<Rightarrow>
             let nm = svc_name_string spn
             in if skipped p nm then st
                else let (good, v) = port_step (haproxy_objects x p spn info) (port_wanted x p spn) (V nm)
                     in (if good then finsert nm active else active, V(nm := v))))"

definition clean_spec :: "string fset \<Rightarrow> views \<Rightarrow> views" where
  "clean_spec active V = (\<lambda>nm. if sv_frontend (V nm) \<noteq> None \<and> nm |\<notin>| active then no_objects else V nm)"

definition sync_spec :: "k8s_ext \<Rightarrow> proxier \<Rightarrow> service_port_name list \<Rightarrow> views \<Rightarrow> views" where
  "sync_spec x p ord V =
     (let (active, V1) = range_in ord (spec_one x p) (serviceMap p) ({||}, V) in clean_spec active V1)"

definition views_of :: "store \<Rightarrow> views" where
  "views_of st = (\<lambda>nm. view_of nm st)"

section \<open>What the proxier keeps true of the store\<close>

text \<open>A name that \<open>GetServices\<close> recovers from the name of its frontend.\<close>

definition trimmed :: "string \<Rightarrow> bool" where
  "trimmed nm \<longleftrightarrow> nm \<noteq> '''' \<and> hd nm \<notin> set ''FRONTEND.'' \<and> last nm \<notin> set ''FRONTEND.''"

text \<open>
  Every frontend except \<open>stats\<close> is one the proxier made: it leads to the backend of its name,
  which exists. Modes and load balancing are those the server knows, and server names can stand
  in a URL.
\<close>

definition own_view :: "string \<Rightarrow> svc_view \<Rightarrow> bool" where
  "own_view nm v \<longleftrightarrow>
     (\<forall>f. sv_frontend v = Some f \<longrightarrow>
        trimmed nm \<and> DefaultBackend f = BACKEND_PREFIX @ nm \<and> valid_mode (fe_Mode f) \<and> sv_backend v \<noteq> None) \<and>
     (\<forall>b. sv_backend v = Some b \<longrightarrow> valid_backend b) \<and>
     (\<forall>n s. sv_servers v n = Some s \<longrightarrow> url_plain n)"

definition own_store :: "store \<Rightarrow> bool" where
  "own_store st \<longleftrightarrow> (\<forall>nm. own_view nm (view_of nm st)) \<and>
     (\<forall>k. k |\<in>| fmdom (st_frontends st) \<longrightarrow> k = ''stats'' \<or> (\<exists>nm. k = FRONTEND_PREFIX @ nm))"

text \<open>The names of the API objects are valid.\<close>

definition names_ok :: "proxier \<Rightarrow> bool" where
  "names_ok p \<longleftrightarrow> (\<forall>spn. spn |\<in>| fmdom (serviceMap p) \<longrightarrow> dns_name_ok spn) \<and>
     (\<forall>spn. \<forall>e \<in> set (port_endpoints p spn). url_plain (SERVER_PREFIX @ endpoint_String e))"

lemma named_trimmed: "dns_name_ok spn \<Longrightarrow> trimmed (svc_name_string spn)"
  using svc_name_string_ends by (simp add: trimmed_def)

lemma own_view_no_objects [simp]: "own_view nm no_objects"
  by (simp add: own_view_def no_objects_def)

lemma port_step_own:
  assumes "own_view nm v" and "trimmed nm" and "DefaultBackend (hi_Frontend obj) = BACKEND_PREFIX @ nm"
    and "\<And>n s. want n = Some s \<Longrightarrow> url_plain n"
  shows "own_view nm (snd (port_step obj want v))"
  using assms
  by (auto simp: own_view_def port_step_def service_step_def backend_step_def frontend_step_def servers_step_def
      Let_def split: option.splits if_splits prod.splits)

lemma objects_frontend:
  "DefaultBackend (hi_Frontend (haproxy_objects x p spn info)) = BACKEND_PREFIX @ svc_name_string spn"
  by (simp add: haproxy_objects_def Let_def)

text \<open>The objects with names that no service port has.\<close>

definition same_foreign :: "store \<Rightarrow> store \<Rightarrow> bool" where
  "same_foreign st st' \<longleftrightarrow>
     (\<forall>k. (\<forall>nm. k \<noteq> FRONTEND_PREFIX @ nm) \<longrightarrow> fmlookup (st_frontends st') k = fmlookup (st_frontends st) k) \<and>
     (\<forall>k. (\<forall>nm. k \<noteq> BACKEND_PREFIX @ nm) \<longrightarrow> fmlookup (st_backends st') k = fmlookup (st_backends st) k)"

lemma same_foreign_refl [simp]: "same_foreign st st"
  by (simp add: same_foreign_def)

lemma same_foreign_trans: "same_foreign a b \<Longrightarrow> same_foreign b c \<Longrightarrow> same_foreign a c"
  by (simp add: same_foreign_def)

lemma same_outside_foreign: "same_outside nm st st' \<Longrightarrow> same_foreign st st'"
  by (simp add: same_outside_def same_foreign_def)

lemma views_of_upd: "same_outside nm st st' \<Longrightarrow> view_of nm st' = v \<Longrightarrow> views_of st' = (views_of st)(nm := v)"
  by (rule ext) (simp add: views_of_def same_outside_view)

lemma own_store_same:
  assumes "own_store st" and "same_foreign st st'" and "\<And>nm. own_view nm (views_of st' nm)"
  shows "own_store st'"
proof -
  have "k = ''stats'' \<or> (\<exists>nm. k = FRONTEND_PREFIX @ nm)" if "k |\<in>| fmdom (st_frontends st')" for k
  proof (rule ccontr)
    assume no: "\<not> (k = ''stats'' \<or> (\<exists>nm. k = FRONTEND_PREFIX @ nm))"
    then have "fmlookup (st_frontends st') k = fmlookup (st_frontends st) k"
      using assms(2) by (simp add: same_foreign_def)
    then have "k |\<in>| fmdom (st_frontends st)" using that by (simp add: fmlookup_dom_iff)
    then show False using assms(1) no by (auto simp: own_store_def)
  qed
  then show ?thesis using assms(3) by (simp add: own_store_def views_of_def)
qed

text \<open>Updating the maps changes the maps and the trackers only.\<close>

lemma update_maps_frame:
  assumes "update_maps x so p = Inr (p1, sres, eres)"
  shows "p1 = p\<lparr>serviceMap := serviceMap p1, serviceChanges := serviceChanges p1,
     endpointsMap := endpointsMap p1, endpointsChanges := endpointsChanges p1\<rparr>"
proof -
  obtain sm sct sr where s: "UpdateServiceMap x (so_items so) (so_hc so) (serviceMap p) (serviceChanges p) = (sm, sct, sr)"
    by (metis prod_cases3)
  show ?thesis
  proof (cases "UpdateEndpointsMap x (so_eps so) (endpointsMap p) (endpointsChanges p)")
    case (Inl e)
    then show ?thesis using assms s by (simp add: update_maps_def)
  next
    case (Inr r)
    then show ?thesis using assms s by (cases r) (auto simp: update_maps_def)
  qed
qed

lemma current_services_lookup:
  "fmlookup (foldl (\<lambda>m svc. fmupd (s_Name svc) svc m) m0 ss) nm = Some s \<Longrightarrow>
     s \<in> set ss \<and> s_Name s = nm \<or> fmlookup m0 nm = Some s"
  by (induction ss arbitrary: m0) (fastforce split: if_splits)+

lemma current_services_dom:
  "nm |\<in>| fmdom (foldl (\<lambda>m svc. fmupd (s_Name svc) svc m) m0 ss) \<longleftrightarrow> nm \<in> s_Name ` set ss \<or> nm |\<in>| fmdom m0"
  by (induction ss arbitrary: m0) auto

context haproxy_store begin

section \<open>The loop over the services\<close>

lemma sync_one_refines:
  fixes active :: "string fset" and svc :: service_port and x :: k8s_ext
  assumes "ok w" and "lists_sets elems" and "names_ok p" and "spn |\<in>| fmdom (serviceMap p)"
    and "\<And>nm. own_view nm (views_of (view w) nm)"
  defines "a \<equiv> spec_one x p spn svc (active, views_of (view w))"
  shows "\<exists>w'. sync_one x env elems p spn svc (active, {||}, w) = (fst a, {||}, w') \<and> ok w' \<and>
     views_of (view w') = snd a \<and> same_foreign (view w) (view w') \<and> (\<forall>nm. own_view nm (snd a nm))"
proof (cases svc)
  case (BaseServiceInfo info)
  then show ?thesis using assms(1,5) by (simp add: sync_one_def a_def spec_one_def)
next
  case (ServiceInfo info str)
  let ?nm = "svc_name_string spn" and ?obj = "haproxy_objects x p spn info"
  let ?v = "view_of ?nm (view w)"
  show ?thesis
  proof (cases "skipped p ?nm")
    case True
    then show ?thesis using ServiceInfo assms(1,5) by (simp add: sync_one_def a_def spec_one_def)
  next
    case False
    obtain err w1 where s: "syncService env ?obj w = (err, w1)" "ok w1"
        "(err = None, view_of ?nm (view w1)) = service_step ?obj ?v" "same_outside ?nm (view w) (view w1)"
      using syncService_refines [OF assms(1) haproxy_objects_named] by blast
    have plain: "url_plain n" if "port_wanted x p spn n = Some s" for n s
      using that assms(3) by (auto simp: names_ok_def port_wanted_def wanted_servers_iff endpoint_server_name)
    have own: "own_view ?nm (snd (port_step ?obj (port_wanted x p spn) ?v))"
      using assms(5) [of ?nm] named_trimmed assms(3,4) objects_frontend plain
      by (intro port_step_own) (auto simp: names_ok_def views_of_def)
    have a: "a = (let (good, v) = port_step ?obj (port_wanted x p spn) ?v
         in (if good then finsert ?nm active else active, (views_of (view w))(?nm := v)))"
      using ServiceInfo False by (simp add: a_def spec_one_def views_of_def Let_def)
    show ?thesis
    proof (cases err)
      case (Some e)
      then have p: "port_step ?obj (port_wanted x p spn) ?v = (False, view_of ?nm (view w1))"
        using s(3) by (auto simp: port_step_def split: prod.splits)
      have "sync_one x env elems p spn svc (active, {||}, w) = (active, {||}, w1)"
        using ServiceInfo False s(1) Some by (simp add: sync_one_def Let_def)
      then show ?thesis using a p own assms(5) s(2) views_of_upd [OF s(4)] same_outside_foreign [OF s(4)]
        by auto
    next
      case None
      have "bk_Name (hi_Backend ?obj) = BACKEND_PREFIX @ ?nm"
        using haproxy_objects_named by (simp add: named_for_def)
      moreover have "sv_servers (view_of ?nm (view w1)) = sv_servers ?v"
        using s(3) by (auto simp: service_step_def Let_def split: prod.splits if_splits)
      then have "url_plain n" if "sv_servers (view_of ?nm (view w1)) n = Some t" for n t
        using that assms(5) [of ?nm] by (auto simp: own_view_def views_of_def)
      moreover have "url_plain (SERVER_PREFIX @ endpoint_String e)" if "e \<in> set (port_endpoints p spn)" for e
        using that assms(3) by (simp add: names_ok_def)
      moreover have "sv_backend (view_of ?nm (view w1)) \<noteq> None"
        using s(3) None by (auto simp: service_step_def backend_step_def Let_def
            split: prod.splits if_splits option.splits)
      ultimately obtain w2 where e: "syncEndpoint x env elems (isHealthCheck p) (endpointsMap p) spn
            (bk_Name (hi_Backend ?obj)) ({||}, w1) = ({||}, w2)" "ok w2"
          "same_outside ?nm (view w1) (view w2)"
          "view_of ?nm (view w2) = (view_of ?nm (view w1))\<lparr>sv_servers :=
             servers_step (port_wanted x p spn) (sv_servers (view_of ?nm (view w1)))\<rparr>"
        using syncEndpoint_refines [OF s(2) assms(2), of ?nm "port_endpoints p spn" "endpointsMap p" spn x "isHealthCheck p"]
        unfolding port_wanted_def port_endpoints_def by auto
      have p: "port_step ?obj (port_wanted x p spn) ?v = (True, view_of ?nm (view w2))"
        using s(3) None e(4) by (auto simp: port_step_def split: prod.splits)
      have "sync_one x env elems p spn svc (active, {||}, w) = (finsert ?nm active, {||}, w2)"
        using ServiceInfo False s(1) None e(1) by (simp add: sync_one_def Let_def)
      moreover have "same_outside ?nm (view w) (view w2)" by (rule same_outside_trans [OF s(4) e(3)])
      ultimately show ?thesis using a p own assms(5) e(2) views_of_upd same_outside_foreign
        by auto
    qed
  qed
qed

lemma sync_loop_refines:
  fixes active :: "string fset" and ks :: "service_port_name list" and x :: k8s_ext
  assumes "ok w" and "lists_sets elems" and "names_ok p" and "\<And>nm. own_view nm (views_of (view w) nm)"
  defines "a \<equiv> range_in ks (spec_one x p) (serviceMap p) (active, views_of (view w))"
  shows "\<exists>w'. range_in ks (sync_one x env elems p) (serviceMap p) (active, {||}, w) = (fst a, {||}, w') \<and>
     ok w' \<and> views_of (view w') = snd a \<and> same_foreign (view w) (view w') \<and> (\<forall>nm. own_view nm (snd a nm))"
  using assms(1,4) unfolding a_def
proof (induction ks arbitrary: w active)
  case Nil
  then show ?case by simp
next
  case (Cons k ks)
  show ?case
  proof (cases "fmlookup (serviceMap p) k")
    case None
    then show ?thesis using Cons by simp
  next
    case (Some svc)
    let ?a = "spec_one x p k svc (active, views_of (view w))"
    obtain w1 where w1: "sync_one x env elems p k svc (active, {||}, w) = (fst ?a, {||}, w1)" "ok w1"
        "views_of (view w1) = snd ?a" "same_foreign (view w) (view w1)" "\<And>nm. own_view nm (snd ?a nm)"
      using sync_one_refines [OF Cons.prems(1) assms(2,3) fmdomI [OF Some] Cons.prems(2)] by blast
    have "\<And>nm. own_view nm (views_of (view w1) nm)" using w1(3,5) by simp
    from Cons.IH [OF w1(2) this, of "fst ?a"] show ?thesis
      using Some w1 same_foreign_trans [OF w1(4)] by auto
  qed
qed

section \<open>The cleaning\<close>

text \<open>One service that is not active: both deletions succeed and its objects are gone.\<close>

lemma clean_one_refines:
  assumes "ok w" and "fe_Name (s_Frontend svc) = FRONTEND_PREFIX @ nm" and "bk_Name (s_Backend svc) = BACKEND_PREFIX @ nm"
    and "sv_frontend (view_of nm (view w)) \<noteq> None" and "sv_backend (view_of nm (view w)) \<noteq> None"
    and "nm |\<notin>| active"
  shows "ok (clean_one env active nm svc w) \<and> view_of nm (view (clean_one env active nm svc w)) = no_objects \<and>
     same_outside nm (view w) (view (clean_one env active nm svc w))"
proof -
  have ne: "FRONTEND_PREFIX @ nm \<noteq> ''''" "BACKEND_PREFIX @ nm \<noteq> ''''" by simp_all
  have "FRONTEND_PREFIX @ nm |\<in>| fmdom (st_frontends (view w))"
    using assms(4) by (auto simp: view_of_def fmlookup_dom_iff)
  then obtain w1 where w1: "DeleteFrontend env (FRONTEND_PREFIX @ nm) w = (True, w1)" "ok w1"
      "view w1 = drop_frontend (FRONTEND_PREFIX @ nm) (view w)"
    using delete_frontend [OF assms(1) ne(1)] by auto
  have "BACKEND_PREFIX @ nm |\<in>| fmdom (st_backends (view w1))"
    using assms(5) by (auto simp: view_of_def fmlookup_dom_iff w1(3) drop_frontend_def)
  then obtain w2 where w2: "DeleteBackend env (BACKEND_PREFIX @ nm) w1 = (True, w2)" "ok w2"
      "view w2 = drop_backend (BACKEND_PREFIX @ nm) (view w1)"
    using delete_backend [OF w1(2) ne(2)] by auto
  have "clean_one env active nm svc w = w2"
    using assms(2,3,6) w1(1) w2(1) by (simp add: clean_one_def)
  then show ?thesis
    using w1(3) w2(2,3) by (auto simp: view_of_def no_objects_def same_outside_def drop_frontend_def drop_backend_def)
qed

lemma clean_loop:
  fixes active :: "string fset"
  assumes "ok w" and "distinct ks"
    and "\<And>nm. nm \<in> set ks \<Longrightarrow> \<exists>svc. fmlookup cur nm = Some svc \<and>
      fe_Name (s_Frontend svc) = FRONTEND_PREFIX @ nm \<and> bk_Name (s_Backend svc) = BACKEND_PREFIX @ nm \<and>
      sv_frontend (view_of nm (view w)) \<noteq> None \<and> sv_backend (view_of nm (view w)) \<noteq> None"
  defines "w' \<equiv> range_in ks (clean_one env active) cur w"
  shows "ok w' \<and> same_foreign (view w) (view w') \<and>
     views_of (view w') = (\<lambda>nm. if nm \<in> set ks \<and> nm |\<notin>| active then no_objects else views_of (view w) nm)"
  using assms(1-3) unfolding w'_def
proof (induction ks arbitrary: w)
  case Nil
  then show ?case by simp
next
  case (Cons k ks)
  obtain svc where svc: "fmlookup cur k = Some svc" "fe_Name (s_Frontend svc) = FRONTEND_PREFIX @ k"
      "bk_Name (s_Backend svc) = BACKEND_PREFIX @ k" "sv_frontend (view_of k (view w)) \<noteq> None"
      "sv_backend (view_of k (view w)) \<noteq> None"
    using Cons.prems(3) [of k] by auto
  define w1 where "w1 = clean_one env active k svc w"
  have w1: "ok w1" "same_outside k (view w) (view w1)"
      "view_of k (view w1) = (if k |\<in>| active then view_of k (view w) else no_objects)"
    using clean_one_refines [OF Cons.prems(1) svc(2-5), of active] Cons.prems(1)
    by (cases "k |\<in>| active"; simp add: w1_def clean_one_def)+
  have other: "view_of nm (view w1) = view_of nm (view w)" if "nm \<in> set ks" for nm
    by (rule same_outside_view [OF w1(2)]) (use that Cons.prems(2) in auto)
  have "ok (range_in ks (clean_one env active) cur w1) \<and>
      same_foreign (view w1) (view (range_in ks (clean_one env active) cur w1)) \<and>
      views_of (view (range_in ks (clean_one env active) cur w1)) =
        (\<lambda>nm. if nm \<in> set ks \<and> nm |\<notin>| active then no_objects else views_of (view w1) nm)"
    by (rule Cons.IH [OF w1(1)]) (use Cons.prems(2,3) other in auto)
  moreover have "views_of (view w1) = (views_of (view w))(k := if k |\<in>| active then view_of k (view w) else no_objects)"
    by (rule views_of_upd [OF w1(2,3)])
  ultimately show ?case
    using svc(1) Cons.prems(2) same_foreign_trans [OF same_outside_foreign [OF w1(2)]]
    by (auto simp: w1_def [symmetric] views_of_def fun_eq_iff)
qed

text \<open>The services that \<open>GetServices\<close> finds in a store of our own are those with a frontend.\<close>

lemma own_services:
  assumes "ok w" and "own_store (view w)"
  shows "\<exists>ss w1. GetServices env w = Inr (ss, w1) \<and> ok w1 \<and> view w1 = view w \<and>
     (\<forall>nm. nm |\<in>| fmdom (current_services ss) \<longleftrightarrow> sv_frontend (view_of nm (view w)) \<noteq> None) \<and>
     (\<forall>nm svc. fmlookup (current_services ss) nm = Some svc \<longrightarrow>
        fe_Name (s_Frontend svc) = FRONTEND_PREFIX @ nm \<and> bk_Name (s_Backend svc) = BACKEND_PREFIX @ nm)"
proof -
  let ?fs = "st_frontends (view w)" and ?bs = "st_backends (view w)"
  obtain ss w1 where g: "GetServices env w = Inr (ss, w1)" "ok w1" "view w1 = view w"
      "set ss = (if ?fs = fmempty \<or> ?bs = fmempty then {}
         else service_of ?bs ` {f. fmlookup ?fs (fe_Name f) = Some f \<and> fe_Name f \<noteq> ''stats''})"
    using get_services [OF assms(1)] by blast
  have own: "fe_Name f = FRONTEND_PREFIX @ nm \<longrightarrow> trimmed nm \<and> DefaultBackend f = BACKEND_PREFIX @ nm \<and>
      (\<exists>b. fmlookup ?bs (BACKEND_PREFIX @ nm) = Some b \<and> bk_Name b = BACKEND_PREFIX @ nm)"
    if "fmlookup ?fs (fe_Name f) = Some f" for f nm
    using that assms(2) stored_backend [OF assms(1)] by (fastforce simp: own_store_def own_view_def view_of_def)
  have named: "\<exists>nm. fe_Name f = FRONTEND_PREFIX @ nm" if "fmlookup ?fs (fe_Name f) = Some f" "fe_Name f \<noteq> ''stats''" for f
    using that assms(2) by (auto simp: own_store_def fmlookup_dom_iff)
  have in_ss: "svc \<in> set ss \<longleftrightarrow> (\<exists>f nm. fmlookup ?fs (FRONTEND_PREFIX @ nm) = Some f \<and> svc = service_of ?bs f \<and>
      fe_Name f = FRONTEND_PREFIX @ nm)" for svc
  proof
    assume "svc \<in> set ss"
    then obtain f where f: "fmlookup ?fs (fe_Name f) = Some f" "fe_Name f \<noteq> ''stats''" "svc = service_of ?bs f"
      using g(4) by (auto split: if_splits)
    then obtain nm where "fe_Name f = FRONTEND_PREFIX @ nm" using named by blast
    then show "\<exists>f nm. fmlookup ?fs (FRONTEND_PREFIX @ nm) = Some f \<and> svc = service_of ?bs f \<and> fe_Name f = FRONTEND_PREFIX @ nm"
      using f by metis
  next
    assume "\<exists>f nm. fmlookup ?fs (FRONTEND_PREFIX @ nm) = Some f \<and> svc = service_of ?bs f \<and> fe_Name f = FRONTEND_PREFIX @ nm"
    then obtain f nm where f: "fmlookup ?fs (FRONTEND_PREFIX @ nm) = Some f" "svc = service_of ?bs f"
        "fe_Name f = FRONTEND_PREFIX @ nm" by blast
    then have "?fs \<noteq> fmempty" "?bs \<noteq> fmempty" using own [of f nm] by auto
    moreover have "fe_Name f \<noteq> ''stats''" using f(3) by (simp add: FRONTEND_PREFIX_def)
    ultimately show "svc \<in> set ss" using g(4) f by auto
  qed
  have svc: "s_Name (service_of ?bs f) = nm \<and> s_Frontend (service_of ?bs f) = f \<and>
      bk_Name (s_Backend (service_of ?bs f)) = BACKEND_PREFIX @ nm"
    if "fmlookup ?fs (FRONTEND_PREFIX @ nm) = Some f" "fe_Name f = FRONTEND_PREFIX @ nm" for f nm
  proof -
    have o: "trimmed nm" "DefaultBackend f = BACKEND_PREFIX @ nm"
        "\<exists>b. fmlookup ?bs (BACKEND_PREFIX @ nm) = Some b \<and> bk_Name b = BACKEND_PREFIX @ nm"
      using own [of f nm] that by auto
    then have "Trim (FRONTEND_PREFIX @ nm) ''FRONTEND.'' = nm" by (intro Trim_frontend) (auto simp: trimmed_def)
    then show ?thesis using o that(2) by (auto simp: service_of_def)
  qed
  have cur: "fmlookup (current_services ss) nm = Some s \<Longrightarrow> s \<in> set ss \<and> s_Name s = nm"
      "nm |\<in>| fmdom (current_services ss) \<longleftrightarrow> nm \<in> s_Name ` set ss" for nm s
    unfolding current_services_def
    using current_services_lookup [of fmempty ss] current_services_dom [of _ fmempty ss] by auto
  have "nm \<in> s_Name ` set ss \<longleftrightarrow> sv_frontend (view_of nm (view w)) \<noteq> None" for nm
  proof
    assume "nm \<in> s_Name ` set ss"
    then show "sv_frontend (view_of nm (view w)) \<noteq> None" using svc by (auto simp: in_ss view_of_def)
  next
    assume "sv_frontend (view_of nm (view w)) \<noteq> None"
    then obtain f where f: "fmlookup ?fs (FRONTEND_PREFIX @ nm) = Some f" by (auto simp: view_of_def)
    then have "fe_Name f = FRONTEND_PREFIX @ nm" by (rule stored_frontend [OF assms(1)])
    then show "nm \<in> s_Name ` set ss" using f svc [OF f] in_ss by (metis image_eqI)
  qed
  moreover have "fe_Name (s_Frontend s) = FRONTEND_PREFIX @ nm \<and> bk_Name (s_Backend s) = BACKEND_PREFIX @ nm"
    if "fmlookup (current_services ss) nm = Some s" for nm s
    using cur(1) [OF that] svc by (auto simp: in_ss)
  ultimately show ?thesis using g(1-3) by (intro exI [of _ ss] exI [of _ w1]) (simp add: cur(2))
qed

section \<open>The refinement\<close>

lemma sync_refines:
  assumes "ok w" and "own_store (view w)" and "names_ok p1" and "lists_sets (so_servers so)"
    and "\<And>m. visits (so_legacy so m) m" and "isInitialized p" and "gracefuldeleteManager p = {||}"
    and "update_maps x so p = Inr (p1, sres, eres)"
  shows "\<exists>w'. syncProxyRules x env so p w = Inr (p1, w') \<and> ok w' \<and> own_store (view w') \<and>
     same_foreign (view w) (view w') \<and>
     views_of (view w') = sync_spec x p1 (so_services so (serviceMap p1)) (views_of (view w))"
proof -
  let ?ks = "so_services so (serviceMap p1)"
  let ?a = "range_in ?ks (spec_one x p1) (serviceMap p1) ({||}, views_of (view w))"
  have q: "gracefuldeleteManager p1 = {||}"
    using assms(7) by (subst update_maps_frame [OF assms(8)]) simp
  then have p1: "p1\<lparr>gracefuldeleteManager := {||}\<rparr> = p1" by simp
  have own: "\<And>nm. own_view nm (views_of (view w) nm)" using assms(2) by (simp add: own_store_def views_of_def)
  obtain w1 where w1: "range_in ?ks (sync_one x env (so_servers so) p1) (serviceMap p1) ({||}, {||}, w) = (fst ?a, {||}, w1)"
      "ok w1" "views_of (view w1) = snd ?a" "same_foreign (view w) (view w1)" "\<forall>nm. own_view nm (snd ?a nm)"
    using sync_loop_refines [OF assms(1,4,3) own] by blast
  have "own_store (view w1)" by (rule own_store_same [OF assms(2) w1(4)]) (use w1(3,5) in simp)
  note own1 = this
  obtain ss w2 where g: "GetServices env w1 = Inr (ss, w2)" "ok w2" "view w2 = view w1"
      "\<And>nm. nm |\<in>| fmdom (current_services ss) \<longleftrightarrow> sv_frontend (view_of nm (view w1)) \<noteq> None"
      "\<And>nm svc. fmlookup (current_services ss) nm = Some svc \<Longrightarrow>
        fe_Name (s_Frontend svc) = FRONTEND_PREFIX @ nm \<and> bk_Name (s_Backend svc) = BACKEND_PREFIX @ nm"
    using own_services [OF w1(2) own1] by blast
  define w3 where "w3 = cleanLegacyService env (so_legacy so (current_services ss)) (fst ?a) (current_services ss) w2"
  have vis: "visits (so_legacy so (current_services ss)) (current_services ss)" by (rule assms(5))
  have "\<exists>svc. fmlookup (current_services ss) nm = Some svc \<and> fe_Name (s_Frontend svc) = FRONTEND_PREFIX @ nm \<and>
      bk_Name (s_Backend svc) = BACKEND_PREFIX @ nm \<and> sv_frontend (view_of nm (view w2)) \<noteq> None \<and>
      sv_backend (view_of nm (view w2)) \<noteq> None" if "nm \<in> set (so_legacy so (current_services ss))" for nm
  proof -
    from that have "\<exists>svc. fmlookup (current_services ss) nm = Some svc" by (simp only: visits_mem [OF vis])
    then obtain svc where svc: "fmlookup (current_services ss) nm = Some svc" ..
    have fe: "sv_frontend (view_of nm (view w1)) \<noteq> None" using g(4) [of nm] fmdomI [OF svc] by simp
    have "own_view nm (view_of nm (view w1))" using own1 by (simp add: own_store_def)
    with fe have "sv_backend (view_of nm (view w1)) \<noteq> None" by (auto simp: own_view_def)
    then show ?thesis using svc g(3) g(5) [OF svc] fe by simp
  qed
  note c = clean_loop [OF g(2) visits_distinct [OF vis] this, of "fst ?a"]
  have mem: "nm \<in> set (so_legacy so (current_services ss)) \<longleftrightarrow> sv_frontend (snd ?a nm) \<noteq> None" for nm
    unfolding w1(3) [symmetric] using vis g(4) [of nm] by (simp add: visits_def views_of_def)
  have w3: "ok w3" "same_foreign (view w2) (view w3)" "views_of (view w3) = clean_spec (fst ?a) (snd ?a)"
    using c g(3) w1(3) by (auto simp: w3_def cleanLegacyService_def clean_spec_def mem)
  have "own_store (view w3)"
    by (rule own_store_same [OF own1]) (use w3(2,3) g(3) w1(5) in \<open>simp_all add: clean_spec_def\<close>)
  moreover have "syncProxyRules x env so p w = Inr (p1, w3)"
    using assms(6,8) w1(1) g(1) q p1 by (simp add: syncProxyRules_def EnsureHaproxy_def w3_def Let_def)
  ultimately show ?thesis using w3 g(3) same_foreign_trans [OF w1(4)]
    by (auto simp: sync_spec_def split: prod.splits)
qed

end

end
