(* ===== verification/Reference_Dataplane.thy ===== *)
theory Reference_Dataplane
  imports Store_Spec
begin

text \<open>
  A server in memory that answers the requests of the client by routing their URLs, after the
  documented behaviour of the HAProxy Data Plane API, version 2. It is not part of the program;
  it shows that the laws of \<open>haproxy_store\<close> can hold, and it is where they meet the URLs that
  the client really builds: the interpretation at the end proves them from the client's code.
\<close>

section \<open>A server in memory\<close>

datatype payload =
    PNothing
  | PText string
  | PData payload
  | PBackend backend
  | PBackends "backend list"
  | PFrontend frontend
  | PFrontends "frontend list"
  | PServer server
  | PServers "server list"
  | PBind bind
  | PBinds "bind list"

record dataplane =
  dp_version :: int
  dp_store :: store
  dp_reload :: bool

definition answer :: "int \<Rightarrow> payload \<Rightarrow> dataplane \<Rightarrow> payload response \<times> dataplane" where
  "answer code body dp = (\<lparr>Err = None, Code = code, Body = body\<rparr>, dp)"

definition commit :: "int \<Rightarrow> store \<Rightarrow> dataplane \<Rightarrow> payload response \<times> dataplane" where
  "commit code st dp =
     answer (if dp_reload dp then 202 else code) PNothing
       (dp\<lparr>dp_version := (if dp_version dp < max_int then dp_version dp + 1 else 1),
           dp_store := st\<rparr>)"

definition found :: "('v \<Rightarrow> payload) \<Rightarrow> 'v option \<Rightarrow> dataplane \<Rightarrow> payload response \<times> dataplane" where
  "found wrap v dp =
     (case v of None \<Rightarrow> answer 404 PNothing dp | Some a \<Rightarrow> answer 200 (PData (wrap a)) dp)"

definition create ::
    "bool \<Rightarrow> store \<Rightarrow> dataplane \<Rightarrow> payload response \<times> dataplane" where
  "create exists st dp = (if exists then answer 409 PNothing dp else commit 201 st dp)"

definition remove :: "bool \<Rightarrow> store \<Rightarrow> dataplane \<Rightarrow> payload response \<times> dataplane" where
  "remove exists st dp = (if exists then commit 204 st dp else answer 404 PNothing dp)"

definition replace :: "bool \<Rightarrow> store \<Rightarrow> dataplane \<Rightarrow> payload response \<times> dataplane" where
  "replace exists st dp = (if exists then commit 200 st dp else answer 404 PNothing dp)"

text \<open>Every change must name the current version.\<close>

definition current :: "string \<Rightarrow> dataplane \<Rightarrow> bool" where
  "current q dp \<longleftrightarrow> query_param ''version'' q = Some (Itoa (dp_version dp))"

definition on_backends ::
    "http_method \<Rightarrow> payload option \<Rightarrow> dataplane \<Rightarrow> payload response \<times> dataplane" where
  "on_backends m body dp =
     (case (m, body) of
        (GET, _) \<Rightarrow> answer 200 (PData (PBackends (values_of (st_backends (dp_store dp))))) dp
      | (POST, Some (PBackend b)) \<Rightarrow>
          if \<not> valid_backend b then answer 422 PNothing dp else
          create (bk_Name b |\<in>| fmdom (st_backends (dp_store dp)))
            (dp_store dp\<lparr>st_backends := fmupd (bk_Name b) b (st_backends (dp_store dp))\<rparr>) dp
      | (POST, _) \<Rightarrow> answer 400 PNothing dp
      | _ \<Rightarrow> answer 405 PNothing dp)"

definition on_backend ::
    "http_method \<Rightarrow> string \<Rightarrow> payload option \<Rightarrow> dataplane \<Rightarrow> payload response \<times> dataplane" where
  "on_backend m n body dp =
     (case (m, body) of
        (GET, _) \<Rightarrow> found PBackend (fmlookup (st_backends (dp_store dp)) n) dp
      | (DELETE, _) \<Rightarrow> remove (n |\<in>| fmdom (st_backends (dp_store dp))) (drop_backend n (dp_store dp)) dp
      | (PUT, Some (PBackend b)) \<Rightarrow>
          replace (bk_Name b = n \<and> n |\<in>| fmdom (st_backends (dp_store dp)))
            (dp_store dp\<lparr>st_backends := fmupd n b (st_backends (dp_store dp))\<rparr>) dp
      | (PUT, _) \<Rightarrow> answer 400 PNothing dp
      | _ \<Rightarrow> answer 405 PNothing dp)"

definition on_frontends ::
    "http_method \<Rightarrow> payload option \<Rightarrow> dataplane \<Rightarrow> payload response \<times> dataplane" where
  "on_frontends m body dp =
     (case (m, body) of
        (GET, _) \<Rightarrow> answer 200 (PData (PFrontends (values_of (st_frontends (dp_store dp))))) dp
      | (POST, Some (PFrontend f)) \<Rightarrow>
          if \<not> valid_mode (fe_Mode f) then answer 422 PNothing dp else
          create (fe_Name f |\<in>| fmdom (st_frontends (dp_store dp)))
            (dp_store dp\<lparr>st_frontends := fmupd (fe_Name f) f (st_frontends (dp_store dp))\<rparr>) dp
      | (POST, _) \<Rightarrow> answer 400 PNothing dp
      | _ \<Rightarrow> answer 405 PNothing dp)"

definition on_frontend ::
    "http_method \<Rightarrow> string \<Rightarrow> payload option \<Rightarrow> dataplane \<Rightarrow> payload response \<times> dataplane" where
  "on_frontend m n body dp =
     (case (m, body) of
        (GET, _) \<Rightarrow> found PFrontend (fmlookup (st_frontends (dp_store dp)) n) dp
      | (DELETE, _) \<Rightarrow>
          remove (n |\<in>| fmdom (st_frontends (dp_store dp))) (drop_frontend n (dp_store dp)) dp
      | (PUT, Some (PFrontend f)) \<Rightarrow>
          replace (fe_Name f = n \<and> n |\<in>| fmdom (st_frontends (dp_store dp)))
            (dp_store dp\<lparr>st_frontends := fmupd n f (st_frontends (dp_store dp))\<rparr>) dp
      | (PUT, _) \<Rightarrow> answer 400 PNothing dp
      | _ \<Rightarrow> answer 405 PNothing dp)"

definition on_servers ::
    "http_method \<Rightarrow> string \<Rightarrow> payload option \<Rightarrow> dataplane \<Rightarrow> payload response \<times> dataplane" where
  "on_servers m be body dp =
     (case (m, body) of
        (GET, _) \<Rightarrow> answer 200 (PData (PServers (servers_in be (dp_store dp)))) dp
      | (POST, Some (PServer s)) \<Rightarrow>
          if be |\<notin>| fmdom (st_backends (dp_store dp)) then answer 404 PNothing dp else
          create ((be, srv_Name s) |\<in>| fmdom (st_servers (dp_store dp)))
            (dp_store dp\<lparr>st_servers := fmupd (be, srv_Name s) s (st_servers (dp_store dp))\<rparr>) dp
      | (POST, _) \<Rightarrow> answer 400 PNothing dp
      | _ \<Rightarrow> answer 405 PNothing dp)"

definition on_server ::
    "http_method \<Rightarrow> string \<Rightarrow> string \<Rightarrow> payload option \<Rightarrow> dataplane \<Rightarrow> payload response \<times> dataplane" where
  "on_server m be n body dp =
     (case (m, body) of
        (GET, _) \<Rightarrow> found PServer (fmlookup (st_servers (dp_store dp)) (be, n)) dp
      | (DELETE, _) \<Rightarrow>
          remove ((be, n) |\<in>| fmdom (st_servers (dp_store dp)))
            (dp_store dp\<lparr>st_servers := fmdrop (be, n) (st_servers (dp_store dp))\<rparr>) dp
      | (PUT, Some (PServer s)) \<Rightarrow>
          replace (srv_Name s = n \<and> (be, n) |\<in>| fmdom (st_servers (dp_store dp)))
            (dp_store dp\<lparr>st_servers := fmupd (be, n) s (st_servers (dp_store dp))\<rparr>) dp
      | (PUT, _) \<Rightarrow> answer 400 PNothing dp
      | _ \<Rightarrow> answer 405 PNothing dp)"

definition on_binds ::
    "http_method \<Rightarrow> string \<Rightarrow> payload option \<Rightarrow> dataplane \<Rightarrow> payload response \<times> dataplane" where
  "on_binds m fe body dp =
     (case (m, body) of
        (GET, _) \<Rightarrow> answer 200 (PData (PBinds (values_of (fmfilter (\<lambda>k. fst k = fe)
                      (st_binds (dp_store dp)))))) dp
      | (POST, Some (PBind b)) \<Rightarrow>
          if fe |\<notin>| fmdom (st_frontends (dp_store dp)) then answer 404 PNothing dp else
          create ((fe, bd_Name b) |\<in>| fmdom (st_binds (dp_store dp)))
            (dp_store dp\<lparr>st_binds := fmupd (fe, bd_Name b) b (st_binds (dp_store dp))\<rparr>) dp
      | (POST, _) \<Rightarrow> answer 400 PNothing dp
      | _ \<Rightarrow> answer 405 PNothing dp)"

definition on_bind ::
    "http_method \<Rightarrow> string \<Rightarrow> string \<Rightarrow> payload option \<Rightarrow> dataplane \<Rightarrow> payload response \<times> dataplane" where
  "on_bind m fe n body dp =
     (case (m, body) of
        (GET, _) \<Rightarrow> found PBind (fmlookup (st_binds (dp_store dp)) (fe, n)) dp
      | (DELETE, _) \<Rightarrow>
          remove ((fe, n) |\<in>| fmdom (st_binds (dp_store dp)))
            (dp_store dp\<lparr>st_binds := fmdrop (fe, n) (st_binds (dp_store dp))\<rparr>) dp
      | (PUT, Some (PBind b)) \<Rightarrow>
          replace (bd_Name b = n \<and> (fe, n) |\<in>| fmdom (st_binds (dp_store dp)))
            (dp_store dp\<lparr>st_binds := fmupd (fe, n) b (st_binds (dp_store dp))\<rparr>) dp
      | (PUT, _) \<Rightarrow> answer 400 PNothing dp
      | _ \<Rightarrow> answer 405 PNothing dp)"

text \<open>Servers need the name of their backend, binds that of their frontend.\<close>

definition serve :: "route \<Rightarrow> http_method \<Rightarrow> string \<Rightarrow> payload option \<Rightarrow> dataplane \<Rightarrow>
    payload response \<times> dataplane" where
  "serve r m q body dp =
     (case r of
        RVersion \<Rightarrow>
          if m = GET then answer 200 (PText (Itoa (dp_version dp) @ ''\<newline>'')) dp
          else answer 405 PNothing dp
      | RNone \<Rightarrow> answer 404 PNothing dp
      | RAll CBackends \<Rightarrow> on_backends m body dp
      | RItem CBackends n \<Rightarrow> on_backend m n body dp
      | RAll CFrontends \<Rightarrow> on_frontends m body dp
      | RItem CFrontends n \<Rightarrow> on_frontend m n body dp
      | RAll CServers \<Rightarrow>
          (case query_param ''parent_name'' q of
             None \<Rightarrow> answer 422 PNothing dp | Some be \<Rightarrow> on_servers m be body dp)
      | RItem CServers n \<Rightarrow>
          (case query_param ''parent_name'' q of
             None \<Rightarrow> answer 422 PNothing dp | Some be \<Rightarrow> on_server m be n body dp)
      | RAll CBinds \<Rightarrow>
          (case query_param ''frontend'' q of
             None \<Rightarrow> answer 422 PNothing dp | Some fe \<Rightarrow> on_binds m fe body dp)
      | RItem CBinds n \<Rightarrow>
          (case query_param ''frontend'' q of
             None \<Rightarrow> answer 422 PNothing dp | Some fe \<Rightarrow> on_bind m fe n body dp))"

definition dp_send :: "payload request \<Rightarrow> dataplane \<Rightarrow> payload response \<times> dataplane" where
  "dp_send req dp =
     (let (p, q) = read_path (Path req)
      in if Method req \<noteq> GET \<and> \<not> current q dp then answer 409 PNothing dp
         else serve (route_of p) (Method req) q (ReqBody req) dp)"

definition dp_env :: "(payload, dataplane) rest_env" where
  "dp_env = \<lparr>send = dp_send,
     body_text = (\<lambda>b. case b of PText s \<Rightarrow> s | _ \<Rightarrow> ''''),
     raw_nil = PNothing,
     decode_raw = (\<lambda>b. case b of PData d \<Rightarrow> Inr (fmupd ''data'' d fmempty) | _ \<Rightarrow> Inr fmempty),
     decode_backend = (\<lambda>b. case b of PBackend x \<Rightarrow> Inr x | _ \<Rightarrow> Inl ''json''),
     decode_backends = (\<lambda>b. case b of PBackends xs \<Rightarrow> Inr (map Some xs) | _ \<Rightarrow> Inl ''json''),
     decode_frontend = (\<lambda>b. case b of PFrontend x \<Rightarrow> Inr x | _ \<Rightarrow> Inl ''json''),
     decode_frontends = (\<lambda>b. case b of PFrontends xs \<Rightarrow> Inr (map Some xs) | _ \<Rightarrow> Inl ''json''),
     decode_server = (\<lambda>b. case b of PServer x \<Rightarrow> Inr x | _ \<Rightarrow> Inl ''json''),
     decode_servers = (\<lambda>b. case b of PServers xs \<Rightarrow> (xs, None) | _ \<Rightarrow> ([], Some ''json'')),
     decode_bind = (\<lambda>b. case b of PBind x \<Rightarrow> Inr x | _ \<Rightarrow> Inl ''json''),
     decode_bind_lists = (\<lambda>b. case b of PData (PBinds xs) \<Rightarrow> fmupd ''data'' xs fmempty | _ \<Rightarrow> fmempty),
     encode_backend = (\<lambda>x. Inr (PBackend x)),
     encode_frontend = (\<lambda>x. Inr (PFrontend x)),
     encode_server = (\<lambda>x. Inr (PServer x)),
     encode_bind = (\<lambda>x. Inr (PBind x))\<rparr>"


section \<open>Answering the URLs of the client\<close>

text \<open>How the server sees the requests of the client, by the shape of the URL.\<close>

lemma send_all:
  "dp_send \<lparr>Method = GET, Path = url_of c, ReqBody = b\<rparr> dp = serve (RAll c) GET [] b dp"
  by (simp add: dp_send_def read_plain no_query route_all)

lemma send_item:
  "dp_send \<lparr>Method = GET, Path = url_of c @ ''/'' @ QueryEscape n, ReqBody = b\<rparr> dp =
     serve (RItem c n) GET [] b dp"
  using read_plain [OF no_query_item [OF QueryEscape_no_reserved(2)], of c n]
    route_item [OF QueryUnescape_Escape, of c n] by (simp add: dp_send_def)

lemma send_all_query:
  "dp_send \<lparr>Method = GET, Path = url_of c @ ''?'' @ q, ReqBody = b\<rparr> dp = serve (RAll c) GET q b dp"
  using read_query [OF no_query(1), of c q] by (simp add: dp_send_def route_all)

lemma send_item_query:
  assumes "QueryUnescape s = Some n" and "CHR ''?'' \<notin> set s"
  shows "dp_send \<lparr>Method = GET, Path = url_of c @ ''/'' @ s @ ''?'' @ q, ReqBody = b\<rparr> dp =
     serve (RItem c n) GET q b dp"
  using read_query [OF no_query_item [OF assms(2)], of c q] route_item [OF assms(1)]
  by (simp add: dp_send_def)

lemma change_all:
  assumes "query_param ''version'' q = Some (Itoa (dp_version dp))"
  shows "dp_send \<lparr>Method = m, Path = url_of c @ ''?'' @ q, ReqBody = b\<rparr> dp = serve (RAll c) m q b dp"
  using read_query [OF no_query(1), of c q] assms by (simp add: dp_send_def route_all current_def)

lemma change_item:
  assumes "query_param ''version'' q = Some (Itoa (dp_version dp))"
    and "QueryUnescape s = Some n" and "CHR ''?'' \<notin> set s"
  shows "dp_send \<lparr>Method = m, Path = url_of c @ ''/'' @ s @ ''?'' @ q, ReqBody = b\<rparr> dp =
     serve (RItem c n) m q b dp"
  using read_query [OF no_query_item [OF assms(3)], of c q] assms(1) route_item [OF assms(2)]
  by (simp add: dp_send_def current_def)

text \<open>The version the client reads is the current one.\<close>

definition dp_ok :: "dataplane \<Rightarrow> bool" where
  "dp_ok dp \<longleftrightarrow> 0 \<le> dp_version dp \<and> dp_version dp \<le> max_int \<and> store_wf (dp_store dp)"


lemma dp_getVersion: "dp_ok dp \<Longrightarrow> getVersion dp_env dp = (dp_version dp, dp)"
proof -
  assume ok: "dp_ok dp"
  have "TrimSpace ([] @ Itoa (dp_version dp) @ ''\<newline>'') = Itoa (dp_version dp)"
    by (rule TrimSpace_Itoa) (simp_all add: is_space_def)
  moreover have "dp_send \<lparr>Method = GET, Path = VERSION, ReqBody = None\<rparr> dp =
      answer 200 (PText (Itoa (dp_version dp) @ ''\<newline>'')) dp"
    by (simp add: dp_send_def read_plain no_query route_version serve_def)
  moreover have "Atoi (Itoa (dp_version dp)) = (dp_version dp, None)"
    using ok by (intro Atoi_Itoa) (simp_all add: dp_ok_def min_int_def)
  ultimately show ?thesis
    by (simp add: getVersion_def call_def dp_env_def answer_def)
qed


section \<open>The requests of the client\<close>

definition version_query :: "int \<Rightarrow> string" where
  "version_query v = ''version='' @ Itoa v"

definition server_query :: "string \<Rightarrow> int \<Rightarrow> string" where
  "server_query be v = ''parent_type=backend&parent_name='' @ QueryEscape be @ ''&version='' @ Itoa v"

definition bind_query :: "string \<Rightarrow> int \<Rightarrow> string" where
  "bind_query fe v = ''parent_type=frontend&frontend='' @ QueryEscape fe @ ''&version='' @ Itoa v"

lemma query_values:
  "query_param ''version'' (version_query v) = Some (Itoa v)"
  "query_param ''version'' (server_query n v) = Some (Itoa v)"
  "query_param ''parent_name'' (server_query n v) = Some n"
  "query_param ''version'' (bind_query n v) = Some (Itoa v)"
  "query_param ''frontend'' (bind_query n v) = Some n"
  "query_param ''parent_name'' (version_query v) = None"
  "query_param ''parent_name'' (''parent_type=backend&parent_name='' @ QueryEscape n) = Some n"
  "query_param ''frontend'' (''parent_type=frontend&frontend='' @ QueryEscape n) = Some n"
proof -
  note server = query_params(2) [of "''parent_type''" "''backend''" "''parent_name''" n v]
  note bind = query_params(2) [of "''parent_type''" "''frontend''" "''frontend''" n v]
  have split: "split_on (CHR ''&'') (''version='' @ Itoa v) = [''version='' @ Itoa v]"
    by (rule split_on_none) (use Itoa_plain [of "CHR ''&''" v] in auto)
  have ver: "cut (CHR ''='') (''version'' @ CHR ''='' # Itoa v) = (''version'', Itoa v)"
    by (rule cut_append) simp
  show "query_param ''version'' (version_query v) = Some (Itoa v)"
    unfolding version_query_def by (rule query_param_version)
  show "query_param ''version'' (server_query n v) = Some (Itoa v)"
    "query_param ''parent_name'' (server_query n v) = Some n"
    using server by (simp_all add: query_param_def server_query_def QueryUnescape_Escape Itoa_unescape)
  show "query_param ''version'' (bind_query n v) = Some (Itoa v)"
    "query_param ''frontend'' (bind_query n v) = Some n"
    using bind by (simp_all add: query_param_def bind_query_def QueryUnescape_Escape Itoa_unescape)
  show "query_param ''parent_name'' (version_query v) = None"
    using split ver by (simp add: query_param_def version_query_def)
  show "query_param ''parent_name'' (''parent_type=backend&parent_name='' @ QueryEscape n) = Some n"
    using query_params(1) [of "''parent_type''" "''backend''" "''parent_name''" n]
    by (simp add: query_param_def QueryUnescape_Escape)
  show "query_param ''frontend'' (''parent_type=frontend&frontend='' @ QueryEscape n) = Some n"
    using query_params(1) [of "''parent_type''" "''frontend''" "''frontend''" n]
    by (simp add: query_param_def QueryUnescape_Escape)
qed

text \<open>The answers to the calls of each operation.\<close>

lemma send_dp_env [simp]: "send dp_env = dp_send"
  by (simp add: dp_env_def)

lemma call_backends:
  "call dp_env GET BACKEND None dp = serve (RAll CBackends) GET [] None dp"
  "call dp_env GET (BACKEND @ ''/'' @ QueryEscape n) None dp = serve (RItem CBackends n) GET [] None dp"
  "call dp_env m (BACKEND @ ''?version='' @ Itoa (dp_version dp)) body dp =
     serve (RAll CBackends) m (version_query (dp_version dp)) body dp"
  "call dp_env m (BACKEND @ ''/'' @ QueryEscape n @ ''?version='' @ Itoa (dp_version dp)) body dp =
     serve (RItem CBackends n) m (version_query (dp_version dp)) body dp"
  using send_all [of CBackends None dp] send_item [of CBackends n None dp]
    change_all [OF query_values(1), where dp = dp and m = m and c = CBackends and b = body]
    change_item [OF query_values(1) QueryUnescape_Escape QueryEscape_no_reserved(2), where dp = dp and m = m and c = CBackends and b = body]
  by (simp_all add: call_def url_of_def version_query_def)

lemma call_frontends:
  "call dp_env GET FRONTEND None dp = serve (RAll CFrontends) GET [] None dp"
  "call dp_env GET (FRONTEND @ ''/'' @ QueryEscape n) None dp = serve (RItem CFrontends n) GET [] None dp"
  "call dp_env m (FRONTEND @ ''?version='' @ Itoa (dp_version dp)) body dp =
     serve (RAll CFrontends) m (version_query (dp_version dp)) body dp"
  "call dp_env m (FRONTEND @ ''/'' @ QueryEscape n @ ''?version='' @ Itoa (dp_version dp)) body dp =
     serve (RItem CFrontends n) m (version_query (dp_version dp)) body dp"
  using send_all [of CFrontends None dp] send_item [of CFrontends n None dp]
    change_all [OF query_values(1), where dp = dp and m = m and c = CFrontends and b = body]
    change_item [OF query_values(1) QueryUnescape_Escape QueryEscape_no_reserved(2), where dp = dp and m = m and c = CFrontends and b = body]
  by (simp_all add: call_def url_of_def version_query_def)

lemma call_binds:
  "call dp_env GET (BIND @ ''/'' @ QueryEscape n @ ''?parent_type=frontend&frontend='' @ QueryEscape fe)
      None dp = on_bind GET fe n None dp"
  "call dp_env m (BIND @ ''?parent_type=frontend&frontend='' @ QueryEscape fe @ ''&version='' @
      Itoa (dp_version dp)) body dp = on_binds m fe body dp"
  "call dp_env m (BIND @ ''/'' @ QueryEscape n @ ''?parent_type=frontend&frontend='' @ QueryEscape fe @
      ''&version='' @ Itoa (dp_version dp)) body dp = on_bind m fe n body dp"
  using send_item_query [OF QueryUnescape_Escape QueryEscape_no_reserved(2), of CBinds n
      "''parent_type=frontend&frontend='' @ QueryEscape fe" None dp]
    change_all [OF query_values(4), where dp = dp and m = m and c = CBinds and b = body]
    change_item [OF query_values(4) QueryUnescape_Escape QueryEscape_no_reserved(2), where dp = dp and m = m and c = CBinds and b = body]
    query_values(5) [of fe "dp_version dp"] query_values(8) [of fe]
  by (simp_all add: call_def url_of_def bind_query_def serve_def)

lemma call_servers:
  "call dp_env GET (SERVER @ ''?parent_type=backend&parent_name='' @ QueryEscape be) None dp =
     on_servers GET be None dp"
  "call dp_env m (SERVER @ ''?parent_type=backend&parent_name='' @ QueryEscape be @ ''&version='' @
      Itoa (dp_version dp)) body dp = on_servers m be body dp"
  "url_plain n \<Longrightarrow> call dp_env GET (SERVER @ ''/'' @ n @ ''?parent_type=backend&parent_name='' @
      QueryEscape be) None dp = on_server GET be n None dp"
  "url_plain n \<Longrightarrow> call dp_env m (SERVER @ ''/'' @ n @ ''?parent_type=backend&parent_name='' @
      QueryEscape be @ ''&version='' @ Itoa (dp_version dp)) body dp = on_server m be n body dp"
proof -
  note query = query_values(3) [of be "dp_version dp"] query_values(7) [of be]
  show "call dp_env GET (SERVER @ ''?parent_type=backend&parent_name='' @ QueryEscape be) None dp =
     on_servers GET be None dp"
    using query send_all_query [of CServers "''parent_type=backend&parent_name='' @ QueryEscape be" None dp]
    by (simp add: call_def url_of_def serve_def)
  show "call dp_env m (SERVER @ ''?parent_type=backend&parent_name='' @ QueryEscape be @ ''&version='' @
      Itoa (dp_version dp)) body dp = on_servers m be body dp"
    using query change_all [OF query_values(2), where dp = dp and m = m and c = CServers and b = body]
    by (simp add: call_def url_of_def serve_def server_query_def)
  assume "url_plain n"
  then have n: "QueryUnescape n = Some n" "CHR ''?'' \<notin> set n"
    by (auto simp: url_plain_def QueryUnescape_plain)
  show "call dp_env GET (SERVER @ ''/'' @ n @ ''?parent_type=backend&parent_name='' @
      QueryEscape be) None dp = on_server GET be n None dp"
    using query send_item_query [OF n, of CServers
        "''parent_type=backend&parent_name='' @ QueryEscape be" None dp]
    by (simp add: call_def url_of_def serve_def)
  show "call dp_env m (SERVER @ ''/'' @ n @ ''?parent_type=backend&parent_name='' @
      QueryEscape be @ ''&version='' @ Itoa (dp_version dp)) body dp = on_server m be n body dp"
    using query change_item [OF query_values(2) n, where dp = dp and m = m and c = CServers and b = body]
    by (simp add: call_def url_of_def serve_def server_query_def)
qed


lemmas call_simps = call_backends [simplified] call_frontends [simplified] call_binds [simplified]
  call_servers [simplified]

section \<open>The laws hold of the server in memory\<close>

lemma dp_wf: "dp_ok dp \<Longrightarrow> store_wf (dp_store dp)"
  by (simp add: dp_ok_def)

lemma answer_simps [simp]:
  "answer code body dp = (\<lparr>Err = None, Code = code, Body = body\<rparr>, dp)"
  by (simp add: answer_def)

lemma handleError_codes [simp]:
  "handleError env \<lparr>Err = None, Code = 409, Body = b\<rparr> HPointer = (True, Some '''')"
  "handleError env \<lparr>Err = None, Code = 201, Body = b\<rparr> h = (True, None)"
  "handleError env \<lparr>Err = None, Code = 202, Body = b\<rparr> h = (True, None)"
  "handleError env \<lparr>Err = None, Code = 200, Body = b\<rparr> h = (True, None)"
  "handleError env \<lparr>Err = None, Code = 204, Body = b\<rparr> h = (True, Some (Errorf (log204 (texts_of h))))"
  "handleError env \<lparr>Err = None, Code = 404, Body = b\<rparr> h = (False, Some (Errorf (log404 (texts_of h))))"
  "handleError env \<lparr>Err = None, Code = 422, Body = b\<rparr> h = (False, Some (''Unkown error, '' @ body_text env b))"
  by (simp_all add: handleError_def texts_of_def no_texts_def handleError_fst handleError_snd Errorf_plain)

definition next_dp :: "store \<Rightarrow> dataplane \<Rightarrow> dataplane" where
  "next_dp st dp = dp\<lparr>dp_version := (if dp_version dp < max_int then dp_version dp + 1 else 1),
     dp_store := st\<rparr>"

lemma next_dp_store [simp]: "dp_store (next_dp st dp) = st"
  by (simp add: next_dp_def)

lemma next_dp_ok: "dp_ok dp \<Longrightarrow> store_wf st \<Longrightarrow> dp_ok (next_dp st dp)"
  by (auto simp: dp_ok_def next_dp_def max_int_def)

lemma commit_eq:
  "commit code st dp = (\<lparr>Err = None, Code = (if dp_reload dp then 202 else code), Body = PNothing\<rparr>,
     next_dp st dp)"
  by (simp add: commit_def next_dp_def)

lemma dp_fields [simp]:
  "encode_backend dp_env b = Inr (PBackend b)" "encode_frontend dp_env f = Inr (PFrontend f)"
  "encode_server dp_env s = Inr (PServer s)" "encode_bind dp_env d = Inr (PBind d)"
  by (simp_all add: dp_env_def)

lemma dp_decode:
  "decode_data dp_env dec \<lparr>Err = None, Code = 200, Body = PData x\<rparr> =
     (case dec x of Inl _ \<Rightarrow> None | Inr a \<Rightarrow> Some a)"
  "dec PNothing = Inl e \<Longrightarrow> decode_data dp_env dec \<lparr>Err = None, Code = 404, Body = PNothing\<rparr> = None"
  by (simp_all add: decode_data_def dp_env_def)

lemma dp_decoders [simp]:
  "decode_backend dp_env (PBackend b) = Inr b" "decode_backend dp_env PNothing = Inl ''json''"
  "decode_frontend dp_env (PFrontend f) = Inr f" "decode_frontend dp_env PNothing = Inl ''json''"
  "decode_server dp_env (PServer s) = Inr s" "decode_server dp_env PNothing = Inl ''json''"
  "decode_bind dp_env (PBind d) = Inr d" "decode_bind dp_env PNothing = Inl ''json''"
  "decode_backends dp_env (PBackends bs) = Inr (map Some bs)"
  "decode_frontends dp_env (PFrontends fs) = Inr (map Some fs)"
  "decode_servers dp_env (PServers ss) = (ss, None)"
  "decode_raw dp_env (PData x) = Inr (fmupd ''data'' x fmempty)"
  by (simp_all add: dp_env_def)

lemma dp_get_backend:
  "GetBackend dp_env n dp = (lookup_or zero_backend (st_backends (dp_store dp)) n, dp)"
  by (simp add: GetBackend_def call_simps serve_def on_backend_def found_def lookup_or_def
      dp_decode split: option.split)

lemma dp_get_frontend:
  "GetFrontend dp_env n dp = (lookup_or zero_frontend (st_frontends (dp_store dp)) n, dp)"
  by (simp add: GetFrontend_def call_simps serve_def on_frontend_def found_def lookup_or_def
      dp_decode split: option.split)

lemma dp_get_bind:
  "GetBind dp_env n fe dp = (lookup_or zero_bind (st_binds (dp_store dp)) (fe, n), dp)"
  by (simp add: GetBind_def Let_def call_simps on_bind_def found_def lookup_or_def
      dp_decode split: option.split)

lemma dp_get_server:
  "url_plain n \<Longrightarrow> GetServer dp_env be n dp = (lookup_or zero_server (st_servers (dp_store dp)) (be, n), dp)"
  by (simp add: GetServer_def Let_def call_simps on_server_def found_def lookup_or_def
      dp_decode split: option.split)


text \<open>Changing operations, by whether their target exists.\<close>

lemma wf_upd:
  assumes "store_wf st"
  shows "store_wf (st\<lparr>st_backends := fmupd (bk_Name b) b (st_backends st)\<rparr>)"
    "store_wf (st\<lparr>st_frontends := fmupd (fe_Name f) f (st_frontends st)\<rparr>)"
    "fe |\<in>| fmdom (st_frontends st) \<Longrightarrow> store_wf (st\<lparr>st_binds := fmupd (fe, bd_Name d) d (st_binds st)\<rparr>)"
    "be |\<in>| fmdom (st_backends st) \<Longrightarrow> store_wf (st\<lparr>st_servers := fmupd (be, srv_Name s) s (st_servers st)\<rparr>)"
  using assms by (auto simp: store_wf_def fmpred_iff)

lemma wf_parent:
  assumes "store_wf st"
  shows "(fe, n) |\<in>| fmdom (st_binds st) \<Longrightarrow> fe |\<in>| fmdom (st_frontends st)"
    "(be, n) |\<in>| fmdom (st_servers st) \<Longrightarrow> be |\<in>| fmdom (st_backends st)"
  using assms by (auto simp: store_wf_def fmlookup_dom_iff dest: fmpredD)

lemma wf_drop:
  assumes "store_wf st"
  shows "store_wf (drop_backend n st)" "store_wf (drop_frontend n st)"
    "store_wf (st\<lparr>st_servers := fmdrop k (st_servers st)\<rparr>)"
  using assms by (auto simp: store_wf_def drop_backend_def drop_frontend_def fmpred_iff split: if_splits)

lemma dp_add_backend:
  "dp_ok dp \<Longrightarrow> \<exists>r dp'. AddBackend dp_env b dp = (r, dp') \<and> dp_ok dp' \<and>
     (if \<not> valid_backend b then \<not> fst r \<and> snd r \<noteq> None \<and> dp_store dp' = dp_store dp
      else if bk_Name b |\<in>| fmdom (st_backends (dp_store dp))
      then fst r \<and> snd r \<noteq> None \<and> dp_store dp' = dp_store dp
      else r = (True, None) \<and>
        dp_store dp' = dp_store dp\<lparr>st_backends := fmupd (bk_Name b) b (st_backends (dp_store dp))\<rparr>)"
  by (auto simp: AddBackend_def dp_getVersion Let_def call_simps serve_def on_backends_def create_def
      commit_eq next_dp_ok wf_upd dp_wf)

lemma dp_add_frontend:
  "dp_ok dp \<Longrightarrow> \<exists>r dp'. AddFrontend dp_env f dp = (r, dp') \<and> dp_ok dp' \<and>
     (if \<not> valid_mode (fe_Mode f) then \<not> fst r \<and> snd r \<noteq> None \<and> dp_store dp' = dp_store dp
      else if fe_Name f |\<in>| fmdom (st_frontends (dp_store dp))
      then fst r \<and> snd r \<noteq> None \<and> dp_store dp' = dp_store dp
      else r = (True, None) \<and>
        dp_store dp' = dp_store dp\<lparr>st_frontends := fmupd (fe_Name f) f (st_frontends (dp_store dp))\<rparr>)"
  by (auto simp: AddFrontend_def dp_getVersion Let_def call_simps serve_def on_frontends_def create_def
      commit_eq next_dp_ok wf_upd dp_wf)

lemma dp_add_bind:
  "dp_ok dp \<Longrightarrow> \<exists>r dp'. AddBind dp_env d fe dp = (r, dp') \<and> dp_ok dp' \<and>
     (if fe |\<notin>| fmdom (st_frontends (dp_store dp))
      then \<not> fst r \<and> snd r \<noteq> None \<and> dp_store dp' = dp_store dp
      else if (fe, bd_Name d) |\<in>| fmdom (st_binds (dp_store dp))
      then fst r \<and> snd r \<noteq> None \<and> dp_store dp' = dp_store dp
      else r = (True, None) \<and>
        dp_store dp' = dp_store dp\<lparr>st_binds := fmupd (fe, bd_Name d) d (st_binds (dp_store dp))\<rparr>)"
  by (auto simp: AddBind_def dp_getVersion Let_def call_simps on_binds_def create_def
      commit_eq next_dp_ok wf_upd dp_wf)

lemma dp_replace_bind:
  "dp_ok dp \<Longrightarrow> (fe, bd_Name d) |\<in>| fmdom (st_binds (dp_store dp)) \<Longrightarrow>
     \<exists>dp'. replaceBind dp_env (bd_Name d) fe d dp = ((True, None), dp') \<and> dp_ok dp' \<and>
        dp_store dp' = dp_store dp\<lparr>st_binds := fmupd (fe, bd_Name d) d (st_binds (dp_store dp))\<rparr>"
  using wf_parent [OF dp_wf]
  by (simp add: replaceBind_def dp_getVersion Let_def call_simps on_bind_def replace_def
      commit_eq next_dp_ok wf_upd dp_wf)

lemma dp_add_server:
  "dp_ok dp \<Longrightarrow> \<exists>r dp'. AddServerToBackend dp_env s be dp = (r, dp') \<and> dp_ok dp' \<and>
     (if be |\<notin>| fmdom (st_backends (dp_store dp))
      then \<not> fst r \<and> snd r \<noteq> None \<and> dp_store dp' = dp_store dp
      else if (be, srv_Name s) |\<in>| fmdom (st_servers (dp_store dp))
      then fst r \<and> snd r \<noteq> None \<and> dp_store dp' = dp_store dp
      else r = (True, None) \<and>
        dp_store dp' = dp_store dp\<lparr>st_servers := fmupd (be, srv_Name s) s (st_servers (dp_store dp))\<rparr>)"
  by (auto simp: AddServerToBackend_def dp_getVersion Let_def call_simps on_servers_def create_def
      commit_eq next_dp_ok wf_upd dp_wf)

lemma dp_delete_backend:
  "dp_ok dp \<Longrightarrow> \<exists>dp'. DeleteBackend dp_env n dp = (n |\<in>| fmdom (st_backends (dp_store dp)), dp') \<and>
     dp_ok dp' \<and> dp_store dp' =
       (if n |\<in>| fmdom (st_backends (dp_store dp)) then drop_backend n (dp_store dp) else dp_store dp)"
  by (simp add: DeleteBackend_def dp_getVersion Let_def call_simps serve_def on_backend_def
      Reference_Dataplane.remove_def commit_eq next_dp_ok wf_drop dp_wf)

lemma dp_delete_frontend:
  "dp_ok dp \<Longrightarrow> \<exists>dp'. DeleteFrontend dp_env n dp = (n |\<in>| fmdom (st_frontends (dp_store dp)), dp') \<and>
     dp_ok dp' \<and> dp_store dp' =
       (if n |\<in>| fmdom (st_frontends (dp_store dp)) then drop_frontend n (dp_store dp) else dp_store dp)"
  by (simp add: DeleteFrontend_def dp_getVersion Let_def call_simps serve_def on_frontend_def
      Reference_Dataplane.remove_def commit_eq next_dp_ok wf_drop dp_wf)

lemma dp_delete_server:
  "dp_ok dp \<Longrightarrow> url_plain n \<Longrightarrow>
     \<exists>r dp'. DeleteServerFromBackend dp_env n be dp = (r, dp') \<and> dp_ok dp' \<and>
       (if (be, n) |\<in>| fmdom (st_servers (dp_store dp))
        then fst r \<and> dp_store dp' = dp_store dp\<lparr>st_servers := fmdrop (be, n) (st_servers (dp_store dp))\<rparr>
        else \<not> fst r \<and> snd r \<noteq> None \<and> dp_store dp' = dp_store dp)"
  by (auto simp: DeleteServerFromBackend_def dp_getVersion Let_def call_simps on_server_def
      Reference_Dataplane.remove_def commit_eq next_dp_ok wf_drop dp_wf)

lemma set_values_of: "v \<in> set (values_of m) \<longleftrightarrow> (\<exists>k. fmlookup m k = Some v)"
proof -
  have "v \<in> set (values_of m) \<longleftrightarrow> (\<exists>k. (k, v) \<in> set (sorted_list_of_fmap m))"
    unfolding values_of_def by force
  also have "\<dots> \<longleftrightarrow> (\<exists>k. fmlookup m k = Some v)"
    by (auto simp: sorted_list_of_fmap_def sorted_list_of_fset.rep_eq image_iff fmlookup_dom_iff)
  finally show ?thesis .
qed

lemma distinct_values_of:
  assumes "\<And>k v. fmlookup m k = Some v \<Longrightarrow> key v = k"
  shows "distinct (values_of m)"
proof -
  have "map key (values_of m) = map fst (sorted_list_of_fmap m)"
    by (auto simp: values_of_def sorted_list_of_fmap_def fmlookup_dom_iff
        sorted_list_of_fset.rep_eq assms)
  then have "distinct (map key (values_of m))"
    by (simp add: sorted_list_of_fmap_def comp_def sorted_list_of_fset.rep_eq)
  then show ?thesis by (simp add: distinct_map)
qed


lemma dp_get_servers:
  assumes "dp_ok dp"
  shows "\<exists>ss. GetServers dp_env be dp = (ss, dp) \<and> distinct ss \<and>
     (\<forall>s. s \<in> set ss \<longleftrightarrow> fmlookup (st_servers (dp_store dp)) (be, srv_Name s) = Some s)"
proof -
  let ?m = "fmfilter (\<lambda>k. fst k = be) (st_servers (dp_store dp))"
  have own: "fmlookup (st_servers (dp_store dp)) k = Some s \<Longrightarrow> srv_Name s = snd k" for k s
    using dp_wf [OF assms] by (auto simp: store_wf_def dest: fmpredD)
  have "GetServers dp_env be dp = (values_of ?m, dp)"
    by (simp add: GetServers_def Let_def call_simps on_servers_def servers_in_def)
  moreover have "distinct (values_of ?m)"
    by (rule distinct_values_of [where key = "\<lambda>s. (be, srv_Name s)"]) (auto dest: own split: if_splits)
  moreover have "s \<in> set (values_of ?m) \<longleftrightarrow> fmlookup (st_servers (dp_store dp)) (be, srv_Name s) = Some s" for s
    unfolding set_values_of using own [of "(be, _)" s] by (fastforce split: if_splits)
  ultimately show ?thesis by blast
qed

lemma fmempty_values: "values_of m = [] \<longleftrightarrow> m = fmempty"
proof
  assume "values_of m = []"
  then have "fmlookup m k = None" for k using set_values_of [of _ m] by (cases "fmlookup m k") auto
  then show "m = fmempty" by (intro fmap_ext) simp
next
  assume "m = fmempty"
  then have "v \<notin> set (values_of m)" for v using set_values_of [of v m] by simp
  then show "values_of m = []" by (cases "values_of m") auto
qed

lemma dp_get_services:
  assumes "dp_ok dp"
  shows "\<exists>ss. GetServices dp_env dp = Inr (ss, dp) \<and>
     set ss = (if st_frontends (dp_store dp) = fmempty \<or> st_backends (dp_store dp) = fmempty then {}
       else service_of (st_backends (dp_store dp)) `
         {f. fmlookup (st_frontends (dp_store dp)) (fe_Name f) = Some f \<and> fe_Name f \<noteq> ''stats''})"
proof -
  let ?B = "st_backends (dp_store dp)" and ?F = "st_frontends (dp_store dp)"
  have ownB: "fmlookup ?B k = Some b \<Longrightarrow> bk_Name b = k" and ownF: "fmlookup ?F k = Some f \<Longrightarrow> fe_Name f = k"
    for k b f using dp_wf [OF assms] by (auto simp: store_wf_def dest: fmpredD)
  have gets: "GetBackends dp_env dp = (map Some (values_of ?B), dp)"
      "GetFrontends dp_env dp = (map Some (values_of ?F), dp)"
    by (simp_all add: GetBackends_def GetFrontends_def Let_def call_simps serve_def on_backends_def
        on_frontends_def dp_decode)
  obtain m where m: "backends_by_name (map Some (values_of ?B)) = Inr m"
    "\<forall>b \<in> set (values_of ?B). distinct (map bk_Name (values_of ?B)) \<longrightarrow> fmlookup m (bk_Name b) = Some b"
    "fset (fmdom m) = bk_Name ` set (values_of ?B)"
    using backends_by_name_ok by blast
  have "map bk_Name (values_of ?B) = map fst (sorted_list_of_fmap ?B)"
    by (auto simp: values_of_def sorted_list_of_fmap_def fmlookup_dom_iff sorted_list_of_fset.rep_eq ownB)
  then have "distinct (map bk_Name (values_of ?B))"
    by (simp add: sorted_list_of_fmap_def comp_def sorted_list_of_fset.rep_eq)
  then have some: "fmlookup ?B k = Some b \<Longrightarrow> fmlookup m k = Some b" for k b
    using m(2) ownB [of k b] set_values_of [of b ?B] by auto
  have "fmlookup m k = None" if "fmlookup ?B k = None" for k
  proof -
    have "k \<notin> fset (fmdom m)" unfolding m(3) using that ownB by (auto simp: set_values_of)
    then show ?thesis by (simp add: fmdom_notD)
  qed
  then have "m = ?B" by (intro fmap_ext) (metis some not_Some_eq)
  then have "GetServices dp_env dp = Inr (if values_of ?F = [] \<or> values_of ?B = [] then []
      else map (service_of ?B) (filter (\<lambda>f. fe_Name f \<noteq> ''stats'') (values_of ?F)), dp)"
    using m(1) by (simp add: GetServices_def gets services_of_names)
  moreover have "f \<in> set (values_of ?F) \<longleftrightarrow> fmlookup ?F (fe_Name f) = Some f" for f
    using ownF by (auto simp: set_values_of)
  ultimately show ?thesis by (auto simp: fmempty_values)
qed

text \<open>What the API does not offer is refused.\<close>

lemma dp_refused:
  assumes "unoffered (Method req) (Path req)" and "dp_send req dp = (resp, dp')"
  shows "dp' = dp \<and> \<not> accepted resp"
proof -
  obtain p q where path: "read_path (Path req) = (p, q)" by fastforce
  have refuses: "\<not> accepted \<lparr>Err = None, Code = c, Body = PNothing\<rparr>" if "c \<in> {404, 405, 409, 422}" for c
    using that by (auto simp: accepted_def)
  have "dp' = dp \<and> \<not> accepted resp" if s: "serve (route_of p) (Method req) q (ReqBody req) dp = (resp, dp')"
  proof (cases "route_of p")
    case RVersion
    then show ?thesis using s assms(1) path refuses by (auto simp: unoffered_def serve_def)
  next
    case (RAll c)
    then show ?thesis using s assms(1) path refuses
      by (cases c; cases "Method req")
        (auto simp: unoffered_def has_parent_def serve_def on_backends_def on_frontends_def on_servers_def
          on_binds_def split: option.splits)
  next
    case (RItem c n)
    then show ?thesis using s assms(1) path refuses
      by (cases c; cases "Method req")
        (auto simp: unoffered_def has_parent_def serve_def on_backend_def on_frontend_def on_server_def
          on_bind_def split: option.splits)
  next
    case RNone
    then show ?thesis using assms(1) path by (simp add: unoffered_def)
  qed
  then show ?thesis using assms(2) path refuses by (auto simp: dp_send_def split: if_splits)
qed

interpretation dp: haproxy_store dp_env dp_store dp_ok
proof (unfold_locales, goal_cases)
  case (2 w) then show ?case using dp_getVersion by blast
next
  case (4 w b) then show ?case using dp_add_backend by blast
next
  case (7 w f) then show ?case using dp_add_frontend by blast
next
  case (10 w d fe) then show ?case using dp_add_bind by blast
next
  case (14 w be s) then show ?case using dp_add_server by blast
next
  case (15 w be n) then show ?case using dp_delete_server by blast
next
  case (11 w d fe) then show ?case using dp_replace_bind by blast
next
  case (12 w be) then show ?case using dp_get_servers by blast
next
  case (16 w) then show ?case using dp_get_services by blast
next
  case (17 w req resp w') then show ?case using dp_refused [of req w resp w'] by simp
qed (simp_all add: dp_wf dp_get_backend dp_get_frontend dp_get_bind dp_get_server
    dp_delete_backend dp_delete_frontend)

end
