(* ===== verification/Sync_Properties.thy ===== *)
theory Sync_Properties
  imports Sync_Refine Reference_Dataplane
begin

text \<open>
  What the refinement gives: the objects in HAProxy after one sync, after two, and once they are
  in line with the maps. The properties are stated for every server that keeps the laws of
  \<open>haproxy_store\<close>; the witnesses run them against the server in memory.
\<close>

section \<open>The specification, name by name\<close>

text \<open>A service port that a sync handles.\<close>

definition live_port :: "proxier \<Rightarrow> service_port_name \<Rightarrow> base_service_info \<Rightarrow> bool" where
  "live_port p spn info \<longleftrightarrow> (\<exists>s. fmlookup (serviceMap p) spn = Some (ServiceInfo info s)) \<and>
     \<not> skipped p (svc_name_string spn)"

definition port_result ::
    "k8s_ext \<Rightarrow> proxier \<Rightarrow> service_port_name \<Rightarrow> base_service_info \<Rightarrow> svc_view \<Rightarrow> bool \<times> svc_view" where
  "port_result x p spn info v = port_step (haproxy_objects x p spn info) (port_wanted x p spn) v"

definition names_differ :: "proxier \<Rightarrow> bool" where
  "names_differ p \<longleftrightarrow> inj_on svc_name_string (fset (fmdom (serviceMap p)))"

lemma live_port_dom: "live_port p spn info \<Longrightarrow> spn \<in> fset (fmdom (serviceMap p))"
  by (auto simp: live_port_def fmlookup_dom_iff)

lemma live_port_unique:
  assumes "names_differ p" and "live_port p spn info" and "live_port p spn' info'"
    and "svc_name_string spn = svc_name_string spn'"
  shows "spn' = spn \<and> info' = info"
proof -
  have "spn' = spn"
    using assms live_port_dom unfolding names_differ_def by (metis inj_onD)
  then show ?thesis using assms(2,3) by (auto simp: live_port_def)
qed

definition spec_visit ::
    "k8s_ext \<Rightarrow> proxier \<Rightarrow> service_port_name \<Rightarrow> string fset \<times> views \<Rightarrow> string fset \<times> views" where
  "spec_visit x p k s = (case fmlookup (serviceMap p) k of Some v \<Rightarrow> spec_one x p k v s | None \<Rightarrow> s)"

lemma spec_visit_live:
  "live_port p k info \<Longrightarrow> spec_visit x p k (active, V) =
     (let nm = svc_name_string k; (good, v) = port_result x p k info (V nm)
      in (if good then finsert nm active else active, V(nm := v)))"
  by (auto simp: spec_visit_def live_port_def spec_one_def port_result_def Let_def)

lemma spec_visit_dead:
  "(\<And>info. \<not> live_port p k info) \<Longrightarrow> spec_visit x p k s = s"
  by (cases s) (auto simp: spec_visit_def live_port_def spec_one_def split: option.splits service_port.splits)

definition seen :: "string \<Rightarrow> string fset \<times> views \<Rightarrow> bool \<times> svc_view" where
  "seen nm s = (nm |\<in>| fst s, snd s nm)"

lemma spec_visit_other:
  assumes "\<And>info. live_port p k info \<Longrightarrow> svc_name_string k \<noteq> nm"
  shows "seen nm (spec_visit x p k s) = seen nm s"
proof (cases "\<exists>info. live_port p k info")
  case True
  then obtain info where live: "live_port p k info" ..
  obtain active V where s: "s = (active, V)" by (cases s)
  show ?thesis using assms [OF live] unfolding s spec_visit_live [OF live]
    by (auto simp: seen_def Let_def split: prod.splits)
next
  case False
  then show ?thesis by (simp add: spec_visit_dead)
qed

lemma sync_spec_fold:
  "sync_spec x p ks V = (let (active, V1) = fold (spec_visit x p) ks ({||}, V) in clean_spec active V1)"
proof -
  have "(\<lambda>k s. case fmlookup (serviceMap p) k of Some v \<Rightarrow> spec_one x p k v s | None \<Rightarrow> s) = spec_visit x p"
    by (intro ext) (simp add: spec_visit_def)
  then show ?thesis by (simp add: sync_spec_def range_in_def)
qed

text \<open>A service port that a sync handles ends as its own step leaves it, cleaned if that failed.\<close>

definition cleaned :: "bool \<times> svc_view \<Rightarrow> svc_view" where
  "cleaned r = (if \<not> fst r \<and> sv_frontend (snd r) \<noteq> None then no_objects else snd r)"

lemma clean_seen: "clean_spec (fst s) (snd s) nm = cleaned (seen nm s)"
  by (simp add: clean_spec_def cleaned_def seen_def)

lemma sync_spec_live:
  assumes "visits ks (serviceMap p)" and "names_differ p" and "live_port p spn info"
  shows "sync_spec x p ks V (svc_name_string spn) =
     cleaned (port_result x p spn info (V (svc_name_string spn)))"
proof -
  let ?nm = "svc_name_string spn"
  have "seen ?nm (fold (spec_visit x p) ks ({||}, V)) = seen ?nm (spec_visit x p spn ({||}, V))"
  proof (rule fold_one_key)
    show "spn \<in> set ks" "distinct ks" using assms(1) live_port_dom [OF assms(3)] by (simp_all add: visits_def)
    show "seen ?nm (spec_visit x p y s) = seen ?nm s" if "y \<noteq> spn" for y s
      by (rule spec_visit_other) (use that live_port_unique [OF assms(2,3)] in metis)
    show "seen ?nm (spec_visit x p spn s) = seen ?nm (spec_visit x p spn s')" if "seen ?nm s = seen ?nm s'" for s s'
      using that spec_visit_live [OF assms(3)]
      by (cases s; cases s') (auto simp: seen_def Let_def split: prod.splits)
  qed
  also have "\<dots> = port_result x p spn info (V ?nm)"
    using spec_visit_live [OF assms(3)] by (auto simp: seen_def Let_def split: prod.splits)
  finally show ?thesis by (simp add: sync_spec_fold case_prod_beta clean_seen)
qed

lemma sync_spec_dead:
  assumes "\<And>spn info. live_port p spn info \<Longrightarrow> svc_name_string spn \<noteq> nm"
  shows "sync_spec x p ks V nm = (if sv_frontend (V nm) \<noteq> None then no_objects else V nm)"
proof -
  have "seen nm (fold (spec_visit x p) ks ({||}, V)) = seen nm ({||}, V)"
    by (rule fold_other_key) (use assms in \<open>rule spec_visit_other\<close>)
  then show ?thesis by (simp add: sync_spec_fold case_prod_beta clean_seen) (simp add: seen_def cleaned_def)
qed

section \<open>One step, by cases\<close>

definition full_view :: "haproxy_info \<Rightarrow> (string \<Rightarrow> server option) \<Rightarrow> svc_view" where
  "full_view obj want = \<lparr>sv_backend = Some (hi_Backend obj), sv_frontend = Some (hi_Frontend obj),
     sv_bind = Some (hi_Bind obj), sv_servers = want\<rparr>"

definition agrees :: "'a option \<Rightarrow> 'a \<Rightarrow> bool" where
  "agrees cur a \<longleftrightarrow> cur = None \<or> cur = Some a"

lemma agrees_simps [simp]: "agrees None a" "agrees (Some b) a \<longleftrightarrow> b = a"
  by (auto simp: agrees_def)

lemma servers_step_twice [simp]: "servers_step want (servers_step want cur) = want"
  by (auto simp: servers_step_def fun_eq_iff split: option.splits)

lemma servers_step_same [simp]: "servers_step want want = want" "servers_step want (\<lambda>_. None) = want"
  by (auto simp: servers_step_def fun_eq_iff split: option.splits)

text \<open>The objects of a name that the server takes.\<close>

definition accepted_objects :: "haproxy_info \<Rightarrow> bool" where
  "accepted_objects obj \<longleftrightarrow> valid_backend (hi_Backend obj) \<and> valid_mode (fe_Mode (hi_Frontend obj))"

lemma port_step_good:
  assumes "own_view nm v" and "accepted_objects obj"
  shows "cleaned (port_step obj want v) =
     (if agrees (sv_backend v) (hi_Backend obj) \<and> agrees (sv_frontend v) (hi_Frontend obj)
      then full_view obj (servers_step want (sv_servers v))
      else if sv_frontend v \<noteq> None then no_objects else v)"
proof -
  have b: "bk_Mode b \<noteq> ''udp''" if "sv_backend v = Some b" for b
    using assms(1) that by (auto simp: own_view_def valid_backend_def valid_mode_def)
  have f: "fe_Mode f \<noteq> ''udp''" if "sv_frontend v = Some f" for f
    using assms(1) that by (auto simp: own_view_def valid_mode_def)
  show ?thesis
  proof (cases "sv_backend v"; cases "sv_frontend v")
  qed (use b f assms(2) in \<open>auto simp: port_step_def service_step_def backend_step_def frontend_step_def
      accepted_objects_def cleaned_def agrees_def full_view_def no_objects_def Let_def\<close>)
qed

lemma port_step_bad:
  assumes "own_view nm v" and "\<not> accepted_objects obj"
  shows "cleaned (port_step obj want v) =
     (if sv_frontend v \<noteq> None then no_objects
      else if sv_backend v = None \<and> valid_backend (hi_Backend obj)
      then v\<lparr>sv_backend := Some (hi_Backend obj)\<rparr> else v)"
proof -
  have b: "bk_Mode b \<noteq> ''udp''" "valid_backend b" if "sv_backend v = Some b" for b
    using assms(1) that by (auto simp: own_view_def valid_backend_def valid_mode_def)
  have f: "fe_Mode f \<noteq> ''udp''" "valid_mode (fe_Mode f)" "sv_backend v \<noteq> None" if "sv_frontend v = Some f" for f
    using assms that by (auto simp: own_view_def valid_mode_def)
  have bad: "valid_backend (hi_Backend obj) \<Longrightarrow> \<not> valid_mode (fe_Mode (hi_Frontend obj))"
    using assms(2) by (simp add: accepted_objects_def)
  show ?thesis
  proof (cases "sv_backend v"; cases "sv_frontend v")
  qed (use b f bad in \<open>auto simp: port_step_def service_step_def backend_step_def frontend_step_def
      cleaned_def no_objects_def Let_def\<close>)
qed

section \<open>One sync and two\<close>

text \<open>The views after a sync of an own store are again own views.\<close>

definition legal_orders :: "sync_orders \<Rightarrow> bool" where
  "legal_orders so \<longleftrightarrow> lists_sets (so_servers so) \<and> (\<forall>m. visits (so_legacy so m) m) \<and>
     (\<forall>m. visits (so_services so m) m)"

definition frontend_mode :: "base_service_info \<Rightarrow> string" where
  "frontend_mode info = ToLower (protocol info)"

text \<open>
  A port whose objects the server takes: its protocol is a mode of the server, and the proxier's
  algorithm one that the server knows.
\<close>

definition accepted_port :: "proxier \<Rightarrow> base_service_info \<Rightarrow> bool" where
  "accepted_port p info \<longleftrightarrow> valid_mode (frontend_mode info) \<and> valid_balance (serverAlgorithm p)"

lemma objects_accepted: "accepted_objects (haproxy_objects x p spn info) \<longleftrightarrow> accepted_port p info"
  by (auto simp: haproxy_objects_def accepted_objects_def accepted_port_def frontend_mode_def valid_backend_def
      valid_mode_def zero_backend_def Let_def)

text \<open>
  A backend that has lost its frontend is not listed any more; the proxier can go on with it
  only if it is the wanted one.
\<close>

definition no_orphans :: "k8s_ext \<Rightarrow> proxier \<Rightarrow> views \<Rightarrow> bool" where
  "no_orphans x p V \<longleftrightarrow> (\<forall>spn info. live_port p spn info \<longrightarrow>
     sv_frontend (V (svc_name_string spn)) = None \<longrightarrow>
     agrees (sv_backend (V (svc_name_string spn))) (hi_Backend (haproxy_objects x p spn info)))"

text \<open>HAProxy is in line with the maps.\<close>

definition in_line :: "k8s_ext \<Rightarrow> proxier \<Rightarrow> views \<Rightarrow> bool" where
  "in_line x p V \<longleftrightarrow>
     (\<forall>spn info. live_port p spn info \<longrightarrow>
        (if accepted_port p info
         then V (svc_name_string spn) = full_view (haproxy_objects x p spn info) (port_wanted x p spn)
         else sv_frontend (V (svc_name_string spn)) = None)) \<and>
     (\<forall>nm. sv_frontend (V nm) \<noteq> None \<longrightarrow> (\<exists>spn info. live_port p spn info \<and> svc_name_string spn = nm))"

lemma in_line_live:
  "in_line x p V \<Longrightarrow> live_port p spn info \<Longrightarrow>
     if accepted_port p info
     then V (svc_name_string spn) = full_view (haproxy_objects x p spn info) (port_wanted x p spn)
     else sv_frontend (V (svc_name_string spn)) = None"
  by (simp add: in_line_def)

lemma two_steps_live:
  assumes "own_view nm v" and "own_view nm (cleaned (port_step obj want v))"
    and "sv_frontend v = None \<longrightarrow> agrees (sv_backend v) (hi_Backend obj)"
  shows "cleaned (port_step obj want (cleaned (port_step obj want v))) =
     (if accepted_objects obj then full_view obj want
      else if sv_frontend v \<noteq> None then
        (if valid_backend (hi_Backend obj) then no_objects\<lparr>sv_backend := Some (hi_Backend obj)\<rparr> else no_objects)
      else cleaned (port_step obj want v))"
proof (cases "accepted_objects obj")
  case True
  note step = port_step_good [OF _ True]
  have full: "cleaned (port_step obj want (full_view obj m)) = full_view obj (servers_step want m)"
    if "own_view nm (full_view obj m)" for m
    using step [OF that] by (simp add: full_view_def agrees_def)
  have none: "cleaned (port_step obj want no_objects) = full_view obj want"
    using step [of nm no_objects] by (simp add: agrees_def)
  show ?thesis using assms(2,3) step [OF assms(1), of want] full none True
    by (auto split: if_splits)
next
  case False
  note step = port_step_bad [OF _ False]
  show ?thesis
  proof (cases "sv_frontend v = None")
    case True
    then show ?thesis using False step [OF assms(1), of want] step [OF assms(2), of want] by auto
  next
    case nf: False
    then show ?thesis using False step [OF assms(1), of want] step [OF own_view_no_objects, of want] by auto
  qed
qed

section \<open>Views after a sync\<close>

text \<open>After one sync no frontend is left that is not the wanted one of a service port.\<close>

lemma sync_spec_safe:
  assumes "visits ks (serviceMap p)" and "names_differ p" and "\<And>nm. own_view nm (V nm)"
    and "sv_frontend (sync_spec x p ks V nm) = Some f"
  shows "\<exists>spn info. live_port p spn info \<and> svc_name_string spn = nm \<and> accepted_port p info \<and>
     sync_spec x p ks V nm =
       full_view (haproxy_objects x p spn info) (servers_step (port_wanted x p spn) (sv_servers (V nm)))"
proof (cases "\<exists>spn info. live_port p spn info \<and> svc_name_string spn = nm")
  case False
  then show ?thesis using assms(4) by (subst (asm) sync_spec_dead) (auto split: if_splits)
next
  case True
  then obtain spn info where live: "live_port p spn info" "svc_name_string spn = nm" by blast
  let ?obj = "haproxy_objects x p spn info"
  have s: "sync_spec x p ks V nm = cleaned (port_step ?obj (port_wanted x p spn) (V nm))"
    using sync_spec_live [OF assms(1,2) live(1)] live(2) by (simp add: port_result_def)
  show ?thesis
  proof (cases "accepted_port p info")
    case True
    then have "accepted_objects ?obj" by (simp add: objects_accepted)
    from port_step_good [OF assms(3) this] have
      "sync_spec x p ks V nm = full_view ?obj (servers_step (port_wanted x p spn) (sv_servers (V nm)))"
      using s assms(4) by (auto split: if_splits)
    then show ?thesis using live True by blast
  next
    case False
    then have "\<not> accepted_objects ?obj" by (simp add: objects_accepted)
    from port_step_bad [OF assms(3) this] show ?thesis using s assms(4) by (auto split: if_splits)
  qed
qed

text \<open>Two syncs bring HAProxy in line, if no backend without frontend is in the way.\<close>

lemma two_syncs_in_line:
  assumes "visits ks (serviceMap p)" and "visits ks' (serviceMap p)" and "names_differ p"
    and "\<And>nm. own_view nm (V nm)" and "\<And>nm. own_view nm (sync_spec x p ks V nm)" and "no_orphans x p V"
  shows "in_line x p (sync_spec x p ks' (sync_spec x p ks V))"
proof -
  let ?W = "sync_spec x p ks V"
  have "if accepted_port p info
         then sync_spec x p ks' ?W (svc_name_string spn) = full_view (haproxy_objects x p spn info) (port_wanted x p spn)
         else sv_frontend (sync_spec x p ks' ?W (svc_name_string spn)) = None"
    if live: "live_port p spn info" for spn info
  proof -
    let ?nm = "svc_name_string spn" and ?obj = "haproxy_objects x p spn info"
    have 1: "?W ?nm = cleaned (port_step ?obj (port_wanted x p spn) (V ?nm))"
      using sync_spec_live [OF assms(1,3) live] by (simp add: port_result_def)
    have 2: "sync_spec x p ks' ?W ?nm = cleaned (port_step ?obj (port_wanted x p spn) (?W ?nm))"
      using sync_spec_live [OF assms(2,3) live] by (simp add: port_result_def)
    have "sv_frontend (V ?nm) = None \<longrightarrow> agrees (sv_backend (V ?nm)) (hi_Backend ?obj)"
      using assms(6) live by (simp add: no_orphans_def)
    from two_steps_live [OF assms(4) _ this, of "port_wanted x p spn"] assms(5) [of ?nm]
      port_step_bad [OF assms(4) [of ?nm], of ?obj "port_wanted x p spn"]
    show ?thesis unfolding 1 2 objects_accepted by (auto split: if_splits)
  qed
  moreover have "\<exists>spn info. live_port p spn info \<and> svc_name_string spn = nm"
    if "sv_frontend (sync_spec x p ks' ?W nm) \<noteq> None" for nm
  proof -
    from that obtain f where "sv_frontend (sync_spec x p ks' ?W nm) = Some f" by auto
    from sync_spec_safe [OF assms(2,3,5) this] show ?thesis by blast
  qed
  ultimately show ?thesis by (simp add: in_line_def)
qed

text \<open>Once in line, a further sync changes nothing, up to the backends of refused frontends.\<close>

lemma in_line_stable:
  assumes "visits ks (serviceMap p)" and "names_differ p" and "\<And>nm. own_view nm (V nm)" and "in_line x p V"
  shows "in_line x p (sync_spec x p ks V)"
    and "sv_frontend (V nm) \<noteq> None \<Longrightarrow> sync_spec x p ks V nm = V nm"
proof -
  have live: "if accepted_port p info
      then sync_spec x p ks V (svc_name_string spn) = V (svc_name_string spn)
      else sv_frontend (sync_spec x p ks V (svc_name_string spn)) = None"
    if "live_port p spn info" for spn info
  proof -
    let ?nm = "svc_name_string spn" and ?obj = "haproxy_objects x p spn info"
    have s: "sync_spec x p ks V ?nm = cleaned (port_step ?obj (port_wanted x p spn) (V ?nm))"
      using sync_spec_live [OF assms(1,2) that] by (simp add: port_result_def)
    have v: "if accepted_port p info then V ?nm = full_view ?obj (port_wanted x p spn)
        else sv_frontend (V ?nm) = None"
      by (rule in_line_live [OF assms(4) that])
    show ?thesis unfolding s
      using v port_step_good [OF assms(3) [of ?nm], of ?obj "port_wanted x p spn"]
        port_step_bad [OF assms(3) [of ?nm], of ?obj "port_wanted x p spn"]
      by (auto simp: objects_accepted full_view_def split: if_splits)
  qed
  have none_else: "\<exists>spn info. live_port p spn info \<and> svc_name_string spn = nm"
    if "sv_frontend (sync_spec x p ks V nm) \<noteq> None" for nm
  proof -
    from that obtain f where "sv_frontend (sync_spec x p ks V nm) = Some f" by auto
    from sync_spec_safe [OF assms(1-3) this] show ?thesis by blast
  qed
  show "in_line x p (sync_spec x p ks V)"
    using assms(4) live none_else unfolding in_line_def by (metis (full_types))
  show "sync_spec x p ks V nm = V nm" if "sv_frontend (V nm) \<noteq> None"
  proof -
    from that assms(4) have "\<exists>spn info. live_port p spn info \<and> svc_name_string spn = nm"
      unfolding in_line_def by blast
    then obtain spn info where l: "live_port p spn info" "svc_name_string spn = nm" by blast
    have "accepted_port p info" using that in_line_live [OF assms(4) l(1)] l(2) by (auto split: if_splits)
    then show ?thesis using live [OF l(1)] l(2) by simp
  qed
qed

section \<open>Running the proxier\<close>

text \<open>
  A sync is ready to run: the proxier is initialised, the names are valid and differ, and the
  maps have been updated to those of \<open>p1\<close>.
\<close>

definition ready :: "k8s_ext \<Rightarrow> sync_orders \<Rightarrow> proxier \<Rightarrow> proxier \<Rightarrow> bool" where
  "ready x so p p1 \<longleftrightarrow> isInitialized p \<and> gracefuldeleteManager p = {||} \<and> names_ok p1 \<and>
     names_differ p1 \<and> legal_orders so \<and> (\<exists>sres eres. update_maps x so p = Inr (p1, sres, eres))"

text \<open>The specification reads the maps and the settings only.\<close>

lemma same_spec:
  assumes "q = p\<lparr>serviceMap := serviceMap q, serviceChanges := sc, endpointsMap := endpointsMap q, endpointsChanges := ec\<rparr>"
    and "serviceMap q = serviceMap p" and "endpointsMap q = endpointsMap p"
  shows "sync_spec x q = sync_spec x p \<and> live_port q = live_port p \<and> port_wanted x q = port_wanted x p \<and>
     haproxy_objects x q = haproxy_objects x p \<and> accepted_port q = accepted_port p"
proof -
  have f: "isHealthCheck q = isHealthCheck p" "px_mode q = px_mode p" "serverAlgorithm q = serverAlgorithm p"
      "proxyIP q = proxyIP p"
    by (subst assms(1), simp)+
  have e: "port_endpoints q = port_endpoints p" by (intro ext) (simp add: port_endpoints_def assms(3))
  have w: "port_wanted x q = port_wanted x p" by (intro ext) (simp add: port_wanted_def f e)
  have k: "skipped q = skipped p" by (intro ext) (simp add: skipped_def f)
  have o: "haproxy_objects x q = haproxy_objects x p" by (intro ext) (simp add: haproxy_objects_def f)
  have s: "spec_one x q = spec_one x p" by (intro ext) (simp only: spec_one_def w k o)
  have "sync_spec x q = sync_spec x p" by (intro ext) (simp add: sync_spec_def s assms(2))
  moreover have "live_port q = live_port p" by (intro ext) (simp add: live_port_def assms(2) k)
  moreover have "accepted_port q = accepted_port p" by (intro ext) (simp add: accepted_port_def f)
  ultimately show ?thesis using w o by blast
qed

lemma frontend_of_view: "sv_frontend (view_of nm st) = fmlookup (st_frontends st) (FRONTEND_PREFIX @ nm)"
  by (simp add: view_of_def)

lemma own_views: "own_store st \<Longrightarrow> own_view nm (views_of st nm)"
  by (simp add: own_store_def views_of_def)

lemma stored_frontend_own:
  assumes "own_store st" and "fmlookup (st_frontends st) k = Some f" and "k \<noteq> ''stats''"
  shows "\<exists>nm. k = FRONTEND_PREFIX @ nm \<and> sv_frontend (views_of st nm) = Some f"
proof -
  have "\<exists>nm. k = FRONTEND_PREFIX @ nm" using assms fmdomI [OF assms(2)] by (auto simp: own_store_def)
  then show ?thesis using assms(2) by (auto simp: views_of_def view_of_def)
qed

lemma in_line_frontend:
  assumes "own_store st" and "in_line x p (views_of st)" and "k |\<in>| fmdom (st_frontends st)" and "k \<noteq> ''stats''"
  shows "\<exists>spn info. live_port p spn info \<and> k = FRONTEND_PREFIX @ svc_name_string spn"
proof -
  from assms(3) obtain f where f: "fmlookup (st_frontends st) k = Some f" by (auto simp: fmlookup_dom_iff)
  obtain nm where nm: "k = FRONTEND_PREFIX @ nm" "sv_frontend (views_of st nm) = Some f"
    using stored_frontend_own [OF assms(1) f assms(4)] by blast
  then have "sv_frontend (views_of st nm) \<noteq> None" by simp
  then have "\<exists>spn info. live_port p spn info \<and> svc_name_string spn = nm"
    using assms(2) unfolding in_line_def by blast
  then show ?thesis using nm(1) by blast
qed

context haproxy_store begin

lemma ready_sync:
  assumes "ok w" and "own_store (view w)" and "ready x so p p1"
  shows "\<exists>w'. syncProxyRules x env so p w = Inr (p1, w') \<and> ok w' \<and> own_store (view w') \<and>
     same_foreign (view w) (view w') \<and>
     views_of (view w') = sync_spec x p1 (so_services so (serviceMap p1)) (views_of (view w))"
  using sync_refines [OF assms(1,2)] assms(3) unfolding ready_def legal_orders_def by metis

lemma two_syncs:
  assumes "ok w" and "own_store (view w)" and "ready x so p p1" and "ready x so' p1 p2"
    and "serviceMap p2 = serviceMap p1" and "endpointsMap p2 = endpointsMap p1"
    and "no_orphans x p1 (views_of (view w))"
  shows "\<exists>w1 w2. syncProxyRules x env so p w = Inr (p1, w1) \<and> syncProxyRules x env so' p1 w1 = Inr (p2, w2) \<and>
     ok w2 \<and> own_store (view w2) \<and> in_line x p2 (views_of (view w2))"
proof -
  obtain w1 where w1: "syncProxyRules x env so p w = Inr (p1, w1)" "ok w1" "own_store (view w1)"
      "views_of (view w1) = sync_spec x p1 (so_services so (serviceMap p1)) (views_of (view w))"
    using ready_sync [OF assms(1-3)] by blast
  obtain w2 where w2: "syncProxyRules x env so' p1 w1 = Inr (p2, w2)" "ok w2" "own_store (view w2)"
      "views_of (view w2) = sync_spec x p2 (so_services so' (serviceMap p2)) (views_of (view w1))"
    using ready_sync [OF w1(2,3) assms(4)] by blast
  obtain sres eres where up: "update_maps x so' p1 = Inr (p2, sres, eres)"
    using assms(4) by (auto simp: ready_def)
  have same: "sync_spec x p2 = sync_spec x p1" "live_port p2 = live_port p1" "port_wanted x p2 = port_wanted x p1"
      "haproxy_objects x p2 = haproxy_objects x p1" "accepted_port p2 = accepted_port p1"
    using same_spec [OF update_maps_frame [OF up] assms(5,6)] by blast+
  have v: "visits (so_services so (serviceMap p1)) (serviceMap p1)" "visits (so_services so' (serviceMap p1)) (serviceMap p1)"
    using assms(3,4) by (simp_all add: ready_def legal_orders_def)
  have "in_line x p1 (sync_spec x p1 (so_services so' (serviceMap p1))
      (sync_spec x p1 (so_services so (serviceMap p1)) (views_of (view w))))"
    by (rule two_syncs_in_line [OF v])
      (use assms(2,3,7) own_views w1(3,4) in \<open>auto simp: ready_def simp flip: w1(4)\<close>)
  then have "in_line x p2 (views_of (view w2))"
    using w1(4) w2(4) assms(5) same by (simp add: in_line_def)
  then show ?thesis using w1 w2 by blast
qed

end

section \<open>A closed example\<close>

text \<open>Servers listed in the order of their fields.\<close>

type_synonym server_fields =
  "string \<times> bool \<times> string \<times> string \<times> string \<times> int \<times> string \<times> int \<times> string \<times> string \<times> string \<times> string \<times>
   int \<times> string \<times> string \<times> string \<times> string \<times> string \<times> string \<times> string \<times> int"

definition server_key :: "server \<Rightarrow> server_fields" where
  "server_key s = (Address s, Allow0rtt s, Backup s, Check s, Cookie s, Inter s, Maintenance s, Maxconn s,
     srv_Name s, OnError s, OnMarkedDown s, OnMarkedUp s, srv_Port s, SendProxy s, SendProxyV2 s, Ssl s,
     SslCafile s, SslCertificate s, TLSTickets s, Verify s, Weight s)"

fun server_of_key :: "server_fields \<Rightarrow> server" where
  "server_of_key (a, b, c, d, e, f, g, h, i, j, k, l, m, n, p, q, r, s, t, u, v) =
     \<lparr>Address = a, Allow0rtt = b, Backup = c, Check = d, Cookie = e, Inter = f, Maintenance = g,
      Maxconn = h, srv_Name = i, OnError = j, OnMarkedDown = k, OnMarkedUp = l, srv_Port = m,
      SendProxy = n, SendProxyV2 = p, Ssl = q, SslCafile = r, SslCertificate = s, TLSTickets = t,
      Verify = u, Weight = v\<rparr>"

lemma server_of_key_inverse [simp]: "server_of_key (server_key s) = s"
  by (simp add: server_key_def)

definition sorted_servers :: "server fset \<Rightarrow> server list" where
  "sorted_servers S = map server_of_key (sorted_list_of_fset (server_key |`| S))"

lemma sorted_servers_lists: "lists_sets sorted_servers"
proof -
  have set: "set (sorted_list_of_fset (server_key |`| S)) = server_key ` fset S" for S
    by (simp add: sorted_list_of_fset.rep_eq)
  have "distinct (sorted_list_of_fset (server_key |`| S))" for S
    by (simp add: sorted_list_of_fset.rep_eq)
  moreover have "inj_on server_of_key (server_key ` fset S)" for S
    by (auto simp: inj_on_def)
  ultimately show ?thesis
    by (auto simp: lists_sets_def sorted_servers_def distinct_map set image_iff)
qed

definition web_sync_orders :: sync_orders where
  "web_sync_orders = \<lparr>so_eps = web_orders, so_items = [],
     so_hc = (\<lambda>m. sorted_list_of_fset (fmdom m)), so_services = (\<lambda>m. sorted_list_of_fset (fmdom m)),
     so_servers = sorted_servers, so_legacy = (\<lambda>m. sorted_list_of_fset (fmdom m))\<rparr>"

lemma web_sync_orders_legal: "legal_orders web_sync_orders"
  by (simp add: legal_orders_def web_sync_orders_def sorted_servers_lists visits_sorted)

definition web_port_info :: base_service_info where
  "web_port_info = \<lparr>clusterIP = map of_char ''10.0.0.20'', port = 80, protocol = ''TCP'', nodePort = 30080,
     loadBalancerStatus = [], sessionAffinityType = ''None'', stickyMaxAgeSeconds = 0,
     externalIPs = [], loadBalancerSourceRanges = [], healthCheckNodePort = 0,
     onlyNodeLocalEndpoints = False, topologyKeys = []\<rparr>"

definition web_proxier :: proxier where
  "web_proxier = \<lparr>endpointsChanges = NewEndpointChangeTracker ''node1'' (Some newEndpointInfo) (Some False) False,
     serviceChanges = NewServiceChangeTracker (Some newServiceInfo),
     serviceMap = fmupd web_name (ServiceInfo web_port_info ''shop/web:http'') fmempty,
     endpointsMap = fmupd web_name [EndpointsInfo \<lparr>Endpoint = ''10.1.0.5:8080'', IsLocal = True, Topology = None\<rparr> ''''] fmempty,
     haproxyHandle = NewHaproxyHandle \<lparr>ii_Host = '''', User = '''', Passwd = '''', Dev = '''', ii_Mode = ''local'',
        IsCheckServer = True, ServerAlgorithm = ''roundrobin''\<rparr>,
     endpointsSynced = True, endpointSlicesSynced = False, servicesSynced = True, initialized = 1,
     serverAlgorithm = ''roundrobin'', gracefuldeleteManager = {||}, interfaceName = ''eth0'',
     px_mode = ''local'', proxyIP = map of_char ''0.0.0.0'', isHealthCheck = True\<rparr>"

definition empty_dp :: dataplane where
  "empty_dp = \<lparr>dp_version = 1, dp_store = \<lparr>st_backends = fmempty, st_frontends = fmempty, st_binds = fmempty,
     st_servers = fmempty\<rparr>, dp_reload = False\<rparr>"

lemma empty_dp_ok: "dp_ok empty_dp"
  by (simp add: dp_ok_def empty_dp_def store_wf_def max_int_def)

text \<open>A store with one backend and nothing else.\<close>

definition backend_dp :: dataplane where
  "backend_dp = empty_dp\<lparr>dp_store := (dp_store empty_dp)\<lparr>st_backends :=
     fmupd (BACKEND_PREFIX @ ''shop.web.http'')
       (zero_backend\<lparr>bk_Name := BACKEND_PREFIX @ ''shop.web.http'', bk_Mode := ''tcp''\<rparr>) fmempty\<rparr>\<rparr>"

lemma backend_dp_ok: "dp_ok backend_dp"
  by (simp add: dp_ok_def backend_dp_def empty_dp_def store_wf_def max_int_def fmpred_iff)

lemma empty_dp_views: "views_of (dp_store empty_dp) = (\<lambda>_. no_objects)"
  by (rule ext) (simp add: views_of_def view_of_def empty_dp_def no_objects_def)

lemma empty_dp_own: "own_store (dp_store empty_dp)"
  using empty_dp_views by (simp add: own_store_def views_of_def fun_eq_iff) (simp add: empty_dp_def)

lemma web_name_string: "svc_name_string web_name = ''shop.web.http''"
  by (simp add: svc_name_string_def web_name_def ServicePortName_String_def NamespacedName_String_def
      fmtPortName_def ReplaceAll_def)

lemma web_ready: "ready simple_ext web_sync_orders web_proxier web_proxier"
proof -
  have "\<exists>sres eres. update_maps simple_ext web_sync_orders web_proxier = Inr (web_proxier, sres, eres)"
    by (simp add: update_maps_def web_sync_orders_def UpdateServiceMap_def service_map_apply_def
        UpdateEndpointsMap_def endpoints_map_apply_def ect_checkoutChanges_def checkoutTriggerTimes_def Let_def
        web_proxier_def NewEndpointChangeTracker_def NewServiceChangeTracker_def split: prod.splits)
      (simp add: range_in_def web_orders_def)
  moreover have "names_ok web_proxier"
    by (simp add: names_ok_def port_endpoints_def web_proxier_def dns_name_ok_def web_name_def dns_label_def
        dns_char_def endpoint_String_def url_plain_def SERVER_PREFIX_def split: option.splits)
  moreover have "names_differ web_proxier" by (simp add: names_differ_def web_proxier_def)
  moreover have "isInitialized web_proxier" "gracefuldeleteManager web_proxier = {||}"
    by (simp_all add: isInitialized_def web_proxier_def)
  ultimately show ?thesis using web_sync_orders_legal by (simp add: ready_def)
qed

lemma web_live: "live_port web_proxier web_name web_port_info"
  by (simp add: live_port_def web_proxier_def skipped_def)

lemma web_mode: "valid_mode (frontend_mode web_port_info)"
  by code_simp

lemma web_accepted: "accepted_port web_proxier web_port_info"
  using web_mode by (simp add: accepted_port_def web_proxier_def valid_balance_def)

lemma web_no_orphans: "no_orphans simple_ext web_proxier (views_of (dp_store empty_dp))"
  by (simp add: no_orphans_def empty_dp_views)

section \<open>Properties\<close>

text \<open>
  C5. The whole sync refines its specification: started on a store the proxier owns, against any
  server that keeps the laws, \<open>syncProxyRules\<close> does not panic, leaves what belongs to others
  alone, keeps the store its own, and turns the objects of every name into those of
  \<open>sync_spec\<close>: each service port makes its step, what has no active service goes.
\<close>

theorem sync_refines_spec:
  assumes "haproxy_store env view ok" and "ok w" and "own_store (view w)" and "ready x so p p1"
  shows "\<exists>w'. syncProxyRules x env so p w = Inr (p1, w') \<and> ok w' \<and> own_store (view w') \<and>
     same_foreign (view w) (view w') \<and>
     (\<forall>nm. view_of nm (view w') =
        sync_spec x p1 (so_services so (serviceMap p1)) (\<lambda>n. view_of n (view w)) nm)"
proof -
  obtain w' where "syncProxyRules x env so p w = Inr (p1, w')" "ok w'" "own_store (view w')"
      "same_foreign (view w) (view w')"
      "views_of (view w') = sync_spec x p1 (so_services so (serviceMap p1)) (views_of (view w))"
    using haproxy_store.ready_sync [OF assms] by blast
  then show ?thesis by (intro exI [of _ w']) (simp add: views_of_def fun_eq_iff)
qed

theorem sync_refines_spec_witness:
  "\<exists>w'. syncProxyRules simple_ext dp_env web_sync_orders web_proxier empty_dp = Inr (web_proxier, w') \<and>
     view_of ''shop.web.http'' (dp_store w') =
       full_view (haproxy_objects simple_ext web_proxier web_name web_port_info)
         (port_wanted simple_ext web_proxier web_name)"
proof -
  let ?ks = "so_services web_sync_orders (serviceMap web_proxier)"
  obtain w' where w': "syncProxyRules simple_ext dp_env web_sync_orders web_proxier empty_dp = Inr (web_proxier, w')"
      "\<forall>nm. view_of nm (dp_store w') = sync_spec simple_ext web_proxier ?ks (\<lambda>n. view_of n (dp_store empty_dp)) nm"
    using sync_refines_spec [OF dp.haproxy_store_axioms empty_dp_ok empty_dp_own web_ready] by blast
  have e: "(\<lambda>n. view_of n (dp_store empty_dp)) = (\<lambda>_. no_objects)"
    using empty_dp_views by (simp add: views_of_def)
  have "visits ?ks (serviceMap web_proxier)" "names_differ web_proxier"
    using web_ready by (simp_all add: ready_def legal_orders_def)
  from sync_spec_live [OF this web_live] have
    "sync_spec simple_ext web_proxier ?ks (\<lambda>_. no_objects) (svc_name_string web_name) =
      cleaned (port_step (haproxy_objects simple_ext web_proxier web_name web_port_info)
        (port_wanted simple_ext web_proxier web_name) no_objects)"
    by (simp add: port_result_def)
  also have "\<dots> = full_view (haproxy_objects simple_ext web_proxier web_name web_port_info)
        (port_wanted simple_ext web_proxier web_name)"
    by (subst port_step_good [OF own_view_no_objects]) (simp_all add: objects_accepted web_accepted)
  finally show ?thesis using w' e by (auto simp: web_name_string)
qed

text \<open>
  The frontend \<open>f\<close> under the name \<open>k\<close> serves a port: it is the wanted one, so are its default
  backend and its bind, and the backend has no server that the endpoints map does not ask for.
\<close>

definition serves_port :: "k8s_ext \<Rightarrow> proxier \<Rightarrow> store \<Rightarrow> string \<Rightarrow> frontend \<Rightarrow> bool" where
  "serves_port x p st k f \<longleftrightarrow>
     (\<exists>spn info. live_port p spn info \<and> f = hi_Frontend (haproxy_objects x p spn info) \<and> fe_Name f = k \<and>
        fmlookup (st_backends st) (DefaultBackend f) = Some (hi_Backend (haproxy_objects x p spn info)) \<and>
        fmlookup (st_binds st) (k, bd_Name (hi_Bind (haproxy_objects x p spn info))) =
          Some (hi_Bind (haproxy_objects x p spn info)) \<and>
        (\<forall>n s. fmlookup (st_servers st) (DefaultBackend f, n) = Some s \<longrightarrow>
           s \<in> endpoint_server x (isHealthCheck p) ` set (port_endpoints p spn)))"

text \<open>
  C7. Safety: after a sync every frontend other than \<open>stats\<close> is the wanted one of a service port
  in the map, its default backend and its bind are the wanted ones, and the backend holds no
  server that the endpoints map does not ask for.
\<close>

theorem sync_safe:
  assumes "haproxy_store env view ok" and "ok w" and "own_store (view w)" and "ready x so p p1"
  shows "\<exists>w'. syncProxyRules x env so p w = Inr (p1, w') \<and>
     (\<forall>k f. fmlookup (st_frontends (view w')) k = Some f \<longrightarrow> k \<noteq> ''stats'' \<longrightarrow> serves_port x p1 (view w') k f)"
proof -
  let ?ks = "so_services so (serviceMap p1)"
  obtain w' where w': "syncProxyRules x env so p w = Inr (p1, w')" "own_store (view w')"
      "views_of (view w') = sync_spec x p1 ?ks (views_of (view w))"
    using haproxy_store.ready_sync [OF assms] by blast
  have r: "visits ?ks (serviceMap p1)" "names_differ p1"
    using assms(4) by (simp_all add: ready_def legal_orders_def)
  have "serves_port x p1 (view w') k f" if "fmlookup (st_frontends (view w')) k = Some f" "k \<noteq> ''stats''" for k f
  proof -
    note k = that
    obtain nm where nm: "k = FRONTEND_PREFIX @ nm" "sv_frontend (views_of (view w') nm) = Some f"
      using stored_frontend_own [OF w'(2) k] by blast
    obtain spn info where l: "live_port p1 spn info" "svc_name_string spn = nm"
        "views_of (view w') nm = full_view (haproxy_objects x p1 spn info)
          (servers_step (port_wanted x p1 spn) (sv_servers (views_of (view w) nm)))"
      using sync_spec_safe [OF r own_views [OF assms(3)], of x nm f] nm(2) unfolding w'(3) by blast
    have n: "named_for nm (haproxy_objects x p1 spn info)" using haproxy_objects_named l(2) by blast
    have f: "f = hi_Frontend (haproxy_objects x p1 spn info)" using nm(2) l(3) by (simp add: full_view_def)
    have d: "DefaultBackend f = BACKEND_PREFIX @ nm" using f objects_frontend l(2) by simp
    have v: "sv_backend (views_of (view w') nm) = Some (hi_Backend (haproxy_objects x p1 spn info))"
        "sv_bind (views_of (view w') nm) = Some (hi_Bind (haproxy_objects x p1 spn info))"
        "sv_servers (views_of (view w') nm) = servers_step (port_wanted x p1 spn) (sv_servers (views_of (view w) nm))"
      using l(3) by (simp_all add: full_view_def)
    have "s \<in> endpoint_server x (isHealthCheck p1) ` set (port_endpoints p1 spn)"
      if "fmlookup (st_servers (view w')) (BACKEND_PREFIX @ nm, n) = Some s" for n s
      using that v(3) by (auto simp: views_of_def view_of_def servers_step_def fun_eq_iff port_wanted_def
          wanted_servers_iff split: option.splits if_splits)
    then show ?thesis unfolding serves_port_def using l(1) f d n nm(1) v(1,2)
      by (intro exI [of _ spn] exI [of _ info]) (simp add: named_for_def views_of_def view_of_def)
  qed
  then show ?thesis using w'(1) by blast
qed

theorem sync_safe_witness:
  "\<exists>w'. syncProxyRules simple_ext dp_env web_sync_orders web_proxier empty_dp = Inr (web_proxier, w') \<and>
     (\<forall>k f. fmlookup (st_frontends (dp_store w')) k = Some f \<longrightarrow> k \<noteq> ''stats'' \<longrightarrow>
        DefaultBackend f = ''BACKEND.shop.web.http'')"
proof -
  have name: "svc_name_string spn = ''shop.web.http''" if "live_port web_proxier spn info" for spn info
    using live_port_dom [OF that] web_name_string by (simp add: web_proxier_def)
  have leads: "DefaultBackend f = ''BACKEND.shop.web.http''" if sp: "serves_port simple_ext web_proxier st k f" for st k f
  proof -
    obtain spn info where "live_port web_proxier spn info" "f = hi_Frontend (haproxy_objects simple_ext web_proxier spn info)"
      using sp unfolding serves_port_def by metis
    then show ?thesis using name by (simp add: objects_frontend BACKEND_PREFIX_def)
  qed
  show ?thesis
    using sync_safe [OF dp.haproxy_store_axioms empty_dp_ok empty_dp_own web_ready] leads by blast
qed

text \<open>
  C6. Liveness: started on a store the proxier owns, in which no service port of the map has a
  backend without frontend that differs from the wanted one, two syncs between which the maps
  stay the same bring HAProxy in line: every service port whose objects the server takes (its
  protocol is \<open>tcp\<close> or \<open>http\<close> and the algorithm is known) has its backend, its frontend, its bind
  and exactly the wanted servers, any other port has no frontend, and there is no other frontend
  but \<open>stats\<close>. The first sync removes what differs (a replacement cannot succeed), the second one
  creates it anew. A differing backend without frontend is excluded because it stays in the
  way: it is never listed, so never removed.
\<close>

theorem two_syncs_converge:
  assumes "haproxy_store env view ok" and "ok w" and "own_store (view w)"
    and "ready x so p p1" and "ready x so' p1 p2"
    and "serviceMap p2 = serviceMap p1" and "endpointsMap p2 = endpointsMap p1"
    and "no_orphans x p1 (views_of (view w))"
  shows "\<exists>w1 w2. syncProxyRules x env so p w = Inr (p1, w1) \<and> syncProxyRules x env so' p1 w1 = Inr (p2, w2) \<and>
     (\<forall>spn info. live_port p2 spn info \<longrightarrow>
        (if accepted_port p2 info
         then view_of (svc_name_string spn) (view w2) = full_view (haproxy_objects x p2 spn info) (port_wanted x p2 spn)
         else fmlookup (st_frontends (view w2)) (FRONTEND_PREFIX @ svc_name_string spn) = None)) \<and>
     (\<forall>k. k |\<in>| fmdom (st_frontends (view w2)) \<longrightarrow> k \<noteq> ''stats'' \<longrightarrow>
        (\<exists>spn info. live_port p2 spn info \<and> k = FRONTEND_PREFIX @ svc_name_string spn))"
proof -
  obtain w1 w2 where w: "syncProxyRules x env so p w = Inr (p1, w1)" "syncProxyRules x env so' p1 w1 = Inr (p2, w2)"
      "own_store (view w2)" "in_line x p2 (views_of (view w2))"
    using haproxy_store.two_syncs [OF assms] by blast
  have "if accepted_port p2 info
      then view_of (svc_name_string spn) (view w2) = full_view (haproxy_objects x p2 spn info) (port_wanted x p2 spn)
      else fmlookup (st_frontends (view w2)) (FRONTEND_PREFIX @ svc_name_string spn) = None"
    if "live_port p2 spn info" for spn info
    using in_line_live [OF w(4) that] unfolding views_of_def frontend_of_view .
  then show ?thesis using w(1,2) in_line_frontend [OF w(3,4)] by blast
qed

theorem two_syncs_converge_witness:
  "\<exists>w1 w2. syncProxyRules simple_ext dp_env web_sync_orders web_proxier empty_dp = Inr (web_proxier, w1) \<and>
     syncProxyRules simple_ext dp_env web_sync_orders web_proxier w1 = Inr (web_proxier, w2) \<and>
     view_of ''shop.web.http'' (dp_store w2) =
       full_view (haproxy_objects simple_ext web_proxier web_name web_port_info)
         (port_wanted simple_ext web_proxier web_name)"
proof -
  obtain w1 w2 where w: "syncProxyRules simple_ext dp_env web_sync_orders web_proxier empty_dp = Inr (web_proxier, w1)"
      "syncProxyRules simple_ext dp_env web_sync_orders web_proxier w1 = Inr (web_proxier, w2)"
      "\<And>spn info. live_port web_proxier spn info \<Longrightarrow> accepted_port web_proxier info \<Longrightarrow>
        view_of (svc_name_string spn) (dp_store w2) =
          full_view (haproxy_objects simple_ext web_proxier spn info) (port_wanted simple_ext web_proxier spn)"
    using two_syncs_converge [OF dp.haproxy_store_axioms empty_dp_ok empty_dp_own web_ready web_ready refl refl
        web_no_orphans] by (auto split: if_splits)
  show ?thesis using w(1,2) w(3) [OF web_live web_accepted] by (auto simp: web_name_string)
qed

text \<open>
  C10. Invariant: when HAProxy is in line with the maps, a further sync leaves every service with
  a frontend exactly as it is, and HAProxy in line.
\<close>

theorem sync_keeps_in_line:
  assumes "haproxy_store env view ok" and "ok w" and "own_store (view w)" and "ready x so p p1"
    and "in_line x p1 (views_of (view w))"
  shows "\<exists>w'. syncProxyRules x env so p w = Inr (p1, w') \<and> in_line x p1 (views_of (view w')) \<and>
     (\<forall>nm. fmlookup (st_frontends (view w)) (FRONTEND_PREFIX @ nm) \<noteq> None \<longrightarrow>
        view_of nm (view w') = view_of nm (view w))"
proof -
  let ?ks = "so_services so (serviceMap p1)"
  obtain w' where w': "syncProxyRules x env so p w = Inr (p1, w')"
      "views_of (view w') = sync_spec x p1 ?ks (views_of (view w))"
    using haproxy_store.ready_sync [OF assms(1-4)] by blast
  have r: "visits ?ks (serviceMap p1)" "names_differ p1"
    using assms(4) by (simp_all add: ready_def legal_orders_def)
  note stable = in_line_stable [OF r own_views [OF assms(3)] assms(5)]
  have "view_of nm (view w') = view_of nm (view w)"
    if "fmlookup (st_frontends (view w)) (FRONTEND_PREFIX @ nm) \<noteq> None" for nm
  proof -
    have "sv_frontend (views_of (view w) nm) \<noteq> None" using that by (simp add: views_of_def view_of_def)
    from stable(2) [OF this] show ?thesis using w'(2) by (simp add: views_of_def fun_eq_iff)
  qed
  then show ?thesis using w' stable(1) by auto
qed

theorem sync_keeps_in_line_witness:
  "\<exists>w2 w3. in_line simple_ext web_proxier (views_of (dp_store w2)) \<and>
     syncProxyRules simple_ext dp_env web_sync_orders web_proxier w2 = Inr (web_proxier, w3) \<and>
     in_line simple_ext web_proxier (views_of (dp_store w3))"
proof -
  obtain w2 where w2: "dp_ok w2" "own_store (dp_store w2)" "in_line simple_ext web_proxier (views_of (dp_store w2))"
    using dp.two_syncs [OF empty_dp_ok empty_dp_own web_ready web_ready refl refl web_no_orphans] by blast
  then show ?thesis
    using sync_keeps_in_line [OF dp.haproxy_store_axioms w2(1,2) web_ready w2(3)] by blast
qed

text \<open>
  C11. The outcome does not depend on the order in which Go visits the maps and the sets: two
  syncs that differ only in these orders leave the same objects under every name.
\<close>

theorem sync_order_irrelevant:
  assumes "haproxy_store env view ok" and "ok w" and "own_store (view w)"
    and "ready x so p p1" and "ready x so' p p1"
    and "syncProxyRules x env so p w = Inr (p1, w1)" and "syncProxyRules x env so' p w = Inr (p1, w2)"
  shows "view_of nm (view w1) = view_of nm (view w2)"
proof -
  let ?V = "views_of (view w)"
  let ?s = "\<lambda>so. sync_spec x p1 (so_services so (serviceMap p1)) ?V nm"
  have "views_of (view w1) nm = ?s so" "views_of (view w2) nm = ?s so'"
    using haproxy_store.ready_sync [OF assms(1-4)] haproxy_store.ready_sync [OF assms(1-3) assms(5)] assms(6,7)
    by auto
  moreover have r: "visits (so_services so (serviceMap p1)) (serviceMap p1)"
      "visits (so_services so' (serviceMap p1)) (serviceMap p1)" "names_differ p1"
    using assms(4,5) by (simp_all add: ready_def legal_orders_def)
  have "?s so = ?s so'"
  proof (cases "\<exists>spn info. live_port p1 spn info \<and> svc_name_string spn = nm")
    case True
    then show ?thesis using sync_spec_live [OF r(1,3)] sync_spec_live [OF r(2,3)] by auto
  next
    case False
    then show ?thesis by (subst (1 2) sync_spec_dead) auto
  qed
  ultimately show ?thesis by (simp add: views_of_def)
qed

theorem sync_order_irrelevant_witness:
  "\<exists>w1 w2. syncProxyRules simple_ext dp_env web_sync_orders web_proxier empty_dp = Inr (web_proxier, w1) \<and>
     syncProxyRules simple_ext dp_env (web_sync_orders\<lparr>so_services := \<lambda>m. rev (sorted_list_of_fset (fmdom m))\<rparr>)
       web_proxier empty_dp = Inr (web_proxier, w2) \<and>
     view_of ''shop.web.http'' (dp_store w1) = view_of ''shop.web.http'' (dp_store w2)"
proof -
  let ?so = "web_sync_orders\<lparr>so_services := \<lambda>m. rev (sorted_list_of_fset (fmdom m))\<rparr>"
  have "update_maps simple_ext ?so web_proxier = update_maps simple_ext web_sync_orders web_proxier"
    by (simp add: update_maps_def)
  moreover have "legal_orders ?so"
    using web_sync_orders_legal by (simp add: legal_orders_def) (simp add: visits_def visits_sorted [unfolded visits_def])
  ultimately have ready: "ready simple_ext ?so web_proxier web_proxier"
    using web_ready by (simp add: ready_def)
  obtain w1 where w1: "syncProxyRules simple_ext dp_env web_sync_orders web_proxier empty_dp = Inr (web_proxier, w1)"
    using dp.ready_sync [OF empty_dp_ok empty_dp_own web_ready] by blast
  obtain w2 where w2: "syncProxyRules simple_ext dp_env ?so web_proxier empty_dp = Inr (web_proxier, w2)"
    using dp.ready_sync [OF empty_dp_ok empty_dp_own ready] by blast
  show ?thesis
    using w1 w2 sync_order_irrelevant [OF dp.haproxy_store_axioms empty_dp_ok empty_dp_own web_ready ready w1 w2]
    by blast
qed

text \<open>
  C19. \<open>syncService\<close> refines \<open>service_step\<close>: it fails exactly if a backend or a frontend of the
  name is there and differs from the wanted one, or the server refuses the frontend's mode; it
  creates what is missing, brings the bind to the wanted state, never replaces a backend or a
  frontend, and touches no other name.
\<close>

theorem syncService_exact:
  assumes "haproxy_store env view ok" and "ok w" and "named_for nm obj"
  shows "\<exists>err w'. syncService env obj w = (err, w') \<and> ok w' \<and>
     (err = None, view_of nm (view w')) = service_step obj (view_of nm (view w)) \<and>
     same_outside nm (view w) (view w')"
  by (rule haproxy_store.syncService_refines [OF assms])

theorem syncService_exact_witness:
  "\<exists>w'. syncService dp_env (haproxy_objects simple_ext web_proxier web_name web_port_info) empty_dp = (None, w') \<and>
     sv_bind (view_of ''shop.web.http'' (dp_store w')) =
       Some (hi_Bind (haproxy_objects simple_ext web_proxier web_name web_port_info))"
proof -
  let ?obj = "haproxy_objects simple_ext web_proxier web_name web_port_info"
  have "named_for ''shop.web.http'' ?obj" using haproxy_objects_named [of web_name] by (simp add: web_name_string)
  moreover have "view_of ''shop.web.http'' (dp_store empty_dp) = no_objects"
    using empty_dp_views by (simp add: views_of_def fun_eq_iff)
  ultimately obtain err w' where w': "syncService dp_env ?obj empty_dp = (err, w')"
      "(err = None, view_of ''shop.web.http'' (dp_store w')) = service_step ?obj no_objects"
    using syncService_exact [OF dp.haproxy_store_axioms empty_dp_ok] by metis
  have "service_step ?obj no_objects = (True, no_objects\<lparr>sv_backend := Some (hi_Backend ?obj),
      sv_frontend := Some (hi_Frontend ?obj), sv_bind := Some (hi_Bind ?obj)\<rparr>)"
    using web_accepted objects_accepted [of simple_ext web_proxier web_name web_port_info]
    by (simp add: service_step_def backend_step_def frontend_step_def accepted_objects_def)
  then show ?thesis using w' by (intro exI [of _ w']) auto
qed

text \<open>
  C20. \<open>syncEndpoint\<close> refines \<open>servers_step\<close>: if the backend is there, a server of it stays
  exactly if it is wanted as it is, a wanted server is added exactly if its name was free, and
  nothing else changes; without the backend nothing changes at all. No server is put on the list
  of graceful deletions. So a server whose fields differ from the wanted one of the same name is
  deleted and comes back only with the next sync.
\<close>

theorem syncEndpoint_exact:
  assumes "haproxy_store env view ok" and "ok w" and "lists_sets elems"
    and "\<forall>n. (BACKEND_PREFIX @ nm, n) |\<in>| fmdom (st_servers (view w)) \<longrightarrow> url_plain n"
    and "\<And>e. e \<in> set eps \<Longrightarrow> url_plain (SERVER_PREFIX @ endpoint_String e)"
    and "eps = (case fmlookup em spn of Some l \<Rightarrow> l | None \<Rightarrow> [])"
  shows "\<exists>w'. syncEndpoint x env elems hc em spn (BACKEND_PREFIX @ nm) ({||}, w) = ({||}, w') \<and> ok w' \<and>
     same_outside nm (view w) (view w') \<and>
     view_of nm (view w') = (if sv_backend (view_of nm (view w)) = None then view_of nm (view w)
       else (view_of nm (view w))\<lparr>sv_servers :=
         servers_step (wanted_servers x hc eps) (sv_servers (view_of nm (view w)))\<rparr>)"
  by (rule haproxy_store.syncEndpoint_refines [OF assms(1-3) _ assms(5,6)]) (use assms(4) in \<open>auto simp: view_of_def fmlookup_dom_iff\<close>)

theorem syncEndpoint_exact_witness:
  "\<exists>w'. syncEndpoint simple_ext dp_env sorted_servers True (endpointsMap web_proxier) web_name
       (BACKEND_PREFIX @ ''shop.web.http'') ({||}, backend_dp) = ({||}, w') \<and>
     sv_servers (view_of ''shop.web.http'' (dp_store w')) ''POD.10.1.0.5:8080'' =
       Some (endpoint_server simple_ext True (EndpointsInfo \<lparr>Endpoint = ''10.1.0.5:8080'', IsLocal = True, Topology = None\<rparr> ''''))"
proof -
  let ?e = "EndpointsInfo \<lparr>Endpoint = ''10.1.0.5:8080'', IsLocal = True, Topology = None\<rparr> ''''"
  have eps: "[?e] = (case fmlookup (endpointsMap web_proxier) web_name of Some l \<Rightarrow> l | None \<Rightarrow> [])"
    by (simp add: web_proxier_def)
  have plain: "url_plain (SERVER_PREFIX @ endpoint_String e)" if "e \<in> set [?e]" for e
    using that by (simp add: url_plain_def SERVER_PREFIX_def endpoint_String_def)
  have none: "\<forall>n. (BACKEND_PREFIX @ ''shop.web.http'', n) |\<in>| fmdom (st_servers (dp_store backend_dp)) \<longrightarrow> url_plain n"
    by (simp add: backend_dp_def empty_dp_def)
  have "sv_servers (view_of ''shop.web.http'' (dp_store backend_dp)) = (\<lambda>_. None)"
      "sv_backend (view_of ''shop.web.http'' (dp_store backend_dp)) \<noteq> None"
    by (simp_all add: view_of_def backend_dp_def empty_dp_def)
  with syncEndpoint_exact [where x = simple_ext and hc = True and nm = "''shop.web.http''",
      OF dp.haproxy_store_axioms backend_dp_ok sorted_servers_lists none plain eps]
  obtain w' where "syncEndpoint simple_ext dp_env sorted_servers True (endpointsMap web_proxier) web_name
       (BACKEND_PREFIX @ ''shop.web.http'') ({||}, backend_dp) = ({||}, w')"
      "sv_servers (view_of ''shop.web.http'' (dp_store w')) = wanted_servers simple_ext True [?e]"
    by auto
  then show ?thesis
    by (intro exI [of _ w']) (simp add: wanted_servers_iff endpoint_server_name SERVER_PREFIX_def endpoint_String_def)
qed

text \<open>
  C39. Replacing never works: for every name the URL that \<open>ReplaceBackend\<close> builds is read back as
  that of a server and names no parent, and the one of \<open>ReplaceFrontend\<close> as that of a single
  frontend, to which it posts. The API offers neither, so both end in an error and change
  nothing, whatever objects are there.
\<close>

theorem replace_never_works:
  assumes "haproxy_store env view ok" and "ok w"
  shows "(\<exists>r e w'. ReplaceBackend env n b w = ((r, Some e), w') \<and> view w' = view w) \<and>
     (\<exists>r e w'. ReplaceFrontend env old new w = ((r, Some e), w') \<and> view w' = view w)"
  using haproxy_store.replace_backend_fails [OF assms] haproxy_store.replace_frontend_fails [OF assms]
  by blast

theorem replace_never_works_witness:
  "(\<exists>r e w'. ReplaceBackend dp_env ''BACKEND.a'' zero_backend empty_dp = ((r, Some e), w') \<and> dp_store w' = dp_store empty_dp) \<and>
   (\<exists>r e w'. ReplaceFrontend dp_env zero_frontend zero_frontend empty_dp = ((r, Some e), w') \<and> dp_store w' = dp_store empty_dp)"
  using replace_never_works [OF dp.haproxy_store_axioms empty_dp_ok] by blast

end
