(* ===== verification/Client_Properties.thy ===== *)
theory Client_Properties
  imports Reference_Dataplane Proxier
begin

text \<open>
  The client of the Data Plane API and the list of graceful deletions: what an answer of the
  server becomes, which URLs the requests carry and what a server reads from them, and that the
  list of servers to be deleted never holds anything.
\<close>

section \<open>Answers\<close>

text \<open>
  C32. The result of \<open>handleError\<close>, for every status code and every kind of second argument: a
  transport error is passed on with \<open>false\<close>; 0, 200, 201 and 202 give \<open>true\<close> and no error; for
  the other codes the error holds the text below, by the kind of argument, as \<open>fmt.Errorf\<close> reads
  it (a text without a percent sign as it is: \<open>Errorf_plain\<close>). The flag is also set
  for 204 and 409. So a successful deletion (204) comes with an error, a refused creation (409)
  counts as done, and the calls that pass a pointer report these codes with an empty text.
\<close>

theorem handleError_exact:
  "(fst (handleError env resp res) \<longleftrightarrow> Err resp = None \<and> Code resp \<in> {0, 200, 201, 202, 204, 409}) \<and>
   (snd (handleError env resp res) = None \<longleftrightarrow> Err resp = None \<and> Code resp \<in> {0, 200, 201, 202}) \<and>
   (Err resp \<noteq> None \<longrightarrow> handleError env resp res = (False, Err resp)) \<and>
   (Err resp = None \<longrightarrow> Code resp = 204 \<longrightarrow> handleError env resp res = (True, Some (Errorf
      (case res of HString s \<Rightarrow> ''The resource '' @ s @ '' deleted.\<newline>'' | _ \<Rightarrow> '''')))) \<and>
   (Err resp = None \<longrightarrow> Code resp = 400 \<longrightarrow> handleError env resp res = (False, Some (Errorf
      (case res of
         HString _ \<Rightarrow> ''''
       | HBind d \<Rightarrow> ''Bad request bind: bind\<newline>%!(EXTRA string='' @ bd_Name d @ '')''
       | HFrontend f \<Rightarrow> ''Bad request frontend: '' @ fe_Name f @ ''\<newline>''
       | HBackend b \<Rightarrow> ''Bad request backend: '' @ bk_Name b @ ''\<newline>''
       | HServer s \<Rightarrow> ''Bad request server: '' @ srv_Name s @ ''\<newline>''
       | HPointer \<Rightarrow> '''')))) \<and>
   (Err resp = None \<longrightarrow> Code resp = 404 \<longrightarrow> handleError env resp res = (False, Some (Errorf
      (case res of
         HString s \<Rightarrow> ''The specified resource '' @ s @ '' was not found\<newline>''
       | HBind d \<Rightarrow> ''The specified resource '' @ bd_Name d @ '' was not found \<newline>''
       | HFrontend f \<Rightarrow> ''The specified resource was not found '' @ fe_Name f @ ''\<newline>''
       | HBackend b \<Rightarrow> ''The specified resource was not found '' @ bk_Name b @ ''\<newline>''
       | HServer s \<Rightarrow> ''The specified resource was not found '' @ srv_Name s @ ''\<newline>''
       | HPointer \<Rightarrow> '''')))) \<and>
   (Err resp = None \<longrightarrow> Code resp = 409 \<longrightarrow> handleError env resp res = (True, Some (Errorf
      (case res of
         HString _ \<Rightarrow> ''''
       | HBind d \<Rightarrow> ''The specified resource '' @ bd_Name d @ '' already exists.\<newline>''
       | HFrontend f \<Rightarrow> ''The specified resource '' @ fe_Name f @ '' already exists.\<newline>''
       | HBackend b \<Rightarrow> ''The specified resource '' @ bk_Name b @ '' already exists.\<newline>''
       | HServer s \<Rightarrow> ''The specified resource '' @ srv_Name s @ '' already exists.\<newline>''
       | HPointer \<Rightarrow> '''')))) \<and>
   (Err resp = None \<longrightarrow> Code resp \<notin> {0, 200, 201, 202, 204, 400, 404, 409} \<longrightarrow>
      handleError env resp res = (False, Some (''Unkown error, '' @ body_text env (Body resp))))"
proof (intro conjI impI)
  show "handleError env resp res = (False, Err resp)" if "Err resp \<noteq> None"
    using that handleError_code(1) by (cases "Err resp") auto
qed (simp_all add: handleError_fst handleError_snd handleError_code(2-6) del: insert_iff,
     (cases res; simp add: texts_of_def no_texts_def)+)

lemma percent_errors:
  "Errorf ''Bad request bind: bind\<newline>%!(EXTRA string=b)'' =
     ''Bad request bind: bind\<newline>%!!(MISSING)(EXTRA string=b)''"
  "Errorf ''The specified resource a%d was not found\<newline>'' =
     ''The specified resource a%!d(MISSING) was not found\<newline>''"
  by (simp_all add: Errorf.simps verb_defs)

theorem handleError_exact_witness:
  "handleError dp_env \<lparr>Err = None, Code = 204, Body = PNothing\<rparr> HPointer = (True, Some '''') \<and>
   handleError dp_env \<lparr>Err = None, Code = 404, Body = PNothing\<rparr> (HString ''a'') =
     (False, Some ''The specified resource a was not found\<newline>'') \<and>
   handleError dp_env \<lparr>Err = None, Code = 404, Body = PNothing\<rparr> (HString ''a%d'') =
     (False, Some ''The specified resource a%!d(MISSING) was not found\<newline>'') \<and>
   handleError dp_env \<lparr>Err = None, Code = 400, Body = PNothing\<rparr> (HBind (zero_bind\<lparr>bd_Name := ''b''\<rparr>)) =
     (False, Some ''Bad request bind: bind\<newline>%!!(MISSING)(EXTRA string=b)'') \<and>
   handleError dp_env \<lparr>Err = None, Code = 500, Body = PText ''x''\<rparr> HPointer = (False, Some ''Unkown error, x'') \<and>
   handleError dp_env \<lparr>Err = Some ''refused'', Code = 0, Body = PNothing\<rparr> HPointer = (False, Some ''refused'')"
  using handleError_exact [of dp_env "\<lparr>Err = None, Code = 204, Body = PNothing\<rparr>" HPointer]
    handleError_exact [of dp_env "\<lparr>Err = None, Code = 404, Body = PNothing\<rparr>" "HString ''a''"]
    handleError_exact [of dp_env "\<lparr>Err = None, Code = 404, Body = PNothing\<rparr>" "HString ''a%d''"]
    handleError_exact [of dp_env "\<lparr>Err = None, Code = 400, Body = PNothing\<rparr>" "HBind (zero_bind\<lparr>bd_Name := ''b''\<rparr>)"]
    handleError_exact [of dp_env "\<lparr>Err = None, Code = 500, Body = PText ''x''\<rparr>" HPointer]
    handleError_exact [of dp_env "\<lparr>Err = Some ''refused'', Code = 0, Body = PNothing\<rparr>" HPointer]
  by (simp add: dp_env_def Errorf_plain percent_errors)

text \<open>
  Round trip of the version: a server that answers with a decimal number of 64 bits,
  surrounded by white space, is read back as that number; a transport error gives -1.
\<close>

theorem getVersion_roundtrip:
  assumes "send env \<lparr>Method = GET, Path = VERSION, ReqBody = None\<rparr> w = (resp, w')"
    and "body_text env (Body resp) = pre @ Itoa v @ post" and "\<forall>c \<in> set (pre @ post). is_space c"
    and "min_int \<le> v" and "v \<le> max_int"
  shows "getVersion env w = (case Err resp of None \<Rightarrow> v | Some _ \<Rightarrow> -1, w')"
proof -
  have "TrimSpace (pre @ Itoa v @ post) = Itoa v" using assms(3) by (intro TrimSpace_Itoa) auto
  then show ?thesis using assms(1,2) Atoi_Itoa [OF assms(4,5)]
    by (simp add: getVersion_def call_def split: option.split)
qed

definition one_server :: dataplane where
  "one_server = \<lparr>dp_version = 7, dp_store = \<lparr>st_backends = fmempty, st_frontends = fmempty,
     st_binds = fmempty, st_servers = fmempty\<rparr>, dp_reload = False\<rparr>"

lemma one_server_ok: "dp_ok one_server"
  by (simp add: dp_ok_def one_server_def store_wf_def max_int_def)

lemma one_server_version:
  "dp_send \<lparr>Method = GET, Path = VERSION, ReqBody = None\<rparr> one_server =
     (\<lparr>Err = None, Code = 200, Body = PText (Itoa 7 @ ''\<newline>'')\<rparr>, one_server)"
  by (simp add: dp_send_def read_plain no_query route_version serve_def answer_def one_server_def)

theorem getVersion_roundtrip_witness: "getVersion dp_env one_server = (7, one_server)"
  using getVersion_roundtrip [of dp_env one_server _ _ "[]" 7 "''\<newline>''"] one_server_version
  by (simp add: dp_env_def is_space_def min_int_def max_int_def)

section \<open>Requests\<close>

text \<open>
  C31. Round trip of the URLs: whatever characters the name of the backend has, the request with
  which \<open>AddServerToBackend\<close> creates a server names the collection of servers as its path, and a
  server that splits the query and unescapes it finds that backend as the parent and the
  version that was read, and only these.
\<close>

theorem AddServer_url_roundtrip:
  assumes "getVersion env w = (v, w1)" and "encode_server env s = Inr body"
  shows "\<exists>url q. AddServerToBackend env s be w =
       (let (resp, w2) = send env \<lparr>Method = POST, Path = url, ReqBody = Some body\<rparr> w1
        in (handleError env resp HPointer, w2)) \<and>
     read_path url = (SERVER, q) \<and> query_param ''parent_type'' q = Some ''backend'' \<and>
     query_param ''parent_name'' q = Some be \<and> query_param ''version'' q = Some (Itoa v)"
proof (intro exI conjI)
  show "AddServerToBackend env s be w =
       (let (resp, w2) = send env \<lparr>Method = POST, Path = SERVER @ ''?'' @ server_query be v, ReqBody = Some body\<rparr> w1
        in (handleError env resp HPointer, w2))"
    using assms by (simp add: AddServerToBackend_def server_query_def call_def)
  show "read_path (SERVER @ ''?'' @ server_query be v) = (SERVER, server_query be v)"
    using read_query [OF no_query(1) [of CServers]] by (simp add: url_of_def)
  show "query_param ''parent_name'' (server_query be v) = Some be"
      "query_param ''version'' (server_query be v) = Some (Itoa v)"
    by (rule query_values)+
  show "query_param ''parent_type'' (server_query be v) = Some ''backend''"
    using query_params(2) [of "''parent_type''" "''backend''" "''parent_name''" be v]
    by (simp add: query_param_def server_query_def)
qed

theorem AddServer_url_roundtrip_witness:
  "\<exists>url q. AddServerToBackend dp_env zero_server ''a b&c=d?e'' one_server =
       (let (resp, w2) = dp_send \<lparr>Method = POST, Path = url, ReqBody = Some (PServer zero_server)\<rparr> one_server
        in (handleError dp_env resp HPointer, w2)) \<and>
     query_param ''parent_name'' q = Some ''a b&c=d?e'' \<and> read_path url = (SERVER, q)"
proof -
  have "getVersion dp_env one_server = (7, one_server)"
    using dp_getVersion [OF one_server_ok] by (simp add: one_server_def)
  moreover have "encode_server dp_env zero_server = Inr (PServer zero_server)" by (simp add: dp_env_def)
  ultimately show ?thesis
    using AddServer_url_roundtrip [of dp_env one_server 7 one_server zero_server "PServer zero_server" "''a b&c=d?e''"]
    by (auto simp: dp_env_def)
qed

section \<open>Names\<close>

text \<open>
  C30. Round trip of the names: two service ports with valid names get the same objects only if
  they are the same port of the same service, and what \<open>GetServices\<close> makes of the name of a
  frontend of ours is the name the frontend was built from.
\<close>

theorem service_name_roundtrip:
  assumes "dns_name_ok a" and "dns_name_ok b" and "fe_Name f = FRONTEND_PREFIX @ svc_name_string a"
  shows "s_Name (service_of bs f) = svc_name_string b \<longleftrightarrow>
     NamespacedName_of a = NamespacedName_of b \<and> Port a = Port b"
proof
  assume "s_Name (service_of bs f) = svc_name_string b"
  then have "svc_name_string a = svc_name_string b" using service_name_recovered [OF assms(1,3)] by simp
  then show "NamespacedName_of a = NamespacedName_of b \<and> Port a = Port b"
    using svc_name_inject dns_name_plain assms(1,2) by blast
next
  assume "NamespacedName_of a = NamespacedName_of b \<and> Port a = Port b"
  then have "svc_name_string a = svc_name_string b"
    by (simp add: svc_name_string_def ServicePortName_String_def)
  then show "s_Name (service_of bs f) = svc_name_string b"
    using service_name_recovered [OF assms(1,3)] by simp
qed

theorem service_name_roundtrip_witness:
  "s_Name (service_of fmempty (zero_frontend\<lparr>fe_Name := FRONTEND_PREFIX @ svc_name_string web_name\<rparr>)) \<noteq>
     svc_name_string dns_name"
proof -
  have "dns_name_ok web_name" "dns_name_ok dns_name"
    by (simp_all add: dns_name_ok_def web_name_def dns_name_def dns_label_def dns_char_def)
  from service_name_roundtrip [OF this, of "zero_frontend\<lparr>fe_Name := FRONTEND_PREFIX @ svc_name_string web_name\<rparr>" fmempty]
  show ?thesis by (simp add: web_name_def dns_name_def)
qed

section \<open>The list of graceful deletions\<close>

text \<open>
  C29. The list of servers that wait to be deleted is empty in every state the manager reaches,
  whatever HAProxy answers: \<open>add\<close> refuses exactly what is not yet there. So no deletion that
  failed is ever tried again by the timer, and no server is ever taken out of the list.
\<close>

theorem graceful_list_empty:
  assumes "graceful_run h q w"
  shows "q = NewGracefulTerminationManager \<and> \<not> InTerminationList srv be q \<and>
     tryDeleteSrv h [] q w = (q, w) \<and>
     MoveRSOutofGracefulDeleteList h srv be q w =
       (Some (''failed to find server '' @ Address srv @ '' in backend: '' @ be), q, w)"
  using graceful_run_empty [OF assms]
  by (simp add: NewGracefulTerminationManager_def InTerminationList_def srv_list_exist_def Move_empty
      tryDeleteSrv_def flushList_def)

theorem graceful_list_empty_witness:
  "\<exists>q' w'. GracefulDeleteSrv (handle_interface dp_env) zero_server ''BACKEND.a'' NewGracefulTerminationManager one_server =
       (None, q', w') \<and> \<not> InTerminationList zero_server ''BACKEND.a'' q'"
proof -
  obtain err q' w' where d: "GracefulDeleteSrv (handle_interface dp_env) zero_server ''BACKEND.a''
      NewGracefulTerminationManager one_server = (err, q', w')" by (metis prod_cases3)
  moreover have "err = None" using d by (auto simp: GracefulDeleteSrv_def Let_def split: prod.splits if_splits)
  moreover have "\<not> InTerminationList zero_server ''BACKEND.a'' q'"
    using graceful_list_empty [OF graceful_run.deletion [OF graceful_run.start d], of zero_server "''BACKEND.a''"]
    by (elim conjE)
  ultimately show ?thesis by simp
qed

end
