(* ===== verification/Proxier_Run.thy ===== *)
theory Proxier_Run
  imports Sync_Properties
begin

text \<open>
  The proxier under events: the handlers of \<open>haproxy/proxier.go\<close> in any order. First when it
  starts to program HAProxy, as a function of the notifications it has got; then what its
  two maps hold when a sync runs, as a function of the objects the informers have delivered.
\<close>

section \<open>Events\<close>

datatype px_event =
    ServiceAdd "v1_service option"
  | ServiceUpdate "v1_service option" "v1_service option"
  | ServiceDelete "v1_service option"
  | ServicesSynced
  | EndpointsAdd "v1_endpoints option"
  | EndpointsUpdate "v1_endpoints option" "v1_endpoints option"
  | EndpointsDelete "v1_endpoints option"
  | EndpointsSynced
  | SliceAdd "endpoint_slice option"
  | SliceUpdate "endpoint_slice option" "endpoint_slice option"
  | SliceDelete "endpoint_slice option"
  | SlicesSynced
  | RunSync

text \<open>One call; the handlers ask the runner for a sync, which is the event \<open>RunSync\<close> later.\<close>

definition px_step ::
    "k8s_ext \<Rightarrow> ('b, 'w) rest_env \<Rightarrow> sync_orders \<Rightarrow> px_event \<Rightarrow> proxier \<times> 'w \<Rightarrow> (proxier \<times> 'w) result" where
  "px_step x env so ev st =
     (case st of (p, w) \<Rightarrow>
        (case ev of
           ServiceAdd s \<Rightarrow> bindr (OnServiceAdd x s p) (\<lambda>(_, p'). Inr (p', w))
         | ServiceUpdate old s \<Rightarrow> bindr (OnServiceUpdate x old s p) (\<lambda>(_, p'). Inr (p', w))
         | ServiceDelete s \<Rightarrow> bindr (OnServiceDelete x s p) (\<lambda>(_, p'). Inr (p', w))
         | ServicesSynced \<Rightarrow> OnServiceSynced x env so p w
         | EndpointsAdd e \<Rightarrow> Inr (snd (OnEndpointsAdd x e p), w)
         | EndpointsUpdate old e \<Rightarrow> Inr (snd (OnEndpointsUpdate x old e p), w)
         | EndpointsDelete e \<Rightarrow> Inr (snd (OnEndpointsDelete x e p), w)
         | EndpointsSynced \<Rightarrow> OnEndpointsSynced x env so p w
         | SliceAdd s \<Rightarrow> bindr (OnEndpointSliceAdd x s p) (\<lambda>(_, p'). Inr (p', w))
         | SliceUpdate old s \<Rightarrow> bindr (OnEndpointSliceUpdate x old s p) (\<lambda>(_, p'). Inr (p', w))
         | SliceDelete s \<Rightarrow> bindr (OnEndpointSliceDelete x s p) (\<lambda>(_, p'). Inr (p', w))
         | SlicesSynced \<Rightarrow> OnEndpointSlicesSynced x env so p w
         | RunSync \<Rightarrow> syncProxyRules x env so p w))"

definition px_steps ::
    "k8s_ext \<Rightarrow> ('b, 'w) rest_env \<Rightarrow> (sync_orders \<times> px_event) list \<Rightarrow> proxier \<times> 'w \<Rightarrow> (proxier \<times> 'w) result" where
  "px_steps x env evs st = foldr_r (\<lambda>st (so, ev). px_step x env so ev st) st evs"

section \<open>The start of the proxier\<close>

definition flags :: "proxier \<Rightarrow> bool \<times> bool \<times> bool \<times> bool" where
  "flags p = (servicesSynced p, endpointsSynced p, endpointSlicesSynced p, isInitialized p)"

fun flags_after :: "px_event \<Rightarrow> bool \<times> bool \<times> bool \<times> bool \<Rightarrow> bool \<times> bool \<times> bool \<times> bool" where
  "flags_after ServicesSynced (s, e, l, i) = (True, e, l, e)"
| "flags_after EndpointsSynced (s, e, l, i) = (s, True, l, s)"
| "flags_after SlicesSynced (s, e, l, i) = (s, e, True, s)"
| "flags_after _ f = f"

lemma isInitialized_set [simp]: "isInitialized (setInitialized b p) = b"
  by (simp add: isInitialized_def setInitialized_def)

lemma setInitialized_synced [simp]:
  "servicesSynced (setInitialized b p) = servicesSynced p"
  "endpointsSynced (setInitialized b p) = endpointsSynced p"
  "endpointSlicesSynced (setInitialized b p) = endpointSlicesSynced p"
  by (simp_all add: setInitialized_def)

lemma sync_uninitialized: "\<not> isInitialized p \<Longrightarrow> syncProxyRules x env so p w = Inr (p, w)"
  by (simp add: syncProxyRules_def)

lemma sync_frame:
  assumes "syncProxyRules x env so p w = Inr (p', w')"
  shows "p' = p \<or> (\<exists>p1 sres eres. isInitialized p \<and> update_maps x so p = Inr (p1, sres, eres) \<and>
     p' = p1\<lparr>gracefuldeleteManager := gracefuldeleteManager p'\<rparr>)"
proof (cases "isInitialized p")
  case False
  then show ?thesis using assms by (simp add: sync_uninitialized)
next
  case True
  then obtain p1 sres eres where up: "update_maps x so p = Inr (p1, sres, eres)"
    using assms by (auto simp: syncProxyRules_def bindr_Inr_iff)
  then show ?thesis using assms True
    by (auto simp: syncProxyRules_def EnsureHaproxy_def bindr_Inr_iff Let_def split: prod.splits)
qed

lemma sync_flags:
  assumes "syncProxyRules x env so p w = Inr (p', w')"
  shows "flags p' = flags p"
proof -
  have up: "flags p1 = flags p" if "update_maps x so p = Inr (p1, sres, eres)" for p1 sres eres
    by (subst update_maps_frame [OF that]) (simp add: flags_def isInitialized_def)
  have gr: "flags (p1\<lparr>gracefuldeleteManager := q\<rparr>) = flags p1" for p1 q
    by (simp add: flags_def isInitialized_def)
  show ?thesis using sync_frame [OF assms] up gr by metis
qed

lemma set_flags:
  "flags (setInitialized b (p\<lparr>servicesSynced := s\<rparr>)) = (s, endpointsSynced p, endpointSlicesSynced p, b)"
  "flags (setInitialized b (p\<lparr>endpointsSynced := s\<rparr>)) = (servicesSynced p, s, endpointSlicesSynced p, b)"
  "flags (setInitialized b (p\<lparr>endpointSlicesSynced := s\<rparr>)) = (servicesSynced p, endpointsSynced p, s, b)"
  by (simp_all add: flags_def)

lemma tracker_flags:
  "flags (p\<lparr>serviceChanges := sc\<rparr>) = flags p" "flags (p\<lparr>endpointsChanges := ec\<rparr>) = flags p"
  by (simp_all add: flags_def isInitialized_def)

lemma px_step_flags:
  assumes "px_step x env so ev (p, w) = Inr (p', w')"
  shows "flags p' = flags_after ev (flags p)"
    and "\<not> snd (snd (snd (flags_after ev (flags p)))) \<Longrightarrow> w' = w"
proof -
  have f: "flags p = (servicesSynced p, endpointsSynced p, endpointSlicesSynced p, isInitialized p)"
    by (simp add: flags_def)
  show "flags p' = flags_after ev (flags p)"
    using assms
    by (cases ev)
      (auto simp: px_step_def OnServiceAdd_def OnServiceUpdate_def OnServiceDelete_def OnEndpointsAdd_def
        OnEndpointsUpdate_def OnEndpointsDelete_def OnEndpointSliceAdd_def OnEndpointSliceUpdate_def
        OnEndpointSliceDelete_def slice_event_def OnServiceSynced_def OnEndpointsSynced_def
        OnEndpointSlicesSynced_def bindr_Inr_iff tracker_flags set_flags Let_def f
        dest!: sync_flags split: prod.splits)
  show "w' = w" if "\<not> snd (snd (snd (flags_after ev (flags p))))"
    using assms that
    by (cases ev)
      (auto simp: px_step_def bindr_Inr_iff OnServiceSynced_def OnEndpointsSynced_def
        OnEndpointSlicesSynced_def sync_uninitialized f Let_def)
qed

text \<open>The notifications that may start the proxier.\<close>

definition is_synced :: "px_event \<Rightarrow> bool" where
  "is_synced ev \<longleftrightarrow> ev = ServicesSynced \<or> ev = EndpointsSynced \<or> ev = SlicesSynced"

text \<open>The history contains the event.\<close>

definition happened :: "px_event \<Rightarrow> (sync_orders \<times> px_event) list \<Rightarrow> bool" where
  "happened ev evs \<longleftrightarrow> ev \<in> snd ` set evs"

text \<open>
  The last notification decides: a notification of the services starts the proxier if the
  endpoints had been notified, one of endpoints or slices if the services had been.
\<close>

definition started_by :: "(sync_orders \<times> px_event) list \<Rightarrow> bool" where
  "started_by evs \<longleftrightarrow> (\<exists>pre so ev post. evs = pre @ (so, ev) # post \<and> is_synced ev \<and>
     (\<forall>e \<in> snd ` set post. \<not> is_synced e) \<and>
     (if ev = ServicesSynced then happened EndpointsSynced pre else happened ServicesSynced pre))"

lemma happened_simps [simp]:
  "\<not> happened ev []" "happened ev (evs @ [(so, e)]) \<longleftrightarrow> happened ev evs \<or> e = ev"
  by (auto simp: happened_def)

lemma started_by_Nil [simp]: "\<not> started_by []"
  by (simp add: started_by_def)

lemma started_by_snoc:
  "started_by (evs @ [(so, e)]) \<longleftrightarrow>
     (if e = ServicesSynced then happened EndpointsSynced evs
      else if is_synced e then happened ServicesSynced evs else started_by evs)"
proof (cases "is_synced e")
  case True
  have "started_by (evs @ [(so, e)]) \<longleftrightarrow>
      (if e = ServicesSynced then happened EndpointsSynced evs else happened ServicesSynced evs)"
  proof
    assume "started_by (evs @ [(so, e)])"
    then obtain pre so' ev post where d: "evs @ [(so, e)] = pre @ (so', ev) # post" "is_synced ev"
        "\<forall>e \<in> snd ` set post. \<not> is_synced e"
        "if ev = ServicesSynced then happened EndpointsSynced pre else happened ServicesSynced pre"
      unfolding started_by_def by blast
    have "post = []" using d(1,3) True by (cases post rule: rev_cases) auto
    then show "if e = ServicesSynced then happened EndpointsSynced evs else happened ServicesSynced evs"
      using d(1,4) by simp
  next
    assume "if e = ServicesSynced then happened EndpointsSynced evs else happened ServicesSynced evs"
    then show "started_by (evs @ [(so, e)])" unfolding started_by_def
      using True by (intro exI [of _ evs] exI [of _ so] exI [of _ e] exI [of _ "[]"]) simp
  qed
  then show ?thesis using True by simp
next
  case False
  have "started_by (evs @ [(so, e)]) \<longleftrightarrow> started_by evs"
  proof
    assume "started_by (evs @ [(so, e)])"
    then obtain pre so' ev post where d: "evs @ [(so, e)] = pre @ (so', ev) # post" "is_synced ev"
        "\<forall>e \<in> snd ` set post. \<not> is_synced e"
        "if ev = ServicesSynced then happened EndpointsSynced pre else happened ServicesSynced pre"
      unfolding started_by_def by blast
    obtain post' where "post = post' @ [(so, e)]" using d(1,2) False by (cases post rule: rev_cases) auto
    then show "started_by evs" unfolding started_by_def
      using d by (intro exI [of _ pre] exI [of _ so'] exI [of _ ev] exI [of _ post']) auto
  next
    assume "started_by evs"
    then obtain pre so' ev post where d: "evs = pre @ (so', ev) # post" "is_synced ev"
        "\<forall>e \<in> snd ` set post. \<not> is_synced e"
        "if ev = ServicesSynced then happened EndpointsSynced pre else happened ServicesSynced pre"
      unfolding started_by_def by blast
    then show "started_by (evs @ [(so, e)])" unfolding started_by_def
      using False by (intro exI [of _ pre] exI [of _ so'] exI [of _ ev] exI [of _ "post @ [(so, e)]"]) auto
  qed
  then show ?thesis using False by (auto simp: is_synced_def)
qed

definition fresh :: "proxier \<Rightarrow> bool" where
  "fresh p \<longleftrightarrow> flags p = (False, False, False, False)"

lemma px_steps_snoc:
  "px_steps x env (evs @ [(so, ev)]) st = bindr (px_steps x env evs st) (px_step x env so ev)"
  by (simp add: px_steps_def foldr_r_append)

lemma px_steps_flags:
  assumes "px_steps x env evs (p0, w0) = Inr (p, w)" and "fresh p0"
  shows "flags p = (happened ServicesSynced evs, happened EndpointsSynced evs, happened SlicesSynced evs, started_by evs)"
  using assms(1)
proof (induction evs arbitrary: p w rule: rev_induct)
  case Nil
  then show ?case using assms(2) by (simp add: px_steps_def fresh_def)
next
  case (snoc e evs)
  obtain so ev where e: "e = (so, ev)" by (cases e)
  then obtain p1 w1 where 1: "px_steps x env evs (p0, w0) = Inr (p1, w1)" "px_step x env so ev (p1, w1) = Inr (p, w)"
    using snoc.prems by (auto simp: px_steps_snoc bindr_Inr_iff)
  show ?case using px_step_flags(1) [OF 1(2)] snoc.IH [OF 1(1)] unfolding e
    by (cases ev) (simp_all add: started_by_snoc is_synced_def)
qed

text \<open>Until the proxier has started, HAProxy is not spoken to.\<close>

lemma px_steps_silent:
  assumes "px_steps x env evs (p0, w0) = Inr (p, w)" and "fresh p0"
    and "\<And>pre post. evs = pre @ post \<Longrightarrow> \<not> started_by pre"
  shows "w = w0"
  using assms(1,3)
proof (induction evs arbitrary: p w rule: rev_induct)
  case Nil
  then show ?case by (simp add: px_steps_def)
next
  case (snoc e evs)
  obtain so ev where e: "e = (so, ev)" by (cases e)
  then obtain p1 w1 where 1: "px_steps x env evs (p0, w0) = Inr (p1, w1)" "px_step x env so ev (p1, w1) = Inr (p, w)"
    using snoc.prems(1) by (auto simp: px_steps_snoc bindr_Inr_iff)
  have "w1 = w0" by (rule snoc.IH [OF 1(1)]) (metis snoc.prems(2) append_assoc)
  moreover have "\<not> started_by (evs @ [e])" using snoc.prems(2) [of "evs @ [e]" "[]"] by simp
  then have "\<not> snd (snd (snd (flags p)))" using px_steps_flags [OF snoc.prems(1) assms(2)] by simp
  then have "w = w1" using px_step_flags [OF 1(2)] by simp
  ultimately show ?case by simp
qed

lemma happened_append [simp]: "happened ev (xs @ ys) \<longleftrightarrow> happened ev xs \<or> happened ev ys"
  by (auto simp: happened_def)

lemma not_started_first:
  "\<not> happened ServicesSynced evs \<Longrightarrow> \<not> happened EndpointsSynced evs \<Longrightarrow> \<not> started_by evs"
proof (induction evs rule: rev_induct)
  case (snoc e evs)
  then show ?case by (cases e) (simp add: started_by_snoc del: happened_append)
qed simp

lemma not_started_then:
  "\<not> started_by pre \<Longrightarrow> \<not> happened EndpointsSynced (pre @ post) \<Longrightarrow> \<not> happened SlicesSynced post \<Longrightarrow>
     \<not> started_by (pre @ post)"
proof (induction post rule: rev_induct)
  case (snoc e post)
  obtain so ev where e: "e = (so, ev)" by (cases e)
  have "\<not> started_by (pre @ post)" using snoc by (simp add: happened_def)
  moreover have "ev \<noteq> EndpointsSynced" "ev \<noteq> SlicesSynced" "\<not> happened EndpointsSynced (pre @ post)"
    using snoc.prems(2,3) by (auto simp: happened_def e)
  moreover have "started_by (pre @ post @ [e]) \<longleftrightarrow> started_by ((pre @ post) @ [(so, ev)])" by (simp add: e)
  ultimately show ?case unfolding started_by_snoc by (auto simp: is_synced_def)
qed simp

text \<open>A proxier before its first notification.\<close>

definition web_new :: proxier where
  "web_new = web_proxier\<lparr>servicesSynced := False, endpointsSynced := False, initialized := 0\<rparr>"

lemma web_new_flags [simp]:
  "\<not> servicesSynced web_new" "\<not> endpointsSynced web_new" "\<not> endpointSlicesSynced web_new"
  "\<not> isInitialized web_new"
  by (simp_all add: web_new_def web_proxier_def isInitialized_def)

lemma web_new_fresh: "fresh web_new"
  by (simp add: fresh_def flags_def)

section \<open>Properties of the start\<close>

text \<open>
  C22. When the proxier is initialised, exactly: after any history of calls that does not panic
  it is so if and only if the last notification was one of the services with the endpoints
  notified before, or one of endpoints or slices with the services notified before. The
  notification of the slices alone never counts for the services.
\<close>

theorem initialized_exact:
  assumes "px_steps x env evs (p0, w0) = Inr (p, w)" and "fresh p0"
  shows "isInitialized p \<longleftrightarrow> started_by evs"
  using px_steps_flags [OF assms] by (simp add: flags_def)

theorem initialized_exact_witness:
  "\<exists>p w. px_steps simple_ext dp_env [(web_sync_orders, ServicesSynced)]
       (web_new, empty_dp) = Inr (p, w) \<and>
     \<not> isInitialized p"
proof -
  note fresh = web_new_fresh
  have run: "px_steps simple_ext dp_env [(web_sync_orders, ServicesSynced)] (web_new, empty_dp) =
      Inr (setInitialized False (web_new\<lparr>servicesSynced := True\<rparr>), empty_dp)"
    by (simp add: px_steps_def px_step_def OnServiceSynced_def sync_uninitialized Let_def)
  have "\<not> started_by ([] @ [(web_sync_orders, ServicesSynced)])" by (simp only: started_by_snoc) simp
  then show ?thesis using run initialized_exact [OF run fresh] by simp
qed

text \<open>
  C23. If the endpoint slices are notified before the services, and the endpoints never are, the
  proxier never starts: whatever else is called, in whatever order, it stays uninitialised and
  sends nothing to HAProxy.
\<close>

theorem slices_first_never_starts:
  assumes "px_steps x env (pre @ post) (p0, w0) = Inr (p, w)" and "fresh p0"
    and "\<not> happened ServicesSynced pre" and "\<not> happened SlicesSynced post"
    and "\<not> happened EndpointsSynced (pre @ post)"
  shows "\<not> isInitialized p \<and> w = w0"
proof -
  have no: "\<not> started_by evs" if evs: "pre @ post = evs @ rest" for evs rest
  proof -
    consider us where "pre = evs @ us" | us where "evs = pre @ us" "post = us @ rest"
      using evs by (auto simp: append_eq_append_conv2)
    then show ?thesis
    proof cases
      case 1
      then show ?thesis using assms(3,5) by (intro not_started_first) auto
    next
      case 2
      then have "\<not> started_by pre" using assms(3,5) by (intro not_started_first) auto
      then show ?thesis using 2 assms(4,5) not_started_then [of pre us] by auto
    qed
  qed
  have "\<not> started_by (pre @ post)" using no [of "pre @ post" "[]"] by simp
  moreover have "w = w0" by (rule px_steps_silent [OF assms(1,2)]) (rule no)
  ultimately show ?thesis using px_steps_flags [OF assms(1,2)] by (simp add: flags_def)
qed

theorem slices_first_never_starts_witness:
  "\<exists>p. px_steps simple_ext dp_env ([(web_sync_orders, SlicesSynced)] @ [(web_sync_orders, ServicesSynced)])
       (web_new, empty_dp) = Inr (p, empty_dp) \<and>
     \<not> isInitialized p \<and> servicesSynced p \<and> endpointSlicesSynced p"
proof -
  let ?p = "setInitialized False ((setInitialized False (web_new\<lparr>endpointSlicesSynced := True\<rparr>))\<lparr>servicesSynced := True\<rparr>)"
  note fresh = web_new_fresh
  have run: "px_steps simple_ext dp_env ([(web_sync_orders, SlicesSynced)] @ [(web_sync_orders, ServicesSynced)])
      (web_new, empty_dp) = Inr (?p, empty_dp)"
    by (simp add: px_steps_def px_step_def OnServiceSynced_def OnEndpointSlicesSynced_def sync_uninitialized Let_def)
  have "\<not> happened ServicesSynced [(web_sync_orders, SlicesSynced)]"
      "\<not> happened SlicesSynced [(web_sync_orders, ServicesSynced)]"
      "\<not> happened EndpointsSynced ([(web_sync_orders, SlicesSynced)] @ [(web_sync_orders, ServicesSynced)])"
    by (simp_all add: happened_def)
  from slices_first_never_starts [OF run fresh this] show ?thesis
    using run by (intro exI [of _ ?p]) (simp only: simp_thms, simp add: setInitialized_def)
qed

end
