(* ===== verification/Conntrack.thy ===== *)
theory Conntrack
  imports Go_Strings "HOL-Library.Signed_Division"
begin

text \<open>
  \<open>server/app/conntrack.go\<close>: setting the limit of the connection tracking table and the size of
  its hash table. The sysctl interface and the list of mounts come from Kubernetes, the files
  from the operating system; the world they change is the type \<open>'w\<close>. Logging is left out.
\<close>

section \<open>The host\<close>

record mount_point =
  mp_Type :: string
  mp_Opts :: "string list"

text \<open>
  \<open>GetSysctl\<close> returns a value with an error, \<open>SetSysctl\<close> and \<open>WriteFile\<close> an error. An error is
  its text.
\<close>

record 'w sys_env =
  GetSysctl :: "string \<Rightarrow> 'w \<Rightarrow> int \<times> string option"
  SetSysctl :: "string \<Rightarrow> int \<Rightarrow> 'w \<Rightarrow> string option \<times> 'w"
  ListMounts :: "'w \<Rightarrow> string + mount_point list"
  ReadFile :: "string \<Rightarrow> 'w \<Rightarrow> string + string"
  WriteFile :: "string \<Rightarrow> string \<Rightarrow> 'w \<Rightarrow> string option \<times> 'w"

datatype conntrack_error =
    SystemError string
  | NumError num_error
  | errReadOnlySysFS
  | NoSysfsMounted

definition lift_error :: "string option \<Rightarrow> conntrack_error option" where
  "lift_error e = map_option SystemError e"

definition hashsize_file :: string where
  "hashsize_file = ''/sys/module/nf_conntrack/parameters/hashsize''"

section \<open>Reading and writing\<close>

definition readIntStringFile :: "'w sys_env \<Rightarrow> string \<Rightarrow> 'w \<Rightarrow> int \<times> conntrack_error option" where
  "readIntStringFile env filename w =
     (case ReadFile env filename w of
        Inl e \<Rightarrow> (-1, Some (SystemError e))
      | Inr b \<Rightarrow> (case Atoi (TrimSpace b) of (v, e) \<Rightarrow> (v, map_option NumError e)))"

definition writeIntStringFile :: "'w sys_env \<Rightarrow> string \<Rightarrow> int \<Rightarrow> 'w \<Rightarrow> conntrack_error option \<times> 'w" where
  "writeIntStringFile env filename v w =
     (case WriteFile env filename (Itoa v) w of (e, w') \<Rightarrow> (lift_error e, w'))"

text \<open>The first mount of \<open>sysfs\<close> decides.\<close>

fun first_sysfs :: "mount_point list \<Rightarrow> bool \<times> conntrack_error option" where
  "first_sysfs [] = (False, Some NoSysfsMounted)"
| "first_sysfs (m # ms) =
     (if mp_Type m \<noteq> ''sysfs'' then first_sysfs ms
      else if mp_Opts m \<noteq> [] \<and> mp_Opts m ! 0 = ''rw'' then (True, None)
      else (False, Some errReadOnlySysFS))"

definition isSysFSWritable :: "'w sys_env \<Rightarrow> 'w \<Rightarrow> bool \<times> conntrack_error option" where
  "isSysFSWritable env w =
     (case ListMounts env w of Inl e \<Rightarrow> (False, Some (SystemError e)) | Inr ms \<Rightarrow> first_sysfs ms)"

text \<open>An error of the read is ignored; the value that comes with it is compared.\<close>

definition setIntSysCtl :: "'w sys_env \<Rightarrow> string \<Rightarrow> int \<Rightarrow> 'w \<Rightarrow> conntrack_error option \<times> 'w" where
  "setIntSysCtl env name v w =
     (let entry = ''net/netfilter/'' @ name
      in if fst (GetSysctl env entry w) \<noteq> v
         then (case SetSysctl env entry v w of (e, w') \<Rightarrow> (lift_error e, w'))
         else (None, w))"

section \<open>The tracker\<close>

text \<open>The quotient is Go's, which rounds towards zero.\<close>

definition SetMax :: "'w sys_env \<Rightarrow> int \<Rightarrow> 'w \<Rightarrow> conntrack_error option \<times> 'w" where
  "SetMax env m w =
     (let (err, w1) = setIntSysCtl env ''nf_conntrack_max'' m w
      in if err \<noteq> None then (err, w1)
         else
           let (hashsize, err) = readIntStringFile env hashsize_file w1
           in if err \<noteq> None then (err, w1)
              else if hashsize \<ge> m sdiv 4 then (None, w1)
              else
                let (writable, err) = isSysFSWritable env w1
                in if err \<noteq> None then (err, w1)
                   else if \<not> writable then (Some errReadOnlySysFS, w1)
                   else writeIntStringFile env hashsize_file (m sdiv 4) w1)"

definition SetTCPEstablishedTimeout :: "'w sys_env \<Rightarrow> int \<Rightarrow> 'w \<Rightarrow> conntrack_error option \<times> 'w" where
  "SetTCPEstablishedTimeout env seconds w = setIntSysCtl env ''nf_conntrack_tcp_timeout_established'' seconds w"

definition SetTCPCloseWaitTimeout :: "'w sys_env \<Rightarrow> int \<Rightarrow> 'w \<Rightarrow> conntrack_error option \<times> 'w" where
  "SetTCPCloseWaitTimeout env seconds w = setIntSysCtl env ''nf_conntrack_tcp_timeout_close_wait'' seconds w"

section \<open>A host that does what it is told\<close>

text \<open>
  What the kernel does with these two settings: the sysctl reads as what was written, the hash
  size as what was written rounded up to whole pages of buckets (\<open>nf_ct_alloc_hashtable\<close>), a
  write that fails changes nothing, and neither write changes the other setting. \<open>limit\<close> and
  \<open>hsize\<close> are the two numbers in the kernel, \<open>rnd\<close> is the rounding; the file of the second shows
  it in decimal with a line end.
\<close>

definition obedient :: "'w sys_env \<Rightarrow> (int \<Rightarrow> int) \<Rightarrow> ('w \<Rightarrow> int) \<Rightarrow> ('w \<Rightarrow> int) \<Rightarrow> bool" where
  "obedient env rnd limit hsize \<longleftrightarrow>
     (\<forall>v. v \<le> rnd v) \<and>
     (\<forall>w. GetSysctl env ''net/netfilter/nf_conntrack_max'' w = (limit w, None)) \<and>
     (\<forall>v w e w'. SetSysctl env ''net/netfilter/nf_conntrack_max'' v w = (e, w') \<longrightarrow>
        hsize w' = hsize w \<and> limit w' = (if e = None then v else limit w)) \<and>
     (\<forall>w. min_int \<le> hsize w \<and> hsize w \<le> max_int \<and>
        ReadFile env hashsize_file w = Inr (Itoa (hsize w) @ ''\<newline>'')) \<and>
     (\<forall>v w e w'. min_int \<le> v \<longrightarrow> v \<le> max_int \<longrightarrow> WriteFile env hashsize_file (Itoa v) w = (e, w') \<longrightarrow>
        limit w' = limit w \<and> hsize w' = (if e = None then rnd v else hsize w))"

lemma obedient_read: "obedient env rnd limit hsize \<Longrightarrow> readIntStringFile env hashsize_file w = (hsize w, None)"
  using TrimSpace_Itoa [of "[]" "''\<newline>''" "hsize w"]
  by (simp add: obedient_def readIntStringFile_def Atoi_Itoa is_space_def)

lemma obedient_max:
  assumes "obedient env rnd limit hsize" and "setIntSysCtl env ''nf_conntrack_max'' v w = (e, w1)"
  shows "hsize w1 = hsize w \<and> limit w1 = (if e = None then v else limit w)"
proof (cases "limit w = v")
  case True
  then show ?thesis using assms by (simp add: obedient_def setIntSysCtl_def)
next
  case False
  obtain e' where s: "SetSysctl env ''net/netfilter/nf_conntrack_max'' v w = (e', w1)" "e = lift_error e'"
    using assms False by (auto simp: obedient_def setIntSysCtl_def split: prod.splits)
  then show ?thesis using assms(1) by (simp add: obedient_def lift_error_def)
qed

lemma setIntSysCtl_error: "setIntSysCtl env n v w = (e, w') \<Longrightarrow> e \<noteq> Some errReadOnlySysFS"
  by (auto simp: setIntSysCtl_def Let_def lift_error_def split: prod.splits if_splits)

lemma first_sysfs_writable: "first_sysfs ms = (b, None) \<Longrightarrow> b"
  by (induction ms) (auto split: if_splits)

lemma quarter_bounds:
  assumes "min_int \<le> m" and "m \<le> max_int"
  shows "min_int \<le> m sdiv 4" and "m sdiv 4 \<le> max_int"
  using assms by (auto simp: signed_divide_int_def sgn_if min_int_def max_int_def)

section \<open>Property\<close>

text \<open>
  C40. On a host that does what it is told: if \<open>SetMax\<close> returns no error, the limit is the one
  asked for and the hash table has at least a quarter of it: it is as it was if it was that
  large, and otherwise the quarter as the kernel rounds it up, so it never shrinks; with
  \<open>errReadOnlySysFS\<close> the limit is set and the hash table, too small, is as it was; an error
  never leaves the limit changed to anything but the one asked for.
\<close>

theorem SetMax_effect:
  assumes "obedient env rnd limit hsize" and "SetMax env m w = (err, w')" and "min_int \<le> m" and "m \<le> max_int"
  shows "(err = None \<longrightarrow> limit w' = m \<and> m sdiv 4 \<le> hsize w' \<and> hsize w \<le> hsize w' \<and>
        hsize w' = (if hsize w < m sdiv 4 then rnd (m sdiv 4) else hsize w)) \<and>
     (err = Some errReadOnlySysFS \<longrightarrow> limit w' = m \<and> hsize w' = hsize w \<and> hsize w < m sdiv 4) \<and>
     (limit w' = m \<or> limit w' = limit w) \<and> (hsize w' = hsize w \<or> err = None)"
proof -
  obtain e1 w1 where 1: "setIntSysCtl env ''nf_conntrack_max'' m w = (e1, w1)" by (metis prod.exhaust)
  note m1 = obedient_max [OF assms(1) 1]
  show ?thesis
  proof (cases "e1 = None \<and> hsize w1 < m sdiv 4")
    case False
    have sys: "e1 \<noteq> Some errReadOnlySysFS" using 1 by (rule setIntSysCtl_error)
    have "err = e1 \<and> w' = w1" using assms(2) 1 False obedient_read [OF assms(1), of w1]
      by (cases "e1 = None") (simp_all add: SetMax_def)
    then show ?thesis using m1 sys False by auto
  next
    case True
    obtain b e2 where 2: "isSysFSWritable env w1 = (b, e2)" by (metis prod.exhaust)
    show ?thesis
    proof (cases "e2 = None")
      case False
      then show ?thesis using assms(2) m1 1 2 True obedient_read [OF assms(1), of w1]
        by (auto simp: SetMax_def Let_def split: if_splits)
    next
      case True
      obtain e3 w3 where 3: "WriteFile env hashsize_file (Itoa (m sdiv 4)) w1 = (e3, w3)" by (metis prod.exhaust)
      have b using 2 True first_sysfs_writable by (auto simp: isSysFSWritable_def split: sum.splits)
      then have r: "err = lift_error e3" "w' = w3"
        using assms(2) m1 1 2 3 \<open>e1 = None \<and> _\<close> True obedient_read [OF assms(1), of w1]
        by (auto simp: SetMax_def writeIntStringFile_def Let_def)
      have "min_int \<le> m sdiv 4" "m sdiv 4 \<le> max_int"
        using assms(3,4) by (simp_all add: quarter_bounds)
      then have "limit w3 = limit w1" "hsize w3 = (if e3 = None then rnd (m sdiv 4) else hsize w1)"
        using assms(1) 3 by (auto simp: obedient_def)
      moreover have "m sdiv 4 \<le> rnd (m sdiv 4)" using assms(1) by (simp add: obedient_def)
      ultimately show ?thesis using m1 \<open>e1 = None \<and> _\<close> r by (auto simp: lift_error_def)
    qed
  qed
qed

text \<open>
  A host with the two numbers as its state; a number that does not fit is refused, and the hash
  size is rounded up to a multiple of 512, the buckets of a page.
\<close>

definition round_up :: "int \<Rightarrow> int" where
  "round_up v = (if v + 511 \<le> max_int then (v + 511) div 512 * 512 else v)"

definition int_range :: "int \<Rightarrow> int" where
  "int_range v = max min_int (min max_int v)"

definition small_host :: "mount_point list \<Rightarrow> (int \<times> int) sys_env" where
  "small_host mounts =
     \<lparr>GetSysctl = \<lambda>_ w. (fst w, None), SetSysctl = \<lambda>_ v w. (None, (v, snd w)), ListMounts = \<lambda>_. Inr mounts,
      ReadFile = \<lambda>_ w. Inr (Itoa (int_range (snd w)) @ ''\<newline>''),
      WriteFile = \<lambda>_ s w. (case Atoi s of (v, None) \<Rightarrow> (None, (fst w, round_up v))
                           | (_, Some _) \<Rightarrow> (Some ''invalid argument'', w))\<rparr>"

lemma round_up_bounds: "v \<le> round_up v" "v \<le> max_int \<Longrightarrow> round_up v \<le> max_int"
  by (auto simp: round_up_def)

lemma small_host_obedient: "obedient (small_host mounts) round_up fst (\<lambda>w. int_range (snd w))"
proof -
  have range: "min_int \<le> int_range v" "int_range v \<le> max_int" for v
    by (auto simp: int_range_def min_int_def max_int_def)
  have id: "min_int \<le> v \<Longrightarrow> v \<le> max_int \<Longrightarrow> int_range (round_up v) = round_up v" for v
    using round_up_bounds [of v] by (simp add: int_range_def)
  show ?thesis by (auto simp: obedient_def small_host_def range id Atoi_Itoa round_up_bounds)
qed

lemma small_host_fields:
  "GetSysctl (small_host ms) = (\<lambda>_ w. (fst w, None))" "SetSysctl (small_host ms) = (\<lambda>_ v w. (None, (v, snd w)))"
  "ListMounts (small_host ms) = (\<lambda>_. Inr ms)"
  "WriteFile (small_host ms) = (\<lambda>_ s w. (case Atoi s of (v, None) \<Rightarrow> (None, (fst w, round_up v))
                           | (_, Some _) \<Rightarrow> (Some ''invalid argument'', w)))"
  by (simp_all add: small_host_def)

theorem SetMax_effect_witness:
  "SetMax (small_host [\<lparr>mp_Type = ''sysfs'', mp_Opts = [''rw'']\<rparr>]) 4000 (0, 50) = (None, (4000, 1024)) \<and>
   fst (SetMax (small_host [\<lparr>mp_Type = ''sysfs'', mp_Opts = [''ro'']\<rparr>]) 4000 (0, 50)) = Some errReadOnlySysFS"
proof -
  let ?rw = "small_host [\<lparr>mp_Type = ''sysfs'', mp_Opts = [''rw'']\<rparr>]"
  let ?ro = "small_host [\<lparr>mp_Type = ''sysfs'', mp_Opts = [''ro'']\<rparr>]"
  have q: "(4000::int) sdiv 4 = 1000" by (simp add: signed_divide_int_def)
  have r: "int_range 50 = 50" "round_up 1000 = 1024" by (simp_all add: int_range_def round_up_def min_int_def max_int_def)
  have a: "Atoi (Itoa 1000) = (1000, None)" by (rule Atoi_Itoa) (simp_all add: min_int_def max_int_def)
  have read: "readIntStringFile (small_host ms) hashsize_file w = (int_range (snd w), None)" for ms w
    by (rule obedient_read [OF small_host_obedient])
  have rw: "SetMax ?rw 4000 (0, 50) = (None, (4000, 1024))"
    by (simp add: SetMax_def setIntSysCtl_def read r q isSysFSWritable_def writeIntStringFile_def lift_error_def
        small_host_fields a)
  obtain w' where ro: "SetMax ?ro 4000 (0, 50) = (Some errReadOnlySysFS, w')"
    by (simp add: SetMax_def setIntSysCtl_def read r q isSysFSWritable_def lift_error_def small_host_fields)
  note e = SetMax_effect [OF small_host_obedient rw] SetMax_effect [OF small_host_obedient ro]
  have m: "min_int \<le> 4000" "4000 \<le> max_int" by (simp_all add: min_int_def max_int_def)
  show ?thesis using rw ro e m by simp
qed

end
