(* ===== verification/Server.thy ===== *)
theory Server
  imports Proxier Url "HOL-Library.Word"
begin

text \<open>
  \<open>server/app\<close>: the options of the command and their defaults, the choice of mode and algorithm,
  the construction of the proxy server, what its \<open>Run\<close> starts, the loop that waits for its end,
  the clean-up, and the helpers for addresses. What is made by Kubernetes (clients, informers,
  event recorders, codecs) is a parameter or an action that is only recorded.
\<close>

section \<open>Algorithms and modes\<close>

definition algorithmArray :: "string list" where
  "algorithmArray = [''roundrobin'', ''static-rr'', ''leastconn'', ''first '', ''source'', ''uri'',
     ''url_param'', ''hdr'', ''random'', ''rdp-cookie'']"

definition Algorithm :: "int \<Rightarrow> string result" where
  "Algorithm a =
     (if a > int (length algorithmArray) then Inr (algorithmArray ! 0)
      else if a < 0 \<or> int (length algorithmArray) \<le> a then Inl IndexOutOfRange
      else Inr (algorithmArray ! nat a))"

definition proxyModeOF :: string where "proxyModeOF = ''of''"
definition proxyModeLocal :: string where "proxyModeLocal = ''local''"
definition proxyModeMeshAll :: string where "proxyModeMeshAll = ''mesh''"

definition getProxyMode :: "string \<Rightarrow> string" where
  "getProxyMode proxyMode =
     (if proxyMode = proxyModeLocal then proxyModeLocal
      else if proxyMode = proxyModeOF then proxyModeOF
      else if proxyMode = proxyModeMeshAll then proxyModeMeshAll
      else proxyModeOF)"

section \<open>Options\<close>

text \<open>Durations are in nanoseconds, the algorithm and the burst are 32 bits wide.\<close>

record client_config =
  Kubeconfig :: string
  AcceptContentTypes :: string
  ContentType :: string
  QPS :: rat
  Burst :: "32 word"

record options =
  o_config :: client_config
  cleanupAndExit :: bool
  syncPeriod :: int
  minSyncPeriod :: int
  configSyncPeriod :: int
  haproxyInfo :: init_info
  o_algorithm :: "32 word"

definition NewOptions :: options where
  "NewOptions =
     \<lparr>o_config = \<lparr>Kubeconfig = '''', AcceptContentTypes = '''', ContentType = '''', QPS = 0, Burst = 0\<rparr>,
      cleanupAndExit = False, syncPeriod = 0, minSyncPeriod = 0, configSyncPeriod = 0,
      haproxyInfo = \<lparr>ii_Host = '''', User = '''', Passwd = '''', Dev = '''', ii_Mode = '''',
        IsCheckServer = False, ServerAlgorithm = ''''\<rparr>, o_algorithm = 0\<rparr>"

text \<open>
  The flags: a name, the default value, and the variable it is bound to, as what storing a value
  there does. A flag has one kind of value.
\<close>

datatype flag_value = FDuration int | FBool bool | FString string | FFloat32 rat | FInt32 "32 word"

fun duration_of :: "flag_value \<Rightarrow> int" where
  "duration_of (FDuration d) = d" | "duration_of _ = 0"

fun bool_of :: "flag_value \<Rightarrow> bool" where
  "bool_of (FBool b) = b" | "bool_of _ = False"

fun string_of :: "flag_value \<Rightarrow> string" where
  "string_of (FString s) = s" | "string_of _ = ''''"

fun float_of :: "flag_value \<Rightarrow> rat" where
  "float_of (FFloat32 q) = q" | "float_of _ = 0"

fun int32_of :: "flag_value \<Rightarrow> 32 word" where
  "int32_of (FInt32 i) = i" | "int32_of _ = 0"

definition second :: int where "second = 1000000000"

definition in_config :: "(client_config \<Rightarrow> client_config) \<Rightarrow> options \<Rightarrow> options" where
  "in_config f opts = opts\<lparr>o_config := f (o_config opts)\<rparr>"

definition in_haproxy :: "(init_info \<Rightarrow> init_info) \<Rightarrow> options \<Rightarrow> options" where
  "in_haproxy f opts = opts\<lparr>haproxyInfo := f (haproxyInfo opts)\<rparr>"

definition the_flags :: "options \<Rightarrow> (string \<times> flag_value \<times> (flag_value \<Rightarrow> options \<Rightarrow> options)) list" where
  "the_flags opts =
     [(''sync-period'', FDuration (180 * second), \<lambda>v opts. opts\<lparr>syncPeriod := duration_of v\<rparr>),
      (''min-sync-period'', FDuration (60 * second), \<lambda>v opts. opts\<lparr>minSyncPeriod := duration_of v\<rparr>),
      (''cleanup'', FBool False, \<lambda>v opts. opts\<lparr>cleanupAndExit := bool_of v\<rparr>),
      (''config-sync-period'', FDuration (600 * second), \<lambda>v opts. opts\<lparr>configSyncPeriod := duration_of v\<rparr>),
      (''kubeconfig'', FString (Kubeconfig (o_config opts)), \<lambda>v. in_config (\<lambda>c. c\<lparr>Kubeconfig := string_of v\<rparr>)),
      (''kube-api-content-type'', FString (ContentType (o_config opts)),
        \<lambda>v. in_config (\<lambda>c. c\<lparr>ContentType := string_of v\<rparr>)),
      (''kube-api-qps'', FFloat32 (QPS (o_config opts)), \<lambda>v. in_config (\<lambda>c. c\<lparr>QPS := float_of v\<rparr>)),
      (''kube-api-burst'', FInt32 (Burst (o_config opts)), \<lambda>v. in_config (\<lambda>c. c\<lparr>Burst := int32_of v\<rparr>)),
      (''check-server'', FBool False, \<lambda>v. in_haproxy (\<lambda>h. h\<lparr>IsCheckServer := bool_of v\<rparr>)),
      (''proxy-mode'', FString ''of'', \<lambda>v. in_haproxy (\<lambda>h. h\<lparr>ii_Mode := string_of v\<rparr>)),
      (''interface'', FString ''eth0'', \<lambda>v. in_haproxy (\<lambda>h. h\<lparr>Dev := string_of v\<rparr>)),
      (''user'', FString (User (haproxyInfo opts)), \<lambda>v. in_haproxy (\<lambda>h. h\<lparr>User := string_of v\<rparr>)),
      (''passwd'', FString (Passwd (haproxyInfo opts)), \<lambda>v. in_haproxy (\<lambda>h. h\<lparr>Passwd := string_of v\<rparr>)),
      (''dataplaneapi'', FString ''http://127.0.0.1:5555'', \<lambda>v. in_haproxy (\<lambda>h. h\<lparr>ii_Host := string_of v\<rparr>)),
      (''algorithm'', FInt32 0, \<lambda>v opts. opts\<lparr>o_algorithm := int32_of v\<rparr>)]"

text \<open>Registering a flag stores its default in the variable.\<close>

definition AddFlags :: "options \<Rightarrow> options" where
  "AddFlags opts = foldl (\<lambda>os (_, d, store). store d os) opts (the_flags opts)"

text \<open>The arguments on the command line: the first that is not empty is an error.\<close>

definition check_args :: "string list \<Rightarrow> bool" where
  "check_args args \<longleftrightarrow> (\<forall>arg \<in> set args. length arg = 0)"

section \<open>Clients\<close>

text \<open>
  The configuration that Kubernetes loads, with the rest of its fields as an opaque string, and
  the functions that make it and the clients. The error is its text.
\<close>

record rest_config =
  rc_base :: string
  rc_AcceptContentTypes :: string
  rc_ContentType :: string
  rc_QPS :: rat
  rc_Burst :: int

record 'c client_env =
  InClusterConfig :: "string + rest_config"
  ClientConfig :: "string \<Rightarrow> string + rest_config"
  NewForConfig :: "rest_config \<Rightarrow> string + 'c"

definition createClients :: "'c client_env \<Rightarrow> client_config \<Rightarrow> string + ('c \<times> 'c)" where
  "createClients env config =
     bindr (if length (Kubeconfig config) = 0 then InClusterConfig env else ClientConfig env (Kubeconfig config))
       (\<lambda>kubeConfig.
         let kubeConfig = kubeConfig\<lparr>rc_AcceptContentTypes := AcceptContentTypes config,
               rc_ContentType := ContentType config, rc_QPS := QPS config, rc_Burst := sint (Burst config)\<rparr>
         in bindr (NewForConfig env kubeConfig) (\<lambda>client.
            bindr (NewForConfig env kubeConfig) (\<lambda>eventClient. Inr (client, eventClient))))"

section \<open>The proxy server\<close>

text \<open>The broadcaster and the recorder are there or not; the reference to the node is its name.\<close>

record 'c proxy_server =
  ProxyMode :: string
  ps_Proxier :: "proxier option"
  Client :: "'c option"
  EventClient :: "'c option"
  Broadcaster :: bool
  NodeRef :: "string option"
  BindAddressHardFail :: bool
  UseEndpointSlices :: bool
  ps_ConfigSyncPeriod :: int

definition empty_server :: "'c proxy_server" where
  "empty_server = \<lparr>ProxyMode = '''', ps_Proxier = None, Client = None, EventClient = None, Broadcaster = False,
     NodeRef = None, BindAddressHardFail = False, UseEndpointSlices = False, ps_ConfigSyncPeriod = 0\<rparr>"

text \<open>
  The host: its name, its interfaces, the clients, and whether the feature of endpoint slices is
  on. A panic ends the construction.
\<close>

record 'c host_env =
  GetHostname :: "string + string"
  Interfaces :: "string \<Rightarrow> string + (string + if_addr list)"
  Clients :: "'c client_env"
  EndpointSliceProxying :: bool

datatype start_panic = AlgorithmPanic go_panic | AddressPanic addr_panic

fun panic_as :: "('p \<Rightarrow> start_panic) \<Rightarrow> 'p + 'a \<Rightarrow> start_panic + 'a" where
  "panic_as f (Inl p) = Inl (f p)"
| "panic_as f (Inr a) = Inr a"

text \<open>All three modes call \<open>NewProxier\<close>, with themselves as the mode.\<close>

definition newProxyServer ::
    "k8s_ext \<Rightarrow> 'c host_env \<Rightarrow> options \<Rightarrow> start_panic + (string + 'c proxy_server)" where
  "newProxyServer x env opt =
     (if cleanupAndExit opt then Inr (Inr empty_server)
      else case GetHostname env of
        Inl err \<Rightarrow> Inr (Inl err)
      | Inr hostname \<Rightarrow>
          (case createClients (Clients env) (o_config opt) of
             Inl err \<Rightarrow> Inr (Inl err)
           | Inr (client, eventClient) \<Rightarrow>
               let proxyMode = getProxyMode (ii_Mode (haproxyInfo opt))
               in bindr (panic_as AlgorithmPanic (Algorithm (sint (o_algorithm opt)))) (\<lambda>algorithm.
                  let info = (haproxyInfo opt)\<lparr>ServerAlgorithm := algorithm\<rparr>
                  in bindr
                    (if proxyMode \<in> {proxyModeOF, proxyModeLocal, proxyModeMeshAll}
                     then bindr (panic_as AddressPanic (NewProxier x (Interfaces env) (EndpointSliceProxying env)
                            hostname (Dev info) info proxyMode)) (\<lambda>p. Inr (Some p))
                     else Inr None)
                    (\<lambda>proxier.
                      Inr (Inr \<lparr>ProxyMode = proxyMode, ps_Proxier = proxier, Client = Some client,
                        EventClient = Some eventClient, Broadcaster = True, NodeRef = Some hostname,
                        BindAddressHardFail = False, UseEndpointSlices = EndpointSliceProxying env,
                        ps_ConfigSyncPeriod = configSyncPeriod opt\<rparr>)))))"

section \<open>Running\<close>

text \<open>
  What \<open>Run\<close> does outside, in order. A config is made on an informer with a resync period, the
  proxier is registered with it, and it runs in a goroutine.
\<close>

datatype resource = Services | EndpointSlices | EndpointsObjects

datatype run_action =
    StartRecordingToSink
  | NewInformerFactory int
  | NewConfig resource int
  | RegisterProxier resource
  | GoRunConfig resource
  | StartInformers
  | Event string
  | GoSyncLoop

text \<open>
  A channel is nil, or holds the values that goroutines send to it. A receive from a nil channel,
  or from one that gets nothing, blocks for good (\<open>None\<close>).
\<close>

fun receive :: "'a list option \<Rightarrow> 'a option" where
  "receive (Some (v # vs)) = Some v"
| "receive _ = None"

definition watch_actions :: "resource \<Rightarrow> int \<Rightarrow> run_action list" where
  "watch_actions r period = [NewConfig r period, RegisterProxier r, GoRunConfig r]"

text \<open>
  The actions, and the error that is returned, if any ever is. What the goroutines do once they
  are started, a panic in one of them included, is not an outcome of \<open>Run\<close>; the theories of the
  configs and of the proxier say which of their calls can panic.
\<close>

definition ProxyServer_Run :: "'c proxy_server \<Rightarrow> run_action list \<times> string option option" where
  "ProxyServer_Run s =
     (let errCh = (if BindAddressHardFail s then Some [] else None);
          period = ps_ConfigSyncPeriod s
      in ((if Broadcaster s \<and> EventClient s \<noteq> None then [StartRecordingToSink] else []) @
          [NewInformerFactory period] @
          watch_actions Services period @
          (if UseEndpointSlices s then watch_actions EndpointSlices period
           else watch_actions EndpointsObjects period) @
          [StartInformers, Event ''Starting kube-proxy.'', GoSyncLoop],
          receive errCh))"

text \<open>
  The loop of \<open>runLoop\<close>: \<open>recv n\<close> is what the n-th receive from the channel gives, if it does not
  block. A nil error is ignored, the first other one is returned.
\<close>

partial_function (option) wait_for_error :: "(nat \<Rightarrow> string option option) \<Rightarrow> nat \<Rightarrow> string option" where
  [code]: "wait_for_error recv n =
     (case recv n of
        None \<Rightarrow> None
      | Some (Some err) \<Rightarrow> Some err
      | Some None \<Rightarrow> wait_for_error recv (Suc n))"

text \<open>The goroutine sends the result of \<open>Run\<close>, once; nothing else is ever sent.\<close>

definition sent_results :: "string option option \<Rightarrow> nat \<Rightarrow> string option option" where
  "sent_results result n = (if n = 0 then result else None)"

definition runLoop :: "'c proxy_server \<Rightarrow> run_action list \<times> string option" where
  "runLoop s = (let (acts, result) = ProxyServer_Run s in (acts, wait_for_error (sent_results result) 0))"

section \<open>Cleaning up\<close>

fun cleanup_services :: "('b, 'w) rest_env \<Rightarrow> service list \<Rightarrow> 'w \<Rightarrow> string option \<times> 'w" where
  "cleanup_services env [] w = (None, w)"
| "cleanup_services env (svc # svcs) w =
     (let (encounteredError, w1) = DeleteBackend env (bk_Name (s_Backend svc)) w
      in if encounteredError
         then (Some ''encountered an error while tearing down Backend rules'', w1)
         else
           let (encounteredError, w2) = DeleteFrontend env (fe_Name (s_Frontend svc)) w1
           in if encounteredError
              then (Some ''encountered an error while tearing down Frontend rules'', w2)
              else cleanup_services env svcs w2)"

definition CleanupAndExit :: "('b, 'w) rest_env \<Rightarrow> 'w \<Rightarrow> (string option \<times> 'w) result" where
  "CleanupAndExit env w =
     bindr (GetServices env w) (\<lambda>(services, w1).
       if length services = 0 then Inr (Some ''Get all services error.'', w1)
       else Inr (cleanup_services env services w1))"

text \<open>
  \<open>Options.Run\<close>: the error of the construction, of the clean-up, or of the loop. \<open>Hangs\<close> is a run
  that never returns, with what it has started.
\<close>

datatype 'w run_outcome =
    Returns "string option" 'w
  | Panics "start_panic + go_panic"
  | Hangs "run_action list"

definition Options_Run ::
    "k8s_ext \<Rightarrow> 'c host_env \<Rightarrow> ('b, 'w) rest_env \<Rightarrow> options \<Rightarrow> 'w \<Rightarrow> 'w run_outcome" where
  "Options_Run x host env opts w =
     (case newProxyServer x host opts of
        Inl p \<Rightarrow> Panics (Inl p)
      | Inr (Inl err) \<Rightarrow> Returns (Some err) w
      | Inr (Inr s) \<Rightarrow>
          if cleanupAndExit opts
          then (case CleanupAndExit env w of Inl p \<Rightarrow> Panics (Inr p) | Inr (err, w1) \<Rightarrow> Returns err w1)
          else (case runLoop s of (_, Some err) \<Rightarrow> Returns (Some err) w | (acts, None) \<Rightarrow> Hangs acts))"

section \<open>Addresses\<close>

text \<open>\<open>AppendPortIfNeeded\<close> is Kubernetes' function.\<close>

definition addressFromDeprecatedFlags :: "(string \<Rightarrow> int \<Rightarrow> string) \<Rightarrow> string \<Rightarrow> int \<Rightarrow> string" where
  "addressFromDeprecatedFlags AppendPortIfNeeded addr p =
     (if p = 0 then '''' else AppendPortIfNeeded addr p)"

definition IPv4zero :: net_ip where
  "IPv4zero = replicate 10 0 @ [255, 255, 0, 0, 0, 0]"

definition IPv6zero :: net_ip where
  "IPv6zero = replicate 16 0"

text \<open>\<open>net.IP.IsUnspecified\<close>: the IPv4 address has a form of four bytes and one of sixteen.\<close>

definition IsUnspecified :: "net_ip \<Rightarrow> bool" where
  "IsUnspecified ip \<longleftrightarrow> ip \<in> {IPv4zero, replicate 4 0, IPv6zero}"

text \<open>\<open>GetNodeIP\<close> asks the API for the address of the node; the empty address is nil.\<close>

definition detectNodeIP :: "k8s_ext \<Rightarrow> (string \<Rightarrow> net_ip) \<Rightarrow> string \<Rightarrow> string \<Rightarrow> net_ip" where
  "detectNodeIP x GetNodeIP hostname bindAddress =
     (let nodeIP = ParseIP x bindAddress;
          nodeIP = (if IsUnspecified nodeIP then GetNodeIP hostname else nodeIP)
      in if nodeIP = [] then ParseIP x ''127.0.0.1'' else nodeIP)"

text \<open>The loop of \<open>cidrTuple\<close>; \<open>v6\<close> is \<open>IsIPv6CIDRString\<close>. A slot is empty until it is found.\<close>

fun cidr_loop :: "(string \<Rightarrow> bool) \<Rightarrow> string list \<Rightarrow> string option \<times> string option \<Rightarrow> string option \<times> string option" where
  "cidr_loop v6 [] found = found"
| "cidr_loop v6 (cidr # cs) (four, six) =
     (let (four, six) =
            (if v6 cidr \<and> six = None then (four, Some cidr)
             else if four = None then (Some cidr, six)
             else (four, six))
      in if six \<noteq> None \<and> four \<noteq> None then (four, six) else cidr_loop v6 cs (four, six))"

definition cidrTuple :: "(string \<Rightarrow> bool) \<Rightarrow> string \<Rightarrow> string \<times> string" where
  "cidrTuple v6 cidrList =
     (case cidr_loop v6 (split_on (CHR '','') cidrList) (None, None) of
        (four, six) \<Rightarrow> (case_option '''' id four, case_option '''' id six))"

definition nodeIPTuple :: "k8s_ext \<Rightarrow> string \<Rightarrow> net_ip \<times> net_ip" where
  "nodeIPTuple x bindAddress =
     (if IsIPv6String x bindAddress then (IPv4zero, ParseIP x bindAddress)
      else (ParseIP x bindAddress, IPv6zero))"

section \<open>Pod CIDRs and configuration files\<close>

text \<open>
  The wait for the pod CIDRs of a node. An object of the watch is a node, with its CIDR and its
  CIDRs, or something else. The nodes are listed and watched with a selector that gives the name;
  the client and the printed selector are parameters.
\<close>

datatype watched = NodeObject string "string list" | OtherObject

record list_options =
  FieldSelector :: string
  other_options :: "string list"

record ('l, 'v) list_watch =
  ListFunc :: "list_options \<Rightarrow> 'l"
  WatchFunc :: "list_options \<Rightarrow> 'v"

definition node_list_watch ::
    "(list_options \<Rightarrow> 'l) \<Rightarrow> (list_options \<Rightarrow> 'v) \<Rightarrow> (string \<Rightarrow> string \<Rightarrow> string) \<Rightarrow> string \<Rightarrow>
     ('l, 'v) list_watch" where
  "node_list_watch NodesList NodesWatch OneTermEqualSelector nodeName =
     (let fieldSelector = OneTermEqualSelector ''metadata.name'' nodeName
      in \<lparr>ListFunc = (\<lambda>opts. NodesList (opts\<lparr>FieldSelector := fieldSelector\<rparr>)),
          WatchFunc = (\<lambda>opts. NodesWatch (opts\<lparr>FieldSelector := fieldSelector\<rparr>))\<rparr>)"

definition pod_cidr_condition :: "watched \<Rightarrow> string + bool" where
  "pod_cidr_condition obj =
     (case obj of
        NodeObject podCIDR podCIDRs \<Rightarrow> Inr (podCIDR \<noteq> '''' \<and> length podCIDRs > 0)
      | OtherObject \<Rightarrow> Inl ''event object not of type Node'')"

text \<open>
  \<open>UntilWithSync\<close> returns the object of the first event of a watch for which the condition holds,
  or an error: a timeout, or that of the condition. \<open>LocalModeNodeCIDR\<close> is a name of Kubernetes.
\<close>

definition waitForPodCIDR ::
    "(('l, 'v) list_watch \<Rightarrow> (watched \<Rightarrow> string + bool) \<Rightarrow> string + watched) \<Rightarrow>
     (list_options \<Rightarrow> 'l) \<Rightarrow> (list_options \<Rightarrow> 'v) \<Rightarrow> (string \<Rightarrow> string \<Rightarrow> string) \<Rightarrow>
     string \<Rightarrow> string \<Rightarrow> string + watched" where
  "waitForPodCIDR UntilWithSync NodesList NodesWatch OneTermEqualSelector LocalModeNodeCIDR nodeName =
     (case UntilWithSync (node_list_watch NodesList NodesWatch OneTermEqualSelector nodeName) pod_cidr_condition of
        Inl err \<Rightarrow> Inl (''timeout waiting for PodCIDR allocation to configure detect-local-mode '' @
          LocalModeNodeCIDR @ '': '' @ err)
      | Inr (NodeObject c cs) \<Rightarrow> Inr (NodeObject c cs)
      | Inr OtherObject \<Rightarrow> Inl ''event object not of type node'')"

text \<open>
  The decoders of \<open>loadConfig\<close>: the strict one, whether its error is about strictness, and what
  the lenient one is built from: an empty scheme, the two registrations, which may fail, and the
  decoder of a scheme. A decoded object is a configuration or of another kind, with the
  description of its kind.
\<close>

record ('k, 's) config_codecs =
  StrictDecode :: "string \<Rightarrow> string + ('k option \<times> string)"
  IsStrictDecodingError :: "string \<Rightarrow> bool"
  NewScheme :: 's
  AddConfig :: "'s \<Rightarrow> string + 's"
  AddV1alpha1 :: "'s \<Rightarrow> string + 's"
  LenientDecode :: "'s \<Rightarrow> string \<Rightarrow> string + ('k option \<times> string)"

definition newLenientSchemeAndCodecs ::
    "('k, 's) config_codecs \<Rightarrow> string + ('s \<times> (string \<Rightarrow> string + ('k option \<times> string)))" where
  "newLenientSchemeAndCodecs codecs =
     (case AddConfig codecs (NewScheme codecs) of
        Inl err \<Rightarrow> Inl (''failed to add kube-proxy config API to lenient scheme: '' @ err)
      | Inr scheme \<Rightarrow>
          (case AddV1alpha1 codecs scheme of
             Inl err \<Rightarrow> Inl (''failed to add kube-proxy config v1alpha1 API to lenient scheme: '' @ err)
           | Inr lenientScheme \<Rightarrow> Inr (lenientScheme, LenientDecode codecs lenientScheme)))"

definition typed_config :: "'k option \<times> string \<Rightarrow> string + 'k" where
  "typed_config r =
     (case r of (Some c, _) \<Rightarrow> Inr c | (None, gvk) \<Rightarrow> Inl (''got unexpected config type: '' @ gvk))"

definition loadConfig :: "('k, 's) config_codecs \<Rightarrow> string \<Rightarrow> string + 'k" where
  "loadConfig codecs data =
     (case StrictDecode codecs data of
        Inr r \<Rightarrow> typed_config r
      | Inl err \<Rightarrow>
          if \<not> IsStrictDecodingError codecs err then Inl (''failed to decode: '' @ err)
          else (case newLenientSchemeAndCodecs codecs of
             Inl lenientErr \<Rightarrow> Inl lenientErr
           | Inr (_, decode) \<Rightarrow>
               (case decode data of
                  Inl _ \<Rightarrow> Inl (''failed lenient decoding: '' @ err)
                | Inr r \<Rightarrow> typed_config r)))"

definition loadConfigFromFile :: "('k, 's) config_codecs \<Rightarrow> (string \<Rightarrow> string + string) \<Rightarrow> string \<Rightarrow> string + 'k" where
  "loadConfigFromFile codecs ReadFile file = bindr (ReadFile file) (loadConfig codecs)"

text \<open>The conversions and the defaulting of the scheme are parameters.\<close>

definition ApplyDefaults ::
    "('k \<Rightarrow> string + 'e) \<Rightarrow> ('e \<Rightarrow> 'e) \<Rightarrow> ('e \<Rightarrow> string + 'k) \<Rightarrow> 'k \<Rightarrow> string + 'k" where
  "ApplyDefaults to_external Default to_internal config =
     bindr (to_external config) (\<lambda>external. to_internal (Default external))"

end
