(* ===== verification/Config.thy ===== *)
theory Config
  imports Api
begin

text \<open>
  \<open>config/config.go\<close>: between the informers of Kubernetes and the handlers that are registered.
  For services, endpoints and endpoint slices there is a config: it hooks three functions into
  an informer, and passes every object of its type on to all its handlers. An object comes as
  an \<open>interface{}\<close>, so the type assertions are part of the model, and so is the nil pointer a
  typed value may hold. What an informer missed being deleted comes as a tombstone.

  The world the handlers change is the type \<open>'s\<close>; a handler may panic. An error that is only
  reported (\<open>utilruntime.HandleError\<close>) is the object it reports.
\<close>

section \<open>Objects and handlers\<close>

datatype object =
    ObjService "v1_service option"
  | ObjEndpoints "v1_endpoints option"
  | ObjSlice "endpoint_slice option"
  | DeletedFinalStateUnknown string object
  | ObjOther string

text \<open>The type assertions; the outer option is the assertion, the inner one the pointer.\<close>

fun as_service :: "object \<Rightarrow> v1_service option option" where
  "as_service (ObjService s) = Some s"
| "as_service _ = None"

fun as_endpoints :: "object \<Rightarrow> v1_endpoints option option" where
  "as_endpoints (ObjEndpoints e) = Some e"
| "as_endpoints _ = None"

fun as_slice :: "object \<Rightarrow> endpoint_slice option option" where
  "as_slice (ObjSlice s) = Some s"
| "as_slice _ = None"

record 's service_handler =
  handle_ServiceAdd :: "v1_service option \<Rightarrow> 's \<Rightarrow> 's result"
  handle_ServiceUpdate :: "v1_service option \<Rightarrow> v1_service option \<Rightarrow> 's \<Rightarrow> 's result"
  handle_ServiceDelete :: "v1_service option \<Rightarrow> 's \<Rightarrow> 's result"
  handle_ServiceSynced :: "'s \<Rightarrow> 's result"

record 's endpoints_handler =
  handle_EndpointsAdd :: "v1_endpoints option \<Rightarrow> 's \<Rightarrow> 's result"
  handle_EndpointsUpdate :: "v1_endpoints option \<Rightarrow> v1_endpoints option \<Rightarrow> 's \<Rightarrow> 's result"
  handle_EndpointsDelete :: "v1_endpoints option \<Rightarrow> 's \<Rightarrow> 's result"
  handle_EndpointsSynced :: "'s \<Rightarrow> 's result"

record 's slice_handler =
  handle_SliceAdd :: "endpoint_slice option \<Rightarrow> 's \<Rightarrow> 's result"
  handle_SliceUpdate :: "endpoint_slice option \<Rightarrow> endpoint_slice option \<Rightarrow> 's \<Rightarrow> 's result"
  handle_SliceDelete :: "endpoint_slice option \<Rightarrow> 's \<Rightarrow> 's result"
  handle_SlicesSynced :: "'s \<Rightarrow> 's result"

definition NoopEndpointSliceHandler :: "'s slice_handler" where
  "NoopEndpointSliceHandler =
     \<lparr>handle_SliceAdd = \<lambda>_. Inr, handle_SliceUpdate = \<lambda>_ _. Inr, handle_SliceDelete = \<lambda>_. Inr,
      handle_SlicesSynced = Inr\<rparr>"

record ('n, 's) node_handler =
  handle_NodeAdd :: "'n \<Rightarrow> 's \<Rightarrow> 's result"
  handle_NodeUpdate :: "'n \<Rightarrow> 'n \<Rightarrow> 's \<Rightarrow> 's result"
  handle_NodeDelete :: "'n \<Rightarrow> 's \<Rightarrow> 's result"
  handle_NodeSynced :: "'s \<Rightarrow> 's result"

definition NoopNodeHandler :: "('n, 's) node_handler" where
  "NoopNodeHandler =
     \<lparr>handle_NodeAdd = \<lambda>_. Inr, handle_NodeUpdate = \<lambda>_ _. Inr, handle_NodeDelete = \<lambda>_. Inr,
      handle_NodeSynced = Inr\<rparr>"

section \<open>Dispatch\<close>

text \<open>The loop over the handlers: all of them, in the order they were registered.\<close>

definition call_handlers :: "('h \<Rightarrow> 's \<Rightarrow> 's result) \<Rightarrow> 'h list \<Rightarrow> 's \<Rightarrow> 's result" where
  "call_handlers f hs s = foldr_r (\<lambda>s h. f h s) s hs"

text \<open>The result of a callback: the object reported as unexpected, if any, and the world.\<close>

type_synonym 's dispatched = "(object option \<times> 's) result"

definition done_with :: "'s result \<Rightarrow> 's dispatched" where
  "done_with r = bindr r (\<lambda>s. Inr (None, s))"

text \<open>A tombstone is opened once; the object reported is the one that came.\<close>

definition deleted_object :: "(object \<Rightarrow> 'a option option) \<Rightarrow> object \<Rightarrow> 'a option option" where
  "deleted_object as obj =
     (case as obj of
        Some a \<Rightarrow> Some a
      | None \<Rightarrow> (case obj of DeletedFinalStateUnknown _ obj' \<Rightarrow> as obj' | _ \<Rightarrow> None))"

section \<open>Informers\<close>

text \<open>
  \<open>cache.ResourceEventHandlerFuncs\<close> over a config, to which the closures refer, with the period
  of the resync. An informer calls one of the three functions per notification.
\<close>

record ('c, 's) event_funcs =
  AddFunc :: "'c \<Rightarrow> object \<Rightarrow> 's \<Rightarrow> 's dispatched"
  UpdateFunc :: "'c \<Rightarrow> object \<Rightarrow> object \<Rightarrow> 's \<Rightarrow> 's dispatched"
  DeleteFunc :: "'c \<Rightarrow> object \<Rightarrow> 's \<Rightarrow> 's dispatched"
  resyncPeriod :: int

datatype notification = Added object | Updated object object | Deleted object

fun notify :: "('c, 's) event_funcs \<Rightarrow> 'c \<Rightarrow> notification \<Rightarrow> 's \<Rightarrow> 's dispatched" where
  "notify f c (Added obj) s = AddFunc f c obj s"
| "notify f c (Updated old new) s = UpdateFunc f c old new s"
| "notify f c (Deleted obj) s = DeleteFunc f c obj s"

text \<open>
  \<open>cache.WaitForNamedCacheSync\<close> with a stop channel, given the name and the \<open>HasSynced\<close> of the
  informer: whether the cache got synced before the channel was closed.
\<close>

type_synonym 's wait_sync = "string \<Rightarrow> ('s \<Rightarrow> bool) \<Rightarrow> 's \<Rightarrow> bool"

section \<open>Endpoints\<close>

record 's EndpointsConfig =
  ec_listerSynced :: "'s \<Rightarrow> bool"
  ec_eventHandlers :: "'s endpoints_handler list"

definition handleAddEndpoints :: "'s EndpointsConfig \<Rightarrow> object \<Rightarrow> 's \<Rightarrow> 's dispatched" where
  "handleAddEndpoints c obj s =
     (case as_endpoints obj of
        None \<Rightarrow> Inr (Some obj, s)
      | Some endpoints \<Rightarrow>
          done_with (call_handlers (\<lambda>h. handle_EndpointsAdd h endpoints) (ec_eventHandlers c) s))"

definition handleUpdateEndpoints :: "'s EndpointsConfig \<Rightarrow> object \<Rightarrow> object \<Rightarrow> 's \<Rightarrow> 's dispatched" where
  "handleUpdateEndpoints c oldObj newObj s =
     (case as_endpoints oldObj of
        None \<Rightarrow> Inr (Some oldObj, s)
      | Some oldEndpoints \<Rightarrow>
          (case as_endpoints newObj of
             None \<Rightarrow> Inr (Some newObj, s)
           | Some endpoints \<Rightarrow>
               done_with (call_handlers (\<lambda>h. handle_EndpointsUpdate h oldEndpoints endpoints)
                 (ec_eventHandlers c) s)))"

definition handleDeleteEndpoints :: "'s EndpointsConfig \<Rightarrow> object \<Rightarrow> 's \<Rightarrow> 's dispatched" where
  "handleDeleteEndpoints c obj s =
     (case deleted_object as_endpoints obj of
        None \<Rightarrow> Inr (Some obj, s)
      | Some endpoints \<Rightarrow>
          done_with (call_handlers (\<lambda>h. handle_EndpointsDelete h endpoints) (ec_eventHandlers c) s))"

definition NewEndpointsConfig ::
    "('s \<Rightarrow> bool) \<Rightarrow> int \<Rightarrow> 's EndpointsConfig \<times> ('s EndpointsConfig, 's) event_funcs" where
  "NewEndpointsConfig hasSynced resync =
     (\<lparr>ec_listerSynced = hasSynced, ec_eventHandlers = []\<rparr>,
      \<lparr>AddFunc = handleAddEndpoints, UpdateFunc = handleUpdateEndpoints,
       DeleteFunc = handleDeleteEndpoints, resyncPeriod = resync\<rparr>)"

definition RegisterEndpointsHandler :: "'s endpoints_handler \<Rightarrow> 's EndpointsConfig \<Rightarrow> 's EndpointsConfig" where
  "RegisterEndpointsHandler handler c = c\<lparr>ec_eventHandlers := ec_eventHandlers c @ [handler]\<rparr>"

definition RunEndpointsConfig :: "'s wait_sync \<Rightarrow> 's EndpointsConfig \<Rightarrow> 's \<Rightarrow> 's result" where
  "RunEndpointsConfig wait c s =
     (if \<not> wait ''endpoints config'' (ec_listerSynced c) s then Inr s
      else call_handlers handle_EndpointsSynced (ec_eventHandlers c) s)"

section \<open>Endpoint slices\<close>

record 's EndpointSliceConfig =
  esc_listerSynced :: "'s \<Rightarrow> bool"
  esc_eventHandlers :: "'s slice_handler list"

text \<open>
  The log call of an addition reads \<open>endpointSlice.Name\<close>, whatever the verbosity, so a nil
  pointer panics before the first handler is called. An old object of a wrong type is
  reported as the new one.
\<close>

definition handleAddEndpointSlice :: "'s EndpointSliceConfig \<Rightarrow> object \<Rightarrow> 's \<Rightarrow> 's dispatched" where
  "handleAddEndpointSlice c obj s =
     (case as_slice obj of
        None \<Rightarrow> Inr (Some obj, s)
      | Some endpointSlice \<Rightarrow>
          done_with (call_handlers
            (\<lambda>h s. case endpointSlice of
                     None \<Rightarrow> Inl NilDeref
                   | Some _ \<Rightarrow> handle_SliceAdd h endpointSlice s)
            (esc_eventHandlers c) s))"

definition handleUpdateEndpointSlice ::
    "'s EndpointSliceConfig \<Rightarrow> object \<Rightarrow> object \<Rightarrow> 's \<Rightarrow> 's dispatched" where
  "handleUpdateEndpointSlice c oldObj newObj s =
     (case as_slice oldObj of
        None \<Rightarrow> Inr (Some newObj, s)
      | Some oldEndpointSlice \<Rightarrow>
          (case as_slice newObj of
             None \<Rightarrow> Inr (Some newObj, s)
           | Some newEndpointSlice \<Rightarrow>
               done_with (call_handlers (\<lambda>h. handle_SliceUpdate h oldEndpointSlice newEndpointSlice)
                 (esc_eventHandlers c) s)))"

definition handleDeleteEndpointSlice :: "'s EndpointSliceConfig \<Rightarrow> object \<Rightarrow> 's \<Rightarrow> 's dispatched" where
  "handleDeleteEndpointSlice c obj s =
     (case deleted_object as_slice obj of
        None \<Rightarrow> Inr (Some obj, s)
      | Some endpointSlice \<Rightarrow>
          done_with (call_handlers (\<lambda>h. handle_SliceDelete h endpointSlice) (esc_eventHandlers c) s))"

definition NewEndpointSliceConfig ::
    "('s \<Rightarrow> bool) \<Rightarrow> int \<Rightarrow> 's EndpointSliceConfig \<times> ('s EndpointSliceConfig, 's) event_funcs" where
  "NewEndpointSliceConfig hasSynced resync =
     (\<lparr>esc_listerSynced = hasSynced, esc_eventHandlers = []\<rparr>,
      \<lparr>AddFunc = handleAddEndpointSlice, UpdateFunc = handleUpdateEndpointSlice,
       DeleteFunc = handleDeleteEndpointSlice, resyncPeriod = resync\<rparr>)"

definition RegisterSliceHandler :: "'s slice_handler \<Rightarrow> 's EndpointSliceConfig \<Rightarrow> 's EndpointSliceConfig" where
  "RegisterSliceHandler handler c = c\<lparr>esc_eventHandlers := esc_eventHandlers c @ [handler]\<rparr>"

definition RunEndpointSliceConfig :: "'s wait_sync \<Rightarrow> 's EndpointSliceConfig \<Rightarrow> 's \<Rightarrow> 's result" where
  "RunEndpointSliceConfig wait c s =
     (if \<not> wait ''endpoint slice config'' (esc_listerSynced c) s then Inr s
      else call_handlers handle_SlicesSynced (esc_eventHandlers c) s)"

section \<open>Services\<close>

record 's ServiceConfig =
  sc_listerSynced :: "'s \<Rightarrow> bool"
  sc_eventHandlers :: "'s service_handler list"

definition handleAddService :: "'s ServiceConfig \<Rightarrow> object \<Rightarrow> 's \<Rightarrow> 's dispatched" where
  "handleAddService c obj s =
     (case as_service obj of
        None \<Rightarrow> Inr (Some obj, s)
      | Some service \<Rightarrow>
          done_with (call_handlers (\<lambda>h. handle_ServiceAdd h service) (sc_eventHandlers c) s))"

definition handleUpdateService :: "'s ServiceConfig \<Rightarrow> object \<Rightarrow> object \<Rightarrow> 's \<Rightarrow> 's dispatched" where
  "handleUpdateService c oldObj newObj s =
     (case as_service oldObj of
        None \<Rightarrow> Inr (Some oldObj, s)
      | Some oldService \<Rightarrow>
          (case as_service newObj of
             None \<Rightarrow> Inr (Some newObj, s)
           | Some service \<Rightarrow>
               done_with (call_handlers (\<lambda>h. handle_ServiceUpdate h oldService service)
                 (sc_eventHandlers c) s)))"

definition handleDeleteService :: "'s ServiceConfig \<Rightarrow> object \<Rightarrow> 's \<Rightarrow> 's dispatched" where
  "handleDeleteService c obj s =
     (case deleted_object as_service obj of
        None \<Rightarrow> Inr (Some obj, s)
      | Some service \<Rightarrow>
          done_with (call_handlers (\<lambda>h. handle_ServiceDelete h service) (sc_eventHandlers c) s))"

definition NewServiceConfig ::
    "('s \<Rightarrow> bool) \<Rightarrow> int \<Rightarrow> 's ServiceConfig \<times> ('s ServiceConfig, 's) event_funcs" where
  "NewServiceConfig hasSynced resync =
     (\<lparr>sc_listerSynced = hasSynced, sc_eventHandlers = []\<rparr>,
      \<lparr>AddFunc = handleAddService, UpdateFunc = handleUpdateService,
       DeleteFunc = handleDeleteService, resyncPeriod = resync\<rparr>)"

definition RegisterServiceHandler :: "'s service_handler \<Rightarrow> 's ServiceConfig \<Rightarrow> 's ServiceConfig" where
  "RegisterServiceHandler handler c = c\<lparr>sc_eventHandlers := sc_eventHandlers c @ [handler]\<rparr>"

definition RunServiceConfig :: "'s wait_sync \<Rightarrow> 's ServiceConfig \<Rightarrow> 's \<Rightarrow> 's result" where
  "RunServiceConfig wait c s =
     (if \<not> wait ''service config'' (sc_listerSynced c) s then Inr s
      else call_handlers handle_ServiceSynced (sc_eventHandlers c) s)"

section \<open>What a notification says\<close>

text \<open>
  The previous and the current object of a notification of the right type; a deletion has no
  current one, an addition no previous one.
\<close>

fun change_of :: "(object \<Rightarrow> 'a option option) \<Rightarrow> notification \<Rightarrow> ('a option \<times> 'a option) option" where
  "change_of as (Added obj) = map_option (\<lambda>a. (None, a)) (as obj)"
| "change_of as (Updated old new) =
     (case as old of None \<Rightarrow> None | Some a \<Rightarrow> map_option (\<lambda>b. (a, b)) (as new))"
| "change_of as (Deleted obj) = map_option (\<lambda>a. (a, None)) (deleted_object as obj)"

lemma done_with_Inr [simp]: "done_with (Inr s) = Inr (None, s)"
  by (simp add: done_with_def)

lemma done_with_Inl [simp]: "done_with (Inl e) = Inl e"
  by (simp add: done_with_def)

lemma done_with_iff: "done_with r = Inr (e, s) \<longleftrightarrow> r = Inr s \<and> e = None"
  by (auto simp: done_with_def bindr_Inr_iff)

lemma call_handlers_Nil [simp]: "call_handlers f [] = Inr"
  by (intro ext) (simp add: call_handlers_def)

lemma call_handlers_Cons [simp]: "call_handlers f (h # hs) s = bindr (f h s) (call_handlers f hs)"
  by (simp add: call_handlers_def [abs_def])

lemma call_handlers_append:
  "call_handlers f (hs @ hs') s = bindr (call_handlers f hs s) (call_handlers f hs')"
  by (simp add: call_handlers_def [abs_def] foldr_r_append)

section \<open>The contract with an informer\<close>

text \<open>
  A config whose handlers see an addition as a change from nothing and a deletion as a change
  to nothing (\<open>update\<close> is that change): this is what the informer may rely on, and what the
  proxier's handlers provide. \<open>as\<close> is the type assertion of the config.
\<close>

locale config_updates =
  fixes as :: "object \<Rightarrow> 'a option option"
    and funcs :: "('c, 's) event_funcs"
    and conf :: 'c
    and update :: "'a option \<Rightarrow> 'a option \<Rightarrow> 's \<Rightarrow> 's result"
  assumes add: "AddFunc funcs conf obj s =
      (case as obj of None \<Rightarrow> Inr (Some obj, s) | Some a \<Rightarrow> done_with (update None a s))"
    and upd: "as old = Some a \<Longrightarrow> as new = Some b \<Longrightarrow>
      UpdateFunc funcs conf old new s = done_with (update a b s)"
    and upd_stray: "as old = None \<or> as new = None \<Longrightarrow>
      \<exists>obj \<in> {old, new}. UpdateFunc funcs conf old new s = Inr (Some obj, s)"
    and del: "DeleteFunc funcs conf obj s =
      (case deleted_object as obj of None \<Rightarrow> Inr (Some obj, s) | Some a \<Rightarrow> done_with (update a None s))"
begin

lemma notify_change:
  "change_of as n = Some (a, b) \<Longrightarrow> notify funcs conf n s = done_with (update a b s)"
  by (cases n) (auto simp: add upd del split: option.splits)

lemma notify_stray:
  assumes "change_of as n = None"
  shows "\<exists>obj. notify funcs conf n s = Inr (Some obj, s)"
proof (cases n)
  case (Updated old new)
  then have "as old = None \<or> as new = None" using assms by (auto split: option.splits)
  then show ?thesis using upd_stray [of old new s] Updated by auto
qed (use assms in \<open>auto simp: add del split: option.splits\<close>)

lemma notify_stray_same:
  "change_of as n = None \<Longrightarrow> notify funcs conf n s = Inr (e, s') \<Longrightarrow> s' = s \<and> e \<noteq> None"
  using notify_stray [of n s] by auto

lemma notify_change_iff:
  "change_of as n = Some (a, b) \<Longrightarrow>
     notify funcs conf n s = Inr (e, s') \<longleftrightarrow> update a b s = Inr s' \<and> e = None"
  by (simp add: notify_change done_with_iff)

end

text \<open>A tombstone tells what the deletion of its object would tell; another one is not opened.\<close>

lemma change_of_tombstone:
  "as (DeletedFinalStateUnknown k obj) = None \<Longrightarrow>
     change_of as (Deleted (DeletedFinalStateUnknown k obj)) = map_option (\<lambda>a. (a, None)) (as obj)"
  by (simp add: deleted_object_def)

end
