(* ===== verification/Cluster.thy ===== *)
theory Cluster
  imports Config Proxier_Run
begin

text \<open>
  The proxier registered with the configs of services and endpoints, as \<open>ProxyServer.Run\<close> of
  \<open>server/app/server.go\<close> does it without endpoint slices, and fed by informers: what its maps
  hold as a function of the objects that are alive, and what HAProxy then gets.
\<close>

section \<open>The proxier as a handler\<close>

definition on_proxier :: "(proxier \<Rightarrow> (bool \<times> proxier) result) \<Rightarrow> proxier \<times> 'w \<Rightarrow> (proxier \<times> 'w) result" where
  "on_proxier f st = (case st of (p, w) \<Rightarrow> bindr (f p) (\<lambda>(_, p'). Inr (p', w)))"

definition proxier_services ::
    "k8s_ext \<Rightarrow> ('b, 'w) rest_env \<Rightarrow> sync_orders \<Rightarrow> (proxier \<times> 'w) service_handler" where
  "proxier_services x env so =
     \<lparr>handle_ServiceAdd = \<lambda>s. on_proxier (OnServiceAdd x s),
      handle_ServiceUpdate = \<lambda>old s. on_proxier (OnServiceUpdate x old s),
      handle_ServiceDelete = \<lambda>s. on_proxier (OnServiceDelete x s),
      handle_ServiceSynced = \<lambda>(p, w). OnServiceSynced x env so p w\<rparr>"

definition proxier_endpoints ::
    "k8s_ext \<Rightarrow> ('b, 'w) rest_env \<Rightarrow> sync_orders \<Rightarrow> (proxier \<times> 'w) endpoints_handler" where
  "proxier_endpoints x env so =
     \<lparr>handle_EndpointsAdd = \<lambda>e. on_proxier (\<lambda>p. Inr (OnEndpointsAdd x e p)),
      handle_EndpointsUpdate = \<lambda>old e. on_proxier (\<lambda>p. Inr (OnEndpointsUpdate x old e p)),
      handle_EndpointsDelete = \<lambda>e. on_proxier (\<lambda>p. Inr (OnEndpointsDelete x e p)),
      handle_EndpointsSynced = \<lambda>(p, w). OnEndpointsSynced x env so p w\<rparr>"

definition proxier_slices ::
    "k8s_ext \<Rightarrow> ('b, 'w) rest_env \<Rightarrow> sync_orders \<Rightarrow> (proxier \<times> 'w) slice_handler" where
  "proxier_slices x env so =
     \<lparr>handle_SliceAdd = \<lambda>e. on_proxier (OnEndpointSliceAdd x e),
      handle_SliceUpdate = \<lambda>old e. on_proxier (OnEndpointSliceUpdate x old e),
      handle_SliceDelete = \<lambda>e. on_proxier (OnEndpointSliceDelete x e),
      handle_SlicesSynced = \<lambda>(p, w). OnEndpointSlicesSynced x env so p w\<rparr>"

text \<open>The config of services with the proxier as its handler, and that of endpoints.\<close>

definition services_conf where
  "services_conf x env so synced resync =
     RegisterServiceHandler (proxier_services x env so) (fst (NewServiceConfig synced resync))"

definition endpoints_conf where
  "endpoints_conf x env so synced resync =
     RegisterEndpointsHandler (proxier_endpoints x env so) (fst (NewEndpointsConfig synced resync))"

lemmas conf_defs = services_conf_def NewServiceConfig_def RegisterServiceHandler_def proxier_services_def
  endpoints_conf_def NewEndpointsConfig_def RegisterEndpointsHandler_def proxier_endpoints_def

interpretation services: config_updates as_service "snd (NewServiceConfig synced resync)"
    "services_conf x env so synced resync" "\<lambda>old s. on_proxier (OnServiceUpdate x old s)"
  for synced resync x env so
  by unfold_locales
    (auto simp: conf_defs handleAddService_def handleUpdateService_def handleDeleteService_def
      OnServiceAdd_def [abs_def] OnServiceDelete_def [abs_def] split: option.splits)

interpretation endpoints: config_updates as_endpoints "snd (NewEndpointsConfig synced resync)"
    "endpoints_conf x env so synced resync" "\<lambda>old e. on_proxier (\<lambda>p. Inr (OnEndpointsUpdate x old e p))"
  for synced resync x env so
  by unfold_locales
    (auto simp: conf_defs handleAddEndpoints_def handleUpdateEndpoints_def handleDeleteEndpoints_def
      OnEndpointsAdd_def [abs_def] OnEndpointsDelete_def [abs_def] split: option.splits)

section \<open>Runs\<close>

text \<open>The orders in which a sync visits what is pending.\<close>

definition orders_for :: "sync_orders \<Rightarrow> proxier \<Rightarrow> bool" where
  "orders_for so p \<longleftrightarrow> service_legal (so_items so) (serviceChanges p) \<and>
     endpoints_legal (so_eps so) (endpointsChanges p)"

text \<open>
  A run of the program without slices. An informer notifies the config of its type of what
  changed since it last did (\<open>informer_event\<close>), or of an object that is not of the type; the
  configs tell the proxier once their caches are synced; the runner syncs whenever it likes.
  \<open>lS\<close> and \<open>lE\<close> are the objects the informers have delivered. No step panics.
\<close>

inductive cluster_run ::
    "k8s_ext \<Rightarrow> ('b, 'w) rest_env \<Rightarrow> proxier \<Rightarrow> 'w \<Rightarrow> (namespaced_name \<rightharpoonup> v1_service) \<Rightarrow>
     (namespaced_name \<rightharpoonup> v1_endpoints) \<Rightarrow> proxier \<Rightarrow> 'w \<Rightarrow> bool"
  for x :: k8s_ext and env :: "('b, 'w) rest_env" and p0 :: proxier and w0 :: 'w where
  start: "cluster_run x env p0 w0 Map.empty Map.empty p0 w0"
| service: "cluster_run x env p0 w0 lS lE p w \<Longrightarrow> change_of as_service n = Some (prev, cur) \<Longrightarrow>
     informer_event service_key lS prev cur \<Longrightarrow> pred_option ok_service cur \<Longrightarrow>
     notify (snd (NewServiceConfig synced resync)) (services_conf x env so synced resync) n (p, w) =
       Inr (e, (p', w')) \<Longrightarrow>
     cluster_run x env p0 w0 (live_after service_key lS prev cur) lE p' w'"
| service_stray: "cluster_run x env p0 w0 lS lE p w \<Longrightarrow> change_of as_service n = None \<Longrightarrow>
     notify (snd (NewServiceConfig synced resync)) (services_conf x env so synced resync) n (p, w) =
       Inr (e, (p', w')) \<Longrightarrow>
     cluster_run x env p0 w0 lS lE p' w'"
| endpoints: "cluster_run x env p0 w0 lS lE p w \<Longrightarrow> change_of as_endpoints n = Some (prev, cur) \<Longrightarrow>
     informer_event endpoints_key lE prev cur \<Longrightarrow>
     notify (snd (NewEndpointsConfig synced resync)) (endpoints_conf x env so synced resync) n (p, w) =
       Inr (e, (p', w')) \<Longrightarrow>
     cluster_run x env p0 w0 lS (live_after endpoints_key lE prev cur) p' w'"
| endpoints_stray: "cluster_run x env p0 w0 lS lE p w \<Longrightarrow> change_of as_endpoints n = None \<Longrightarrow>
     notify (snd (NewEndpointsConfig synced resync)) (endpoints_conf x env so synced resync) n (p, w) =
       Inr (e, (p', w')) \<Longrightarrow>
     cluster_run x env p0 w0 lS lE p' w'"
| services_synced: "cluster_run x env p0 w0 lS lE p w \<Longrightarrow> orders_for so p \<Longrightarrow>
     RunServiceConfig wait (services_conf x env so synced resync) (p, w) = Inr (p', w') \<Longrightarrow>
     cluster_run x env p0 w0 lS lE p' w'"
| endpoints_synced: "cluster_run x env p0 w0 lS lE p w \<Longrightarrow> orders_for so p \<Longrightarrow>
     RunEndpointsConfig wait (endpoints_conf x env so synced resync) (p, w) = Inr (p', w') \<Longrightarrow>
     cluster_run x env p0 w0 lS lE p' w'"
| runner: "cluster_run x env p0 w0 lS lE p w \<Longrightarrow> orders_for so p \<Longrightarrow>
     syncProxyRules x env so p w = Inr (p', w') \<Longrightarrow>
     cluster_run x env p0 w0 lS lE p' w'"

section \<open>The maps follow the live objects\<close>

text \<open>The proxier's trackers and maps are those of a run of each tracker.\<close>

definition tracks ::
    "k8s_ext \<Rightarrow> proxier \<Rightarrow> (namespaced_name \<rightharpoonup> v1_service) \<Rightarrow> (namespaced_name \<rightharpoonup> v1_endpoints) \<Rightarrow>
     proxier \<Rightarrow> bool" where
  "tracks x p0 lS lE p \<longleftrightarrow>
     service_run x (Some newServiceInfo) lS (serviceChanges p) (serviceMap p) \<and>
     endpoints_run x (endpointsChanges p0) lE (endpointsChanges p) (endpointsMap p)"

text \<open>What \<open>NewProxier\<close> makes without slices.\<close>

definition new_proxier :: "proxier \<Rightarrow> bool" where
  "new_proxier p \<longleftrightarrow> serviceChanges p = NewServiceChangeTracker (Some newServiceInfo) \<and>
     serviceMap p = fmempty \<and> new_ect (endpointsChanges p) \<and>
     makeEndpointInfo (endpointsChanges p) = Some newEndpointInfo \<and> endpointsMap p = fmempty \<and>
     gracefuldeleteManager p = {||} \<and> fresh p"

lemma tracks_start: "new_proxier p0 \<Longrightarrow> tracks x p0 Map.empty Map.empty p0"
  using service_run_start [of x "Some newServiceInfo"] endpoints_run_start [of x "endpointsChanges p0"]
  by (simp add: tracks_def new_proxier_def)

lemma tracks_cong:
  "serviceChanges p' = serviceChanges p \<Longrightarrow> serviceMap p' = serviceMap p \<Longrightarrow>
   endpointsChanges p' = endpointsChanges p \<Longrightarrow> endpointsMap p' = endpointsMap p \<Longrightarrow>
   tracks x p0 lS lE p' = tracks x p0 lS lE p"
  by (simp add: tracks_def)

lemma tracks_service:
  assumes "tracks x p0 lS lE p" and "informer_event service_key lS prev cur"
    and "pred_option ok_service cur" and "OnServiceUpdate x prev cur p = Inr (r, p')"
  shows "tracks x p0 (live_after service_key lS prev cur) lE p'"
proof -
  obtain ch sct where "sct_update x prev cur (serviceChanges p) = Inr (ch, sct)" "p' = p\<lparr>serviceChanges := sct\<rparr>"
    using assms(4) by (auto simp: OnServiceUpdate_def bindr_Inr_iff Let_def)
  then show ?thesis using assms(1) service_run_deliver [OF _ assms(2,3)] by (auto simp: tracks_def)
qed

lemma tracks_endpoints:
  assumes "tracks x p0 lS lE p" and "informer_event endpoints_key lE prev cur"
    and "OnEndpointsUpdate x prev cur p = (r, p')"
  shows "tracks x p0 lS (live_after endpoints_key lE prev cur) p'"
proof -
  obtain ch ect where "ect_update x prev cur (endpointsChanges p) = (ch, ect)" "p' = p\<lparr>endpointsChanges := ect\<rparr>"
    using assms(3) by (auto simp: OnEndpointsUpdate_def Let_def split: prod.splits)
  then show ?thesis using assms(1) endpoints_run_deliver [OF _ assms(2)] by (auto simp: tracks_def)
qed

text \<open>What \<open>update_maps\<close> does, in the terms of the trackers; it never panics here.\<close>

lemma tracks_good:
  assumes "tracks x p0 lS lE p" and "new_proxier p0"
  shows "service_good (NewServiceChangeTracker (Some newServiceInfo)) (serviceChanges p)"
    and "endpoints_good (endpointsChanges p0) (endpointsChanges p)"
  using assms service_run_good endpoints_run_good by (auto simp: tracks_def new_proxier_def)

lemma update_maps_tracks:
  assumes "tracks x p0 lS lE p" and "new_proxier p0" and "orders_for so p"
  obtains p1 sres eres where "update_maps x so p = Inr (p1, sres, eres)" and "tracks x p0 lS lE p1"
    and "items (serviceChanges p1) = fmempty" and "ect_items (endpointsChanges p1) = fmempty"
proof -
  let ?sct = "serviceChanges p" and ?ect = "endpointsChanges p"
  obtain sm sct sres where s: "UpdateServiceMap x (so_items so) (so_hc so) (serviceMap p) ?sct = (sm, sct, sres)"
    by (metis prod_cases3)
  have sm: "sm = service_commit x (so_items so) ?sct (serviceMap p)" "sct = service_drain x (so_items so) ?sct"
    using UpdateServiceMap_fst [of x "so_items so" "so_hc so" "serviceMap p" ?sct]
      UpdateServiceMap_tracker [of x "so_items so" "so_hc so" "serviceMap p" ?sct]
    by (simp_all add: s service_drain_def service_map_apply_def)
  have ord: "visits (ord_of (so_eps so)) (ect_items ?ect)" "endpoints_legal (so_eps so) ?ect"
    using assms(3) by (simp_all add: orders_for_def endpoints_legal_def)
  have new: "new_ect (endpointsChanges p0)" using assms(2) by (simp add: new_proxier_def)
  have run: "endpoints_run x (endpointsChanges p0) lE ?ect (endpointsMap p)"
    using assms(1) by (simp add: tracks_def)
  obtain em eres where e: "UpdateEndpointsMap x (so_eps so) (endpointsMap p) ?ect =
      Inr (em, ?ect\<lparr>ect_items := fmempty, lastChangeTriggerTimes := fmempty\<rparr>, eres)"
    using UpdateEndpointsMap_items [OF _ ord(1), of x "endpointsMap p"] tracks_good(2) [OF assms(1,2)]
    by (auto simp: endpoints_good_def)
  have em: "em = endpoints_commit x (so_eps so) ?ect (endpointsMap p)"
    by (simp add: endpoints_commit_def e)
  let ?p1 = "p\<lparr>serviceMap := sm, serviceChanges := sct, endpointsMap := em,
    endpointsChanges := ?ect\<lparr>ect_items := fmempty, lastChangeTriggerTimes := fmempty\<rparr>\<rparr>"
  have "update_maps x so p = Inr (?p1, sres, eres)" by (simp add: update_maps_def s e)
  moreover have "service_run x (Some newServiceInfo) lS sct sm" unfolding sm
    using assms(1,3) by (intro service_run_sync) (simp_all add: tracks_def orders_for_def)
  moreover have "endpoints_run x (endpointsChanges p0) lE
      (?ect\<lparr>ect_items := fmempty, lastChangeTriggerTimes := fmempty\<rparr>) em"
    unfolding em endpoints_drain_eq [OF tracks_good(2) [OF assms(1,2)] ord(2), of x, symmetric]
    by (rule endpoints_run_sync [OF run ord(2)])
  moreover have "items sct = fmempty" by (simp add: sm service_drain_def service_map_apply_def)
  ultimately show ?thesis by (intro that [of ?p1 sres eres]) (simp_all only: tracks_def, simp_all)
qed

lemma tracks_sync:
  assumes "tracks x p0 lS lE p" and "new_proxier p0" and "orders_for so p"
    and "syncProxyRules x env so p w = Inr (p', w')"
  shows "tracks x p0 lS lE p'"
proof -
  consider "p' = p" | p1 sres eres where "update_maps x so p = Inr (p1, sres, eres)"
      "p' = p1\<lparr>gracefuldeleteManager := gracefuldeleteManager p'\<rparr>"
    using sync_frame [OF assms(4)] by blast
  then show ?thesis
  proof cases
    case 2
    obtain p1' sres' eres' where "update_maps x so p = Inr (p1', sres', eres')" "tracks x p0 lS lE p1'"
      by (rule update_maps_tracks [OF assms(1-3)])
    then have "tracks x p0 lS lE p1" using 2(1) by simp
    then show ?thesis by (subst 2(2)) (simp add: tracks_def)
  qed (use assms(1) in simp)
qed

text \<open>A synced notification sets its flag, decides whether the proxier is initialised, and syncs.\<close>

definition flagged :: "proxier \<Rightarrow> proxier \<Rightarrow> bool" where
  "flagged p q \<longleftrightarrow> q = p \<or> (\<exists>b. q = setInitialized b (p\<lparr>servicesSynced := True\<rparr>) \<or>
     q = setInitialized b (p\<lparr>endpointsSynced := True\<rparr>) \<or>
     q = setInitialized b (p\<lparr>endpointSlicesSynced := True\<rparr>))"

lemma flagged_frame:
  assumes "flagged p q"
  shows "serviceChanges q = serviceChanges p" "serviceMap q = serviceMap p"
    "endpointsChanges q = endpointsChanges p" "endpointsMap q = endpointsMap p"
    "gracefuldeleteManager q = gracefuldeleteManager p"
  using assms by (auto simp: flagged_def setInitialized_def)

text \<open>Rule induction over a run, with the configs and the handlers resolved.\<close>

lemma cluster_run_handlers [consumes 1, case_names start service endpoints sync]:
  assumes "cluster_run x env p0 w0 lS lE p w"
    and "P Map.empty Map.empty p0"
    and "\<And>lS lE p prev cur r p'. P lS lE p \<Longrightarrow> informer_event service_key lS prev cur \<Longrightarrow>
       pred_option ok_service cur \<Longrightarrow> OnServiceUpdate x prev cur p = Inr (r, p') \<Longrightarrow>
       P (live_after service_key lS prev cur) lE p'"
    and "\<And>lS lE p prev cur r p'. P lS lE p \<Longrightarrow> informer_event endpoints_key lE prev cur \<Longrightarrow>
       OnEndpointsUpdate x prev cur p = (r, p') \<Longrightarrow> P lS (live_after endpoints_key lE prev cur) p'"
    and "\<And>lS lE p q so w p' w'. P lS lE p \<Longrightarrow> orders_for so p \<Longrightarrow> flagged p q \<Longrightarrow>
       syncProxyRules x env so q w = Inr (p', w') \<Longrightarrow> P lS lE p'"
  shows "P lS lE p"
  using assms(1)
proof (induction rule: cluster_run.induct)
  case start
  show ?case by (rule assms(2))
next
  case (service lS lE p w n prev cur synced resync so e p' w')
  then have "on_proxier (OnServiceUpdate x prev cur) (p, w) = Inr (p', w')"
    by (simp only: services.notify_change_iff [OF service.hyps(2)])
  then obtain r where "OnServiceUpdate x prev cur p = Inr (r, p')"
    by (auto simp: on_proxier_def bindr_Inr_iff)
  then show ?case by (rule assms(3) [OF service.IH service.hyps(3,4)])
next
  case (service_stray lS lE p w n synced resync so e p' w')
  then show ?case using services.notify_stray_same [OF service_stray.hyps(2,3)] by simp
next
  case (endpoints lS lE p w n prev cur synced resync so e p' w')
  then have "on_proxier (\<lambda>p. Inr (OnEndpointsUpdate x prev cur p)) (p, w) = Inr (p', w')"
    by (simp only: endpoints.notify_change_iff [OF endpoints.hyps(2)])
  then obtain r where "OnEndpointsUpdate x prev cur p = (r, p')"
    by (auto simp: on_proxier_def bindr_Inr_iff split: prod.splits)
  then show ?case by (rule assms(4) [OF endpoints.IH endpoints.hyps(3)])
next
  case (endpoints_stray lS lE p w n synced resync so e p' w')
  then show ?case using endpoints.notify_stray_same [OF endpoints_stray.hyps(2,3)] by simp
next
  case (services_synced lS lE p w so wait synced resync p' w')
  then have "p' = p \<or> (\<exists>b. syncProxyRules x env so (setInitialized b (p\<lparr>servicesSynced := True\<rparr>)) w = Inr (p', w'))"
    by (auto simp: RunServiceConfig_def conf_defs OnServiceSynced_def Let_def split: if_splits)
  then show ?case
    by (elim disjE exE) (simp add: services_synced.IH,
      rule assms(5) [OF services_synced.IH services_synced.hyps(2)], auto simp: flagged_def)
next
  case (endpoints_synced lS lE p w so wait synced resync p' w')
  then have "p' = p \<or> (\<exists>b. syncProxyRules x env so (setInitialized b (p\<lparr>endpointsSynced := True\<rparr>)) w = Inr (p', w'))"
    by (auto simp: RunEndpointsConfig_def conf_defs OnEndpointsSynced_def Let_def split: if_splits)
  then show ?case
    by (elim disjE exE) (simp add: endpoints_synced.IH,
      rule assms(5) [OF endpoints_synced.IH endpoints_synced.hyps(2)], auto simp: flagged_def)
next
  case (runner lS lE p w so p' w')
  show ?case by (rule assms(5) [OF runner.IH runner.hyps(2) _ runner.hyps(3)]) (simp add: flagged_def)
qed

lemma cluster_run_tracks:
  assumes "cluster_run x env p0 w0 lS lE p w" and "new_proxier p0"
  shows "tracks x p0 lS lE p"
  using assms(1)
proof (induction rule: cluster_run_handlers)
  case start
  show ?case by (rule tracks_start [OF assms(2)])
next
  case (sync lS lE p q so w p' w')
  note frame = flagged_frame [OF sync(3)]
  have "tracks x p0 lS lE q" "orders_for so q" using sync(1,2) by (simp_all add: tracks_def orders_for_def frame)
  then show ?case using tracks_sync [OF _ assms(2) _ sync(4)] by simp
qed (use tracks_service tracks_endpoints in blast)+

section \<open>The types of the entries\<close>

text \<open>
  The proxier casts what it finds in its maps to its own types. An entry of the service map is
  made by \<open>newServiceInfo\<close> for its name, an endpoint by \<open>newEndpointInfo\<close>.
\<close>

definition typed_service :: "service_port_name \<Rightarrow> service_port \<Rightarrow> bool" where
  "typed_service spn sp \<longleftrightarrow> (\<exists>info. protocol info = Protocol spn \<and>
     sp = ServiceInfo info (ServicePortName_String (ServicePortName (NamespacedName_of spn) (Port spn) '''')))"

definition typed_endpoint :: "endpoint \<Rightarrow> bool" where
  "typed_endpoint e \<longleftrightarrow> (\<exists>b. e = EndpointsInfo b '''')"

lemma newBaseServiceInfo_protocol: "newBaseServiceInfo x sct p s = Inr info \<Longrightarrow> protocol info = sp_Protocol p"
  by (auto simp: newBaseServiceInfo_def bindr_Inr_iff Let_def case_prod_beta)

lemma service_entries_typed:
  assumes "fmlookup (nilmap (service_entries x (NewServiceChangeTracker (Some newServiceInfo)) s)) spn = Some sp"
  shows "typed_service spn sp"
proof -
  let ?t = "NewServiceChangeTracker (Some newServiceInfo)"
  let ?P = "\<lambda>m. \<forall>spn sp. fmlookup m spn = Some sp \<longrightarrow> typed_service spn sp"
  have "?P v" if "?P u" "add_service_port x ?t s u p = Inr v" for u v p
    using that newBaseServiceInfo_protocol
    by (fastforce simp: add_service_port_def NewServiceChangeTracker_def bindr_Inr_iff newServiceInfo_def
        svcPortName_of_def service_key_def typed_service_def split: if_splits)
  then have "?P m" if "foldr_r (add_service_port x ?t s) fmempty (Ports s) = Inr m" for m
    using foldr_r_invariant [OF that, of ?P] by fastforce
  then show ?thesis using assms
    by (auto simp: service_entries_def serviceToServiceMap_def bindr_Inr_iff split: if_splits sum.splits)
qed

lemma endpoints_entries_typed:
  assumes "makeEndpointInfo ect = Some newEndpointInfo"
    and "fmlookup (nilmap (endpoints_entries x ect e)) spn = Some l" and "ep \<in> set l"
  shows "typed_endpoint ep"
proof -
  let ?P = "\<lambda>m :: endpoints_map. \<forall>spn l. fmlookup m spn = Some l \<longrightarrow> (\<forall>ep \<in> set l. typed_endpoint ep)"
  have addr: "?P (add_address x ect spn p a m)" if "?P m" for m spn p a
    using that assms(1)
    by (cases "fmlookup m spn")
      (auto simp: add_address_def newEndpointInfo_def typed_endpoint_def Let_def split: option.splits)
  have port: "?P (add_endpoint_port x ect e ss p m)" if "?P m" for m ss p
  proof -
    have "?P (fold (add_address x ect (ServicePortName (endpoints_key e) (ep_Name p) (ep_Protocol p)) p)
        (Addresses ss) m)"
      by (rule fold_invariant_set [where P = ?P, OF addr that])
    then show ?thesis using that by (simp add: add_endpoint_port_def)
  qed
  have "?P (fold (\<lambda>ss. fold (add_endpoint_port x ect e ss) (ss_Ports ss)) (Subsets e) fmempty)"
    by (intro fold_invariant_set [where P = ?P]) (use port in auto)
  then show ?thesis using assms by (auto simp: endpoints_entries_def endpointsToEndpointsMap_def)
qed

lemma endpoints_good_start: "new_ect t \<Longrightarrow> endpoints_good t t \<and> endpoints_pending t = fmempty"
  by (simp add: new_ect_def endpoints_good_def same_ect_config_def endpoints_pending_def)

lemma tracks_typed:
  assumes "tracks x p0 lS lE p" and "new_proxier p0"
  shows "fmlookup (serviceMap p) spn = Some sp \<Longrightarrow> typed_service spn sp"
    and "fmlookup (endpointsMap p) spn = Some l \<Longrightarrow> ep \<in> set l \<Longrightarrow> typed_endpoint ep"
proof -
  have run: "service_run x (Some newServiceInfo) lS (serviceChanges p) (serviceMap p)"
      "endpoints_run x (endpointsChanges p0) lE (endpointsChanges p) (endpointsMap p)"
    using assms(1) by (simp_all add: tracks_def)
  have new: "new_ect (endpointsChanges p0)" "makeEndpointInfo (endpointsChanges p0) = Some newEndpointInfo"
    using assms(2) by (simp_all add: new_proxier_def)
  show "typed_service spn sp" if "fmlookup (serviceMap p) spn = Some sp"
    using svc_tracker.run_values [OF run(1) [unfolded service_run_def] service_good_New service_pending_New that]
      service_entries_typed by blast
  show "typed_endpoint ep" if l: "fmlookup (endpointsMap p) spn = Some l" and ep: "ep \<in> set l"
    using eps_tracker.run_values [OF run(2) [unfolded endpoints_run_def] _ _ l] endpoints_good_start [OF new(1)]
      endpoints_entries_typed [OF new(2) _ ep] by blast
qed

section \<open>What the live objects ask for\<close>

text \<open>The entry of a name, read off the live service; the endpoints, read off the live object.\<close>

definition live_entry ::
    "k8s_ext \<Rightarrow> (namespaced_name \<rightharpoonup> v1_service) \<Rightarrow> service_port_name \<Rightarrow> service_port option" where
  "live_entry x lS spn =
     (case lS (NamespacedName_of spn) of
        None \<Rightarrow> None
      | Some s \<Rightarrow> fmlookup (nilmap (service_entries x (NewServiceChangeTracker (Some newServiceInfo)) s)) spn)"

definition live_endpoints ::
    "k8s_ext \<Rightarrow> endpoint_change_tracker \<Rightarrow> (namespaced_name \<rightharpoonup> v1_endpoints) \<Rightarrow> service_port_name \<Rightarrow>
     endpoint list option" where
  "live_endpoints x ect lE spn =
     (case lE (NamespacedName_of spn) of
        None \<Rightarrow> None
      | Some e \<Rightarrow> fmlookup (nilmap (endpoints_entries x ect e)) spn)"

lemma update_maps_live:
  assumes "tracks x p0 lS lE p" and "new_proxier p0" and "orders_for so p"
    and "update_maps x so p = Inr (p1, sres, eres)"
  shows "fmlookup (serviceMap p1) spn = live_entry x lS spn"
    and "fmlookup (endpointsMap p1) spn = live_endpoints x (endpointsChanges p0) lE spn"
proof -
  have run: "service_run x (Some newServiceInfo) lS (serviceChanges p) (serviceMap p)"
      "endpoints_run x (endpointsChanges p0) lE (endpointsChanges p) (endpointsMap p)"
    using assms(1) by (simp_all add: tracks_def)
  have legal: "service_legal (so_items so) (serviceChanges p)" "endpoints_legal (so_eps so) (endpointsChanges p)"
    using assms(3) by (simp_all add: orders_for_def)
  have m: "serviceMap p1 = service_commit x (so_items so) (serviceChanges p) (serviceMap p)"
      "endpointsMap p1 = endpoints_commit x (so_eps so) (endpointsChanges p) (endpointsMap p)"
    using assms(4) UpdateServiceMap_fst [of x "so_items so" "so_hc so" "serviceMap p" "serviceChanges p"]
    by (auto simp: update_maps_def bindr_Inr_iff endpoints_commit_def split: prod.splits)
  show "fmlookup (serviceMap p1) spn = live_entry x lS spn" unfolding m(1)
    by (subst svc_tracker.run_sync_exact [OF run(1) [unfolded service_run_def] service_good_New
        service_pending_New legal(1)]) (simp add: live_entry_def split: option.split)
  show "fmlookup (endpointsMap p1) spn = live_endpoints x (endpointsChanges p0) lE spn" unfolding m(2)
    by (subst eps_tracker.run_sync_exact [OF run(2) [unfolded endpoints_run_def] _ _ legal(2)])
      (use endpoints_good_start assms(2) in \<open>auto simp: new_proxier_def live_endpoints_def split: option.split\<close>)
qed

section \<open>Valid objects\<close>

text \<open>
  What the API server guarantees of the live objects: valid names, ports of a service with
  different names, and addresses that need no escaping.
\<close>

definition valid_services :: "(namespaced_name \<rightharpoonup> v1_service) \<Rightarrow> bool" where
  "valid_services lS \<longleftrightarrow>
     (\<forall>k s. lS k = Some s \<longrightarrow> distinct (map sp_Name (Ports s)) \<and>
        (\<forall>q \<in> set (Ports s). dns_name_ok (svcPortName_of s q)))"

definition valid_objects ::
    "(namespaced_name \<rightharpoonup> v1_service) \<Rightarrow> (namespaced_name \<rightharpoonup> v1_endpoints) \<Rightarrow> bool" where
  "valid_objects lS lE \<longleftrightarrow> valid_services lS \<and>
     (\<forall>k e. lE k = Some e \<longrightarrow> (\<forall>ss \<in> set (Subsets e). \<forall>a \<in> set (Addresses ss). \<forall>q \<in> set (ss_Ports ss).
        url_plain (SERVER_PREFIX @ JoinHostPort (addr_IP a) (Itoa (ep_Port q)))))"

lemma service_entries_ports:
  assumes "spn |\<in>| fmdom (nilmap (service_entries x sct s))"
  shows "\<exists>q \<in> set (Ports s). spn = svcPortName_of s q"
proof -
  let ?P = "\<lambda>m :: service_map. \<forall>spn. spn |\<in>| fmdom m \<longrightarrow> (\<exists>q \<in> set (Ports s). spn = svcPortName_of s q)"
  have step: "?P v" if "q \<in> set (Ports s)" "?P u" "add_service_port x sct s u q = Inr v" for u v q
    using that by (auto simp: add_service_port_def bindr_Inr_iff)
  have "?P m" if fold: "foldr_r (add_service_port x sct s) fmempty (Ports s) = Inr m" for m
    by (rule foldr_r_invariant [where P = ?P, OF fold _ step]) simp_all
  then show ?thesis using assms
    by (auto simp: service_entries_def serviceToServiceMap_def bindr_Inr_iff split: if_splits sum.splits)
qed

lemma endpoints_entries_addresses:
  assumes "fmlookup (nilmap (endpoints_entries x ect e)) spn = Some l" and "ep \<in> set l"
    and "makeEndpointInfo ect = Some newEndpointInfo"
  shows "\<exists>ss \<in> set (Subsets e). \<exists>a \<in> set (Addresses ss). \<exists>q \<in> set (ss_Ports ss).
     endpoint_String ep = JoinHostPort (addr_IP a) (Itoa (ep_Port q))"
proof -
  define Q where "Q ep \<longleftrightarrow> (\<exists>ss \<in> set (Subsets e). \<exists>a \<in> set (Addresses ss). \<exists>q \<in> set (ss_Ports ss).
     endpoint_String ep = JoinHostPort (addr_IP a) (Itoa (ep_Port q)))" for ep
  let ?P = "\<lambda>m :: endpoints_map. \<forall>spn l. fmlookup m spn = Some l \<longrightarrow> (\<forall>ep \<in> set l. Q ep)"
  have addr: "?P (add_address x ect spn q a m)"
    if "ss \<in> set (Subsets e)" "q \<in> set (ss_Ports ss)" "a \<in> set (Addresses ss)" "?P m" for ss m spn q a
  proof -
    have new: "Q (newEndpointInfo (newBaseEndpointInfo (addr_IP a) (ep_Port q) loc None))" for loc
      using that(1-3) by (auto simp: Q_def newEndpointInfo_def newBaseEndpointInfo_def endpoint_String_def)
    show ?thesis using that(4) new assms(3)
      by (cases "fmlookup m spn") (auto simp: add_address_def Let_def split: option.splits)
  qed
  have port: "?P (add_endpoint_port x ect e ss q m)"
    if "ss \<in> set (Subsets e)" "q \<in> set (ss_Ports ss)" "?P m" for m ss q
  proof -
    have "?P (fold (add_address x ect (ServicePortName (endpoints_key e) (ep_Name q) (ep_Protocol q)) q)
        (Addresses ss) m)"
      by (rule fold_invariant_set [where P = ?P, OF addr [OF that(1,2)] that(3)])
    then show ?thesis using that by (simp add: add_endpoint_port_def)
  qed
  have "?P (fold (\<lambda>ss. fold (add_endpoint_port x ect e ss) (ss_Ports ss)) (Subsets e) fmempty)"
  proof (rule fold_invariant_set [where P = ?P])
    show "?P (fold (add_endpoint_port x ect e ss) (ss_Ports ss) m)" if ss: "ss \<in> set (Subsets e)" and m: "?P m" for ss m
      by (rule fold_invariant_set [where P = ?P, OF port [OF ss] m])
  qed simp
  then have "Q ep" using assms(1,2) by (simp add: endpoints_entries_def endpointsToEndpointsMap_def)
  then show ?thesis by (simp add: Q_def)
qed

lemma service_names:
  assumes "valid_services lS" and "\<And>spn. fmlookup (serviceMap p1) spn = live_entry x lS spn"
  shows "spn |\<in>| fmdom (serviceMap p1) \<Longrightarrow> dns_name_ok spn" and "names_differ p1"
proof -
  have svc: "\<exists>s q. lS (NamespacedName_of spn) = Some s \<and> q \<in> set (Ports s) \<and> spn = svcPortName_of s q"
    if "spn |\<in>| fmdom (serviceMap p1)" for spn
  proof -
    from that obtain sp where "live_entry x lS spn = Some sp" by (auto simp: fmlookup_dom_iff assms(2))
    then obtain s where s: "lS (NamespacedName_of spn) = Some s"
        "spn |\<in>| fmdom (nilmap (service_entries x (NewServiceChangeTracker (Some newServiceInfo)) s))"
      by (auto simp: live_entry_def fmlookup_dom_iff split: option.splits)
    then show ?thesis using service_entries_ports by blast
  qed
  have ok: "dns_name_ok spn" if "spn |\<in>| fmdom (serviceMap p1)" for spn
    using svc [OF that] assms(1) by (auto simp: valid_services_def)
  then show "spn |\<in>| fmdom (serviceMap p1) \<Longrightarrow> dns_name_ok spn" .
  show "names_differ p1" unfolding names_differ_def
  proof (rule inj_onI)
    fix a b assume a: "a \<in> fset (fmdom (serviceMap p1))" and b: "b \<in> fset (fmdom (serviceMap p1))"
      and "svc_name_string a = svc_name_string b"
    then have same: "NamespacedName_of a = NamespacedName_of b" "Port a = Port b"
      using svc_name_inject dns_name_plain ok by blast+
    obtain s q where q: "lS (NamespacedName_of a) = Some s" "q \<in> set (Ports s)" "a = svcPortName_of s q"
      using svc a by blast
    obtain s' q' where q': "lS (NamespacedName_of b) = Some s'" "q' \<in> set (Ports s')" "b = svcPortName_of s' q'"
      using svc b by blast
    have "s' = s" using q(1) q'(1) same(1) by simp
    moreover have "sp_Name q = sp_Name q'" using same(2) q(3) q'(3) by (simp add: svcPortName_of_def)
    ultimately have "q' = q" using q(1,2) q'(2) assms(1)
      by (auto simp: valid_services_def distinct_map dest!: inj_onD [of sp_Name])
    then show "a = b" using q(3) q'(3) \<open>s' = s\<close> by simp
  qed
qed

lemma valid_names:
  assumes "valid_objects lS lE" and "makeEndpointInfo ect = Some newEndpointInfo"
    and "\<And>spn. fmlookup (serviceMap p1) spn = live_entry x lS spn"
    and "\<And>spn. fmlookup (endpointsMap p1) spn = live_endpoints x ect lE spn"
  shows "names_ok p1" and "names_differ p1"
proof -
  have svc: "valid_services lS" using assms(1) by (simp add: valid_objects_def)
  show "names_differ p1" by (rule service_names(2) [OF svc assms(3)])
  have "url_plain (SERVER_PREFIX @ endpoint_String e)" if "e \<in> set (port_endpoints p1 spn)" for spn e
  proof -
    from that obtain l where l: "live_endpoints x ect lE spn = Some l" "e \<in> set l"
      by (cases "live_endpoints x ect lE spn") (auto simp: port_endpoints_def assms(4))
    then obtain E where E: "lE (NamespacedName_of spn) = Some E"
        "fmlookup (nilmap (endpoints_entries x ect E)) spn = Some l"
      by (auto simp: live_endpoints_def split: option.splits)
    from endpoints_entries_addresses [OF E(2) l(2) assms(2)] E(1) assms(1) show ?thesis
      by (auto simp: valid_objects_def)
  qed
  then show "names_ok p1" using service_names(1) [OF svc assms(3)] by (simp add: names_ok_def)
qed

section \<open>The list of graceful deletions stays empty\<close>

lemma foldl_fst:
  assumes "\<And>w y. fst (f (q, w) y) = q"
  shows "\<exists>w'. foldl f (q, w) l = (q, w')"
proof (induction l arbitrary: w)
  case (Cons y l)
  obtain w1 where "f (q, w) y = (q, w1)" using assms [of w y] by (cases "f (q, w) y") simp
  then show ?case using Cons by simp
qed simp

lemma syncEndpoint_graceful: "\<exists>w'. syncEndpoint x env elems hc em spn be ({||}, w) = ({||}, w')"
proof -
  obtain cur w1 where g: "GetServers env be w = (cur, w1)" by (metis prod.exhaust)
  let ?new = "sync_new_server env be (fset_of_list cur)" and ?old = "sync_old_server env be"
  have "\<exists>w'. foldl ?new ({||}, v) l = ({||}, w')" for v l
    by (rule foldl_fst) (simp add: sync_new_server_def InTerminationList_def srv_list_exist_def)
  moreover have "\<exists>w'. foldl ?old ({||}, v) l = ({||}, w')" for v l
    by (rule foldl_fst) (simp add: sync_old_server_def GracefulDeleteSrv_empty)
  ultimately have "\<exists>w'. foldl ?old (foldl ?new ({||}, v) l) l' = ({||}, w')" for v l l' by metis
  then show ?thesis by (simp add: syncEndpoint_def g Let_def)
qed

lemma sync_one_graceful: "\<exists>a' w'. sync_one x env elems p spn svc (a, {||}, w) = (a', {||}, w')"
proof (cases svc)
  case (ServiceInfo info str)
  let ?obj = "haproxy_objects x p spn info"
  obtain err w1 where s: "syncService env ?obj w = (err, w1)" by (metis prod.exhaust)
  obtain w2 where "syncEndpoint x env elems (isHealthCheck p) (endpointsMap p) spn (bk_Name (hi_Backend ?obj))
      ({||}, w1) = ({||}, w2)" using syncEndpoint_graceful [of x env elems _ _ _ _ w1] by blast
  then show ?thesis by (simp add: sync_one_def ServiceInfo s Let_def)
qed (simp add: sync_one_def)

lemma sync_loop_graceful:
  "\<exists>a' w'. range_in ks (sync_one x env elems p) m (a, {||}, w) = (a', {||}, w')"
proof (induction ks arbitrary: a w)
  case (Cons k ks)
  show ?case
  proof (cases "fmlookup m k")
    case (Some v)
    obtain a1 w1 where "sync_one x env elems p k v (a, {||}, w) = (a1, {||}, w1)"
      using sync_one_graceful [of x env elems p k v a w] by blast
    then show ?thesis using Some Cons by simp
  qed (simp add: Cons)
qed simp

lemma sync_graceful:
  assumes "syncProxyRules x env so p w = Inr (p', w')" and "gracefuldeleteManager p = {||}"
  shows "gracefuldeleteManager p' = {||}"
proof (cases "isInitialized p")
  case False
  then show ?thesis using assms by (simp add: sync_uninitialized)
next
  case True
  then obtain p1 sres eres where up: "update_maps x so p = Inr (p1, sres, eres)"
    using assms(1) by (auto simp: syncProxyRules_def bindr_Inr_iff)
  then have g: "gracefuldeleteManager p1 = {||}"
    using update_maps_frame [OF up] assms(2) by (metis proxier.select_convs(11) proxier.surjective
        proxier.update_convs(1-4))
  obtain a w2 where "range_in (so_services so (serviceMap p1)) (sync_one x env (so_servers so) p1)
      (serviceMap p1) ({||}, {||}, w) = (a, {||}, w2)"
    using sync_loop_graceful [of _ x env _ p1 _ "{||}" w] by blast
  then show ?thesis using assms(1) True up g
    by (auto simp: syncProxyRules_def EnsureHaproxy_def bindr_Inr_iff Let_def)
qed

lemma cluster_run_graceful:
  assumes "cluster_run x env p0 w0 lS lE p w" and "new_proxier p0"
  shows "gracefuldeleteManager p = {||}"
  using assms(1)
proof (induction rule: cluster_run_handlers)
  case start
  show ?case using assms(2) by (simp add: new_proxier_def)
next
  case (sync lS lE p q so w p' w')
  then show ?case using sync_graceful [OF sync(4)] flagged_frame [OF sync(3)] by simp
qed (auto simp: OnServiceUpdate_def OnEndpointsUpdate_def bindr_Inr_iff Let_def split: prod.splits)

lemma NewProxier_new:
  assumes "NewProxier x interfaceByName False hostname ifName haproxyInfo mode = Inr p"
  shows "new_proxier p"
  using assms
  by (auto simp: NewProxier_def bindr_Inr_iff Let_def new_proxier_def new_ect_def
      NewEndpointChangeTracker_def NewGracefulTerminationManager_def fresh_def flags_def isInitialized_def)

section \<open>Two syncs of a running proxier\<close>

lemma nothing_pending_orders:
  assumes "items (serviceChanges p) = fmempty" and "ect_items (endpointsChanges p) = fmempty"
  shows "orders_for so p \<longleftrightarrow> so_items so = [] \<and> ord_of (so_eps so) = []"
  using assms by (auto simp: orders_for_def service_legal_def endpoints_legal_def visits_def)

lemma second_update:
  assumes "tracks x p0 lS lE p" and "new_proxier p0" and "orders_for so p" and "orders_for so' p1"
    and "update_maps x so p = Inr (p1, sres, eres)"
  obtains p2 sres' eres' where "update_maps x so' p1 = Inr (p2, sres', eres')"
    and "serviceMap p2 = serviceMap p1" and "endpointsMap p2 = endpointsMap p1"
proof -
  obtain q sr er where q: "update_maps x so p = Inr (q, sr, er)" "tracks x p0 lS lE q"
    by (rule update_maps_tracks [OF assms(1-3)])
  then have t1: "tracks x p0 lS lE p1" using assms(5) by simp
  obtain p2 sres' eres' where p2: "update_maps x so' p1 = Inr (p2, sres', eres')"
    by (rule update_maps_tracks [OF t1 assms(2,4)])
  note live = update_maps_live [OF assms(1-3,5)] update_maps_live [OF t1 assms(2,4) p2]
  then have "serviceMap p2 = serviceMap p1" "endpointsMap p2 = endpointsMap p1"
    by (auto intro!: fmap_ext)
  then show ?thesis using p2 that by blast
qed

text \<open>No backend is there without its frontend.\<close>

definition paired :: "store \<Rightarrow> bool" where
  "paired st \<longleftrightarrow> (\<forall>nm. fmlookup (st_frontends st) (FRONTEND_PREFIX @ nm) = None \<longrightarrow>
     fmlookup (st_backends st) (BACKEND_PREFIX @ nm) = None)"

lemma paired_no_orphans: "paired st \<Longrightarrow> no_orphans x p (views_of st)"
  by (simp add: paired_def no_orphans_def views_of_def view_of_def)

text \<open>What the live objects ask for under a name: the objects and the servers.\<close>

definition live_wanted where
  "live_wanted x p0 p lE spn =
     wanted_servers x (isHealthCheck p)
       (case live_endpoints x (endpointsChanges p0) lE spn of Some l \<Rightarrow> l | None \<Rightarrow> [])"

lemma update_maps_same_settings:
  assumes "update_maps x so p = Inr (p1, sres, eres)"
  shows "accepted_port p1 = accepted_port p" "haproxy_objects x p1 = haproxy_objects x p" "skipped p1 = skipped p" "isHealthCheck p1 = isHealthCheck p"
    "isInitialized p1 = isInitialized p" "gracefuldeleteManager p1 = gracefuldeleteManager p"
proof -
  note f = update_maps_frame [OF assms]
  have s: "isHealthCheck p1 = isHealthCheck p" "px_mode p1 = px_mode p" "serverAlgorithm p1 = serverAlgorithm p"
      "proxyIP p1 = proxyIP p" "initialized p1 = initialized p" "gracefuldeleteManager p1 = gracefuldeleteManager p"
    by (subst f, simp)+
  show "accepted_port p1 = accepted_port p" by (intro ext) (simp add: accepted_port_def s)
  show "haproxy_objects x p1 = haproxy_objects x p" by (intro ext) (simp add: haproxy_objects_def s)
  show "skipped p1 = skipped p" by (intro ext) (simp add: skipped_def s)
  show "isHealthCheck p1 = isHealthCheck p" "isInitialized p1 = isInitialized p"
      "gracefuldeleteManager p1 = gracefuldeleteManager p" by (simp_all add: isInitialized_def s)
qed

text \<open>Two syncs, in the terms of the maps they are made with.\<close>

definition listed :: "endpoint list option \<Rightarrow> endpoint list" where
  "listed l = (case l of Some l \<Rightarrow> l | None \<Rightarrow> [])"

definition holds_exactly ::
    "k8s_ext \<Rightarrow> proxier \<Rightarrow> (service_port_name \<Rightarrow> service_port option) \<Rightarrow>
     (service_port_name \<Rightarrow> endpoint list option) \<Rightarrow> store \<Rightarrow> bool" where
  "holds_exactly x p S E st \<longleftrightarrow>
     (\<forall>spn info str. S spn = Some (ServiceInfo info str) \<longrightarrow> \<not> skipped p (svc_name_string spn) \<longrightarrow>
        accepted_port p info \<longrightarrow>
        view_of (svc_name_string spn) st =
          full_view (haproxy_objects x p spn info) (wanted_servers x (isHealthCheck p) (listed (E spn)))) \<and>
     (\<forall>k. k |\<in>| fmdom (st_frontends st) \<longrightarrow> k \<noteq> ''stats'' \<longrightarrow>
        (\<exists>spn. S spn \<noteq> None \<and> k = FRONTEND_PREFIX @ svc_name_string spn))"

lemma two_syncs_hold:
  assumes "haproxy_store env view ok" and "ok w" and "own_store (view w)" and "paired (view w)"
    and "ready x so p p1" and "ready x so' p1 p2"
    and "serviceMap p2 = serviceMap p1" and "endpointsMap p2 = endpointsMap p1"
  shows "\<exists>w1 w2. syncProxyRules x env so p w = Inr (p1, w1) \<and> syncProxyRules x env so' p1 w1 = Inr (p2, w2) \<and>
     holds_exactly x p (fmlookup (serviceMap p1)) (fmlookup (endpointsMap p1)) (view w2)"
proof -
  obtain s1 e1 s2 e2 where u1: "update_maps x so p = Inr (p1, s1, e1)" and u2: "update_maps x so' p1 = Inr (p2, s2, e2)"
    using assms(5,6) by (auto simp: ready_def)
  note set1 = update_maps_same_settings [OF u1] and set2 = update_maps_same_settings [OF u2]
  obtain w1 w2 where w: "syncProxyRules x env so p w = Inr (p1, w1)" "syncProxyRules x env so' p1 w1 = Inr (p2, w2)"
      "own_store (view w2)" "in_line x p2 (views_of (view w2))"
    using haproxy_store.two_syncs [OF assms(1-3) assms(5-8) paired_no_orphans [OF assms(4)]] by blast
  have "view_of (svc_name_string spn) (view w2) =
      full_view (haproxy_objects x p spn info) (wanted_servers x (isHealthCheck p) (listed (fmlookup (endpointsMap p1) spn)))"
    if "fmlookup (serviceMap p1) spn = Some (ServiceInfo info str)" "\<not> skipped p (svc_name_string spn)"
      "accepted_port p info" for spn info str
  proof -
    have lp: "live_port p2 spn info" using that(1,2) by (simp add: live_port_def assms(7) set1 set2)
    have "view_of (svc_name_string spn) (view w2) =
        full_view (haproxy_objects x p2 spn info) (port_wanted x p2 spn)"
      using in_line_live [OF w(4) lp] that(3) by (simp add: views_of_def set1(1) set2(1))
    then show ?thesis by (simp add: port_wanted_def port_endpoints_def listed_def assms(8) set1 set2)
  qed
  moreover have "\<exists>spn. fmlookup (serviceMap p1) spn \<noteq> None \<and> k = FRONTEND_PREFIX @ svc_name_string spn"
    if k: "k |\<in>| fmdom (st_frontends (view w2))" "k \<noteq> ''stats''" for k
  proof -
    obtain spn info where "live_port p2 spn info" "k = FRONTEND_PREFIX @ svc_name_string spn"
      using in_line_frontend [OF w(3,4) k] by blast
    then show ?thesis by (intro exI [of _ spn]) (auto simp: live_port_def assms(7))
  qed
  ultimately show ?thesis using w(1,2) unfolding holds_exactly_def by blast
qed

section \<open>No panics\<close>

text \<open>
  A server, or a codec, whose lists of backends and frontends have no null entries. Nothing else
  is assumed of it: it may fail, refuse, or answer anything.
\<close>

definition no_nulls :: "('b, 'w) rest_env \<Rightarrow> bool" where
  "no_nulls env \<longleftrightarrow> (\<forall>w. None \<notin> set (fst (GetBackends env w)) \<and> None \<notin> set (fst (GetFrontends env w)))"

lemma GetServices_total:
  assumes "no_nulls env"
  shows "\<exists>ss w'. GetServices env w = Inr (ss, w')"
proof -
  have b: "\<exists>m. backends_by_name bs = Inr m" if "None \<notin> set bs" for bs
    unfolding backends_by_name_def using that by (intro foldr_r_ok) (auto split: option.split, metis not_None_eq)
  have f: "\<exists>ss. services_of m fs = Inr ss" if "None \<notin> set fs" for m fs
    unfolding services_of_def using that by (intro foldr_r_ok) (auto split: option.split, metis not_None_eq)
  obtain bs w1 where 1: "GetBackends env w = (bs, w1)" by (metis prod.exhaust)
  obtain fs w2 where 2: "GetFrontends env w1 = (fs, w2)" by (metis prod.exhaust)
  have "None \<notin> set bs" "None \<notin> set fs" using assms 1 2 unfolding no_nulls_def by (metis fst_conv)+
  then obtain m where m: "backends_by_name bs = Inr m" using b by blast
  obtain ss where "services_of m fs = Inr ss" using f [OF \<open>None \<notin> set fs\<close>] by blast
  then show ?thesis by (simp add: GetServices_def 1 2 m)
qed

lemma service_run_progress:
  assumes "service_run x mk lS sct sm" and "informer_event service_key lS prev cur" and "pred_option ok_service cur"
  shows "\<exists>r sct'. sct_update x prev cur sct = Inr (r, sct')"
  using svc_tracker.run_invariant [OF assms(1) [unfolded service_run_def] service_good_New service_pending_New]
    svc_tracker.deliver_progress assms(2,3) by blast

lemma sync_total:
  assumes "no_nulls env" and "isInitialized p \<Longrightarrow> \<exists>r. update_maps x so p = Inr r"
  shows "\<exists>p' w'. syncProxyRules x env so p w = Inr (p', w')"
proof (cases "isInitialized p")
  case True
  then obtain p1 sres eres where u: "update_maps x so p = Inr (p1, sres, eres)" using assms(2) by auto
  obtain a q w2 where l: "range_in (so_services so (serviceMap p1)) (sync_one x env (so_servers so) p1)
      (serviceMap p1) ({||}, gracefuldeleteManager p1, w) = (a, q, w2)" by (metis prod_cases3)
  obtain ss w3 where "GetServices env w2 = Inr (ss, w3)" using GetServices_total [OF assms(1)] by blast
  then show ?thesis using True u l by (simp add: syncProxyRules_def EnsureHaproxy_def Let_def)
qed (simp add: sync_uninitialized)

section \<open>Properties\<close>

text \<open>
  C2. However the informers notify the configs, tombstones and objects of a wrong type
  included, and whenever the syncs run: when the proxier updates its maps it does not panic, and
  the service map holds exactly the entries of the services that are alive, the endpoints map
  those of the live endpoints, with nothing left pending.
\<close>

theorem cluster_maps_exact:
  assumes "cluster_run x env p0 w0 lS lE p w" and "new_proxier p0" and "orders_for so p"
  shows "\<exists>p1 sres eres. update_maps x so p = Inr (p1, sres, eres) \<and>
     (\<forall>spn. fmlookup (serviceMap p1) spn = live_entry x lS spn) \<and>
     (\<forall>spn. fmlookup (endpointsMap p1) spn = live_endpoints x (endpointsChanges p0) lE spn) \<and>
     items (serviceChanges p1) = fmempty \<and> ect_items (endpointsChanges p1) = fmempty"
proof -
  note t = cluster_run_tracks [OF assms(1,2)]
  obtain p1 sres eres where "update_maps x so p = Inr (p1, sres, eres)"
      "items (serviceChanges p1) = fmempty" "ect_items (endpointsChanges p1) = fmempty"
    by (rule update_maps_tracks [OF t assms(2,3)])
  then show ?thesis using update_maps_live [OF t assms(2,3)] by blast
qed

text \<open>
  C21. Type invariant: in every state of a run, an entry of the service map is of the proxier's
  own type, carries the protocol of its name and the string of its name, and every endpoint is
  of the proxier's own type. So the casts of a sync never fail.
\<close>

theorem cluster_types:
  assumes "cluster_run x env p0 w0 lS lE p w" and "new_proxier p0"
  shows "(\<forall>spn sp. fmlookup (serviceMap p) spn = Some sp \<longrightarrow> typed_service spn sp) \<and>
     (\<forall>spn l e. fmlookup (endpointsMap p) spn = Some l \<longrightarrow> e \<in> set l \<longrightarrow> typed_endpoint e)"
  using tracks_typed [OF cluster_run_tracks [OF assms] assms(2)] by blast

text \<open>
  C1. End to end: in a run of valid objects, once the proxier is initialised and HAProxy holds
  only a store the proxier owns in which no backend is without its frontend, two syncs bring
  HAProxy to what the live objects ask for: under the name of every port of a live service (that
  is not skipped, with a mode and a load balancing the server knows) the wanted backend, frontend
  and bind and exactly the servers of its live endpoints, and no other frontend than these and
  \<open>stats\<close>.
\<close>

theorem cluster_converges:
  assumes "cluster_run x env p0 w0 lS lE p w" and "new_proxier p0"
    and "haproxy_store env view ok" and "ok w" and "own_store (view w)" and "paired (view w)"
    and "isInitialized p" and "valid_objects lS lE"
    and "legal_orders so" and "orders_for so p" and "legal_orders so'" and "so_items so' = []"
    and "ord_of (so_eps so') = []"
  shows "\<exists>p1 p2 w1 w2. syncProxyRules x env so p w = Inr (p1, w1) \<and> syncProxyRules x env so' p1 w1 = Inr (p2, w2) \<and>
     (\<forall>spn info str. live_entry x lS spn = Some (ServiceInfo info str) \<longrightarrow> \<not> skipped p (svc_name_string spn) \<longrightarrow>
        accepted_port p info \<longrightarrow>
        view_of (svc_name_string spn) (view w2) =
          full_view (haproxy_objects x p spn info) (live_wanted x p0 p lE spn)) \<and>
     (\<forall>k. k |\<in>| fmdom (st_frontends (view w2)) \<longrightarrow> k \<noteq> ''stats'' \<longrightarrow>
        (\<exists>spn. live_entry x lS spn \<noteq> None \<and> k = FRONTEND_PREFIX @ svc_name_string spn))"
proof -
  note t = cluster_run_tracks [OF assms(1,2)]
  obtain p1 sres eres where u1: "update_maps x so p = Inr (p1, sres, eres)"
      and idle: "items (serviceChanges p1) = fmempty" "ect_items (endpointsChanges p1) = fmempty"
    by (rule update_maps_tracks [OF t assms(2,10)])
  note live = update_maps_live [OF t assms(2,10) u1]
  have ord: "orders_for so' p1" using assms(12,13) by (simp add: nothing_pending_orders [OF idle])
  obtain p2 sres' eres' where u2: "update_maps x so' p1 = Inr (p2, sres', eres')"
      and same: "serviceMap p2 = serviceMap p1" "endpointsMap p2 = endpointsMap p1"
    by (rule second_update [OF t assms(2,10) ord u1])
  have ect: "makeEndpointInfo (endpointsChanges p0) = Some newEndpointInfo"
    using assms(2) by (simp add: new_proxier_def)
  note names = valid_names [OF assms(8) ect]
  note set1 = update_maps_same_settings [OF u1]
  have g: "gracefuldeleteManager p = {||}" by (rule cluster_run_graceful [OF assms(1,2)])
  have r1: "ready x so p p1" using assms(7,9) u1 g names [of p1] live by (auto simp: ready_def)
  have r2: "ready x so' p1 p2" using assms(7,11) u2 g names [of p2] live same set1 by (auto simp: ready_def)
  have maps: "fmlookup (serviceMap p1) = live_entry x lS"
      "fmlookup (endpointsMap p1) = live_endpoints x (endpointsChanges p0) lE" using live by auto
  show ?thesis
    using two_syncs_hold [OF assms(3-6) r1 r2 same] unfolding maps holds_exactly_def live_wanted_def listed_def by blast
qed

text \<open>
  C8. No panic, whatever HAProxy does: in every state of a run, every change of a service or of
  endpoints that the informers may deliver next, and every sync that may run next, ends without
  a panic, for any answers and failures of the server, as long as its lists of backends and
  frontends have no null entries.
\<close>

theorem cluster_never_panics:
  assumes "cluster_run x env p0 w0 lS lE p w" and "new_proxier p0" and "no_nulls env"
  shows "(\<forall>n prev cur. change_of as_service n = Some (prev, cur) \<longrightarrow> informer_event service_key lS prev cur \<longrightarrow>
       pred_option ok_service cur \<longrightarrow>
       (\<exists>st. notify (snd (NewServiceConfig synced resync)) (services_conf x env so synced resync) n (p, w) = Inr (None, st))) \<and>
     (\<forall>n prev cur. change_of as_endpoints n = Some (prev, cur) \<longrightarrow>
       (\<exists>st. notify (snd (NewEndpointsConfig synced resync)) (endpoints_conf x env so synced resync) n (p, w) = Inr (None, st))) \<and>
     (orders_for so p \<longrightarrow> (\<exists>st. syncProxyRules x env so p w = Inr st))"
proof -
  note t = cluster_run_tracks [OF assms(1,2)]
  have run: "service_run x (Some newServiceInfo) lS (serviceChanges p) (serviceMap p)"
    using t by (simp add: tracks_def)
  have s: "\<exists>st. notify (snd (NewServiceConfig synced resync)) (services_conf x env so synced resync) n (p, w) = Inr (None, st)"
    if n: "change_of as_service n = Some (prev, cur)" "informer_event service_key lS prev cur" "pred_option ok_service cur"
    for n prev cur
    using service_run_progress [OF run n(2,3)]
    by (auto simp: services.notify_change_iff [OF n(1)] on_proxier_def OnServiceUpdate_def Let_def)
  have e: "\<exists>st. notify (snd (NewEndpointsConfig synced resync)) (endpoints_conf x env so synced resync) n (p, w) = Inr (None, st)"
    if "change_of as_endpoints n = Some (prev, cur)" for n prev cur
    by (simp add: endpoints.notify_change_iff [OF that] on_proxier_def split: prod.splits)
  have "\<exists>st. syncProxyRules x env so p w = Inr st" if ord: "orders_for so p"
  proof -
    obtain p1 sres eres where "update_maps x so p = Inr (p1, sres, eres)"
      by (rule update_maps_tracks [OF t assms(2) ord])
    then show ?thesis using sync_total [OF assms(3), of p x so w] by blast
  qed
  then show ?thesis using s e by blast
qed

section \<open>A closed run\<close>

text \<open>
  The caches of endpoints and services are synced while nothing is there yet, which starts the
  proxier; then the service \<open>shop/web\<close> and its endpoints are added.
\<close>

definition shop_new :: proxier where
  "shop_new = web_new\<lparr>serviceMap := fmempty, endpointsMap := fmempty\<rparr>"

definition shop_started :: proxier where
  "shop_started = setInitialized True (setInitialized False (shop_new\<lparr>endpointsSynced := True\<rparr>)\<lparr>servicesSynced := True\<rparr>)"

definition shop_orders :: "namespaced_name list \<Rightarrow> sync_orders" where
  "shop_orders l = web_sync_orders\<lparr>so_items := l, so_eps := web_orders\<lparr>ord_of := l\<rparr>\<rparr>"

abbreviation shop_services :: "namespaced_name \<rightharpoonup> v1_service" where
  "shop_services \<equiv> [web_nn \<mapsto> web_service]"

abbreviation shop_endpoints :: "namespaced_name \<rightharpoonup> v1_endpoints" where
  "shop_endpoints \<equiv> [web_nn \<mapsto> web_endpoints]"

lemma shop_orders_legal: "legal_orders (shop_orders l)"
  using web_sync_orders_legal by (simp add: legal_orders_def shop_orders_def)

lemma shop_orders_fields: "so_items (shop_orders l) = l" "ord_of (so_eps (shop_orders l)) = l"
  by (simp_all add: shop_orders_def web_sync_orders_def)

lemma shop_new_proxier: "new_proxier shop_new"
  by (simp add: new_proxier_def shop_new_def fresh_def flags_def new_ect_def isInitialized_def)
    (simp add: web_new_def web_proxier_def NewEndpointChangeTracker_def)

lemma shop_started_fields:
  "serviceChanges shop_started = NewServiceChangeTracker (Some newServiceInfo)" "serviceMap shop_started = fmempty"
  "endpointsChanges shop_started = endpointsChanges shop_new" "endpointsMap shop_started = fmempty"
  "gracefuldeleteManager shop_started = {||}" "isInitialized shop_started" "px_mode shop_started = ''local''"
  "serverAlgorithm shop_started = ''roundrobin''"
  "endpointsChanges shop_new = NewEndpointChangeTracker ''node1'' (Some newEndpointInfo) (Some False) False"
  using shop_new_proxier
  by (simp_all add: shop_started_def new_proxier_def)
    (simp_all add: setInitialized_def new_proxier_def isInitialized_def shop_new_def web_new_def web_proxier_def)

lemma shop_started_eq: "shop_started = web_proxier\<lparr>serviceMap := fmempty, endpointsMap := fmempty\<rparr>"
  by (simp add: shop_started_def setInitialized_def shop_new_def web_new_def web_proxier_def)

lemma range_in_empty [simp]: "range_in ks f fmempty s = s"
  by (induction ks) simp_all

lemma idle_sync:
  assumes "update_maps x so p = Inr (p, sres, eres)" and "serviceMap p = fmempty" and "gracefuldeleteManager p = {||}"
  shows "syncProxyRules x dp_env so p empty_dp = Inr (p, empty_dp)"
proof -
  have "GetServices dp_env empty_dp = Inr ([], empty_dp)"
    using dp_get_services [OF empty_dp_ok] by (auto simp: empty_dp_def)
  then show ?thesis using assms
    by (simp add: syncProxyRules_def EnsureHaproxy_def current_services_def cleanLegacyService_def)
qed

lemma shop_idle: "\<exists>sres eres. update_maps simple_ext (shop_orders []) shop_started = Inr (shop_started, sres, eres)"
  by (simp add: update_maps_def shop_orders_def web_sync_orders_def UpdateServiceMap_def service_map_apply_def
      UpdateEndpointsMap_def endpoints_map_apply_def ect_checkoutChanges_def checkoutTriggerTimes_def Let_def
      shop_started_eq web_proxier_def NewEndpointChangeTracker_def NewServiceChangeTracker_def split: prod.splits)

lemma shop_started_run: "cluster_run simple_ext dp_env shop_new empty_dp Map.empty Map.empty shop_started empty_dp"
proof -
  let ?p1 = "setInitialized False (shop_new\<lparr>endpointsSynced := True\<rparr>)"
  let ?wait = "\<lambda>_ _ _. True"
  have idle: "orders_for (shop_orders []) p" if "serviceChanges p = serviceChanges shop_new"
      "endpointsChanges p = endpointsChanges shop_new" for p
    using that shop_new_proxier
    by (subst nothing_pending_orders) (simp_all add: new_proxier_def new_ect_def NewServiceChangeTracker_def shop_orders_fields)
  have "RunEndpointsConfig ?wait (endpoints_conf simple_ext dp_env (shop_orders []) (\<lambda>_. True) 0) (shop_new, empty_dp) =
      Inr (?p1, empty_dp)"
    by (simp add: RunEndpointsConfig_def conf_defs OnEndpointsSynced_def shop_new_def web_new_def Let_def sync_uninitialized)
  from cluster_run.endpoints_synced [OF cluster_run.start idle this] have
    r1: "cluster_run simple_ext dp_env shop_new empty_dp Map.empty Map.empty ?p1 empty_dp" by simp
  have "syncProxyRules simple_ext dp_env (shop_orders []) shop_started empty_dp = Inr (shop_started, empty_dp)"
    using shop_idle idle_sync [of simple_ext "shop_orders []" shop_started] shop_started_fields(2,5) by blast
  moreover have "endpointsSynced (?p1\<lparr>servicesSynced := True\<rparr>)" by simp
  ultimately have "RunServiceConfig ?wait (services_conf simple_ext dp_env (shop_orders []) (\<lambda>_. True) 0) (?p1, empty_dp) =
      Inr (shop_started, empty_dp)"
    by (simp add: RunServiceConfig_def conf_defs OnServiceSynced_def Let_def shop_started_def)
  from cluster_run.services_synced [OF r1 idle this] show ?thesis by (simp_all add: setInitialized_def)
qed

definition shop_info :: base_service_info where
  "shop_info = projr (newBaseServiceInfo simple_ext (NewServiceChangeTracker (Some newServiceInfo)) (hd (Ports web_service)) web_service)"

lemma shop_entry: "live_entry simple_ext shop_services web_name = Some (ServiceInfo shop_info ''shop/web:http'')"
    and shop_entries: "service_entries simple_ext (NewServiceChangeTracker (Some newServiceInfo)) web_service \<noteq> None"
    and shop_mode: "valid_mode (frontend_mode shop_info)"
proof -
  let ?t = "NewServiceChangeTracker (Some newServiceInfo)"
  let ?p = "\<lparr>sp_Name = ''http'', sp_Protocol = ''TCP'', sp_Port = 80, sp_NodePort = 30080\<rparr>"
  have ports: "Ports web_service = [?p]" and okw: "ok_service web_service"
    by (simp_all add: web_service_def ok_service_def)
  have info: "newBaseServiceInfo simple_ext ?t ?p web_service = Inr shop_info"
    using newBaseServiceInfo_ok [OF okw, of simple_ext ?t ?p] by (auto simp: shop_info_def ports)
  have name: "svcPortName_of web_service ?p = web_name"
    by (simp add: svcPortName_of_def service_key_def web_name_def) (simp add: web_service_def)
  have tr: "makeServiceInfo ?t = Some newServiceInfo" "isIPv6Mode ?t = None"
    by (simp_all add: NewServiceChangeTracker_def)
  have "\<not> ShouldSkipService simple_ext web_service" by (simp add: simple_ext_def web_service_def)
  then have e: "service_entries simple_ext ?t web_service =
      Some (fmupd web_name (newServiceInfo ?p web_service shop_info) fmempty)"
    using name tr by (simp add: service_entries_def serviceToServiceMap_def ports add_service_port_def info)
  then show "service_entries simple_ext ?t web_service \<noteq> None" by simp
  have "NamespacedName_of web_name = web_nn" by (simp add: web_name_def)
  then show "live_entry simple_ext shop_services web_name = Some (ServiceInfo shop_info ''shop/web:http'')"
    by (simp add: live_entry_def e newServiceInfo_def ServicePortName_String_def NamespacedName_String_def
        fmtPortName_def) (simp add: web_service_def)
  have "protocol shop_info = ''TCP''" using newBaseServiceInfo_protocol [OF info] by simp
  then show "valid_mode (frontend_mode shop_info)" using web_mode by (simp add: frontend_mode_def web_port_info_def)
qed

lemma shop_valid: "valid_objects shop_services shop_endpoints"
proof -
  have "Itoa 8080 = ''8080''" by (simp add: Itoa_eval)
  then show ?thesis
    by (simp add: valid_objects_def valid_services_def web_service_def web_endpoints_def svcPortName_of_def service_key_def
        dns_name_ok_def dns_label_def dns_char_def url_plain_def SERVER_PREFIX_def JoinHostPort_def)
qed

lemma shop_accepted: "serverAlgorithm p = ''roundrobin'' \<Longrightarrow> accepted_port p shop_info"
  using shop_mode by (simp add: accepted_port_def valid_balance_def)

lemma shop_run:
  obtains p where "cluster_run simple_ext dp_env shop_new empty_dp shop_services shop_endpoints p empty_dp"
    and "orders_for (shop_orders [web_nn]) p" and "isInitialized p" and "px_mode p = ''local''"
    and "serverAlgorithm p = ''roundrobin''"
proof -
  let ?sct = "NewServiceChangeTracker (Some newServiceInfo)"
  let ?ect = "NewEndpointChangeTracker ''node1'' (Some newEndpointInfo) (Some False) False"
  have key: "service_key web_service = web_nn" by (simp add: service_key_def web_service_def)
  have okS: "pred_option ok_service (Some web_service)" by (simp add: ok_service_def web_service_def)
  obtain mc where mc: "serviceToServiceMap simple_ext ?sct (Some web_service) = Inr (Some mc)"
    using shop_entries by (auto simp: service_entries_def split: sum.splits)
  define sct where "sct = ?sct\<lparr>items := fmupd web_nn \<lparr>previous = None, current = Some mc\<rparr> fmempty\<rparr>"
  have s: "sct_update simple_ext None (Some web_service) ?sct = Inr (True, sct)"
  proof -
    have none: "serviceToServiceMap simple_ext t None = Inr None" for t by (simp add: serviceToServiceMap_def)
    have idle: "items ?sct = fmempty" by (simp add: NewServiceChangeTracker_def)
    show ?thesis by (simp add: sct_update_def key mc sct_def Let_def none idle)
  qed
  obtain ect where e: "ect_update simple_ext None (Some web_endpoints) ?ect = (True, ect)"
      "fset (fmdom (ect_items ect)) = {web_nn}"
    by (simp add: ect_update_def web_key Let_def endpointsToEndpointsMap_def NewEndpointChangeTracker_def)
  let ?p1 = "shop_started\<lparr>serviceChanges := sct\<rparr>"
  let ?p2 = "?p1\<lparr>endpointsChanges := ect\<rparr>"
  have i: "isInitialized ?p1" "isInitialized ?p2" using shop_started_fields(6) by (simp_all add: isInitialized_def)
  have "notify (snd (NewServiceConfig (\<lambda>_. True) 0)) (services_conf simple_ext dp_env (shop_orders []) (\<lambda>_. True) 0)
      (Added (ObjService (Some web_service))) (shop_started, empty_dp) = Inr (None, (?p1, empty_dp))"
    by (subst services.notify_change_iff [where a = None and b = "Some web_service"])
      (simp_all add: on_proxier_def OnServiceUpdate_def shop_started_fields s Let_def)
  from cluster_run.service [OF shop_started_run _ _ okS this]
  have r1: "cluster_run simple_ext dp_env shop_new empty_dp shop_services Map.empty ?p1 empty_dp"
    by (simp add: informer_event_def event_key_def live_after_def key)
  have "notify (snd (NewEndpointsConfig (\<lambda>_. True) 0)) (endpoints_conf simple_ext dp_env (shop_orders []) (\<lambda>_. True) 0)
      (Added (ObjEndpoints (Some web_endpoints))) (?p1, empty_dp) = Inr (None, (?p2, empty_dp))"
    by (subst endpoints.notify_change_iff [where a = None and b = "Some web_endpoints"])
      (simp_all add: on_proxier_def OnEndpointsUpdate_def shop_started_fields e Let_def)
  from cluster_run.endpoints [OF r1 _ _ this]
  have "cluster_run simple_ext dp_env shop_new empty_dp shop_services shop_endpoints ?p2 empty_dp"
    by (simp add: informer_event_def event_key_def live_after_def web_key)
  moreover have "orders_for (shop_orders [web_nn]) ?p2"
    by (simp add: orders_for_def shop_orders_fields service_legal_def endpoints_legal_def visits_def sct_def e(2))
  ultimately show ?thesis using i(2) by (intro that [of ?p2]) (simp_all add: shop_started_fields)
qed

theorem cluster_maps_exact_witness:
  "\<exists>p p1 sres eres. cluster_run simple_ext dp_env shop_new empty_dp shop_services shop_endpoints p empty_dp \<and>
     update_maps simple_ext (shop_orders [web_nn]) p = Inr (p1, sres, eres) \<and>
     fmlookup (serviceMap p1) web_name = Some (ServiceInfo shop_info ''shop/web:http'')"
proof -
  obtain p where p: "cluster_run simple_ext dp_env shop_new empty_dp shop_services shop_endpoints p empty_dp"
    "orders_for (shop_orders [web_nn]) p" by (rule shop_run)
  show ?thesis using cluster_maps_exact [OF p(1) shop_new_proxier p(2)] p(1) shop_entry by metis
qed

lemma empty_dp_paired: "paired (dp_store empty_dp)"
  by (simp add: paired_def empty_dp_def)

theorem cluster_converges_witness:
  "\<exists>p p1 p2 w1 w2. cluster_run simple_ext dp_env shop_new empty_dp shop_services shop_endpoints p empty_dp \<and>
     syncProxyRules simple_ext dp_env (shop_orders [web_nn]) p empty_dp = Inr (p1, w1) \<and>
     syncProxyRules simple_ext dp_env (shop_orders []) p1 w1 = Inr (p2, w2) \<and>
     view_of ''shop.web.http'' (dp_store w2) =
       full_view (haproxy_objects simple_ext p web_name shop_info) (live_wanted simple_ext shop_new p shop_endpoints web_name)"
proof -
  obtain p where p: "cluster_run simple_ext dp_env shop_new empty_dp shop_services shop_endpoints p empty_dp"
    "orders_for (shop_orders [web_nn]) p" "isInitialized p" "px_mode p = ''local''"
    "serverAlgorithm p = ''roundrobin''" by (rule shop_run)
  have acc: "accepted_port p shop_info" by (rule shop_accepted [OF p(5)])
  have "\<not> skipped p (svc_name_string web_name)" using p(4) by (simp add: skipped_def)
  note s = this
  obtain p1 p2 w1 w2 where w: "syncProxyRules simple_ext dp_env (shop_orders [web_nn]) p empty_dp = Inr (p1, w1)"
      "syncProxyRules simple_ext dp_env (shop_orders []) p1 w1 = Inr (p2, w2)"
      "\<forall>spn info str. live_entry simple_ext shop_services spn = Some (ServiceInfo info str) \<longrightarrow>
         \<not> skipped p (svc_name_string spn) \<longrightarrow> accepted_port p info \<longrightarrow>
         view_of (svc_name_string spn) (dp_store w2) =
           full_view (haproxy_objects simple_ext p spn info) (live_wanted simple_ext shop_new p shop_endpoints spn)"
    using cluster_converges [OF p(1) shop_new_proxier dp.haproxy_store_axioms empty_dp_ok empty_dp_own empty_dp_paired
        p(3) shop_valid shop_orders_legal p(2) shop_orders_legal [of "[]"] shop_orders_fields] by blast
  have "view_of (svc_name_string web_name) (dp_store w2) =
      full_view (haproxy_objects simple_ext p web_name shop_info) (live_wanted simple_ext shop_new p shop_endpoints web_name)"
    using w(3) shop_entry s acc by blast
  then show ?thesis using p(1) w(1,2) unfolding web_name_string by blast
qed

theorem cluster_types_witness:
  "\<exists>p w. cluster_run simple_ext dp_env shop_new empty_dp shop_services shop_endpoints p w \<and>
     serviceMap p \<noteq> fmempty \<and> (\<forall>spn sp. fmlookup (serviceMap p) spn = Some sp \<longrightarrow> typed_service spn sp)"
proof -
  obtain p where p: "cluster_run simple_ext dp_env shop_new empty_dp shop_services shop_endpoints p empty_dp"
    "orders_for (shop_orders [web_nn]) p" "isInitialized p" by (rule shop_run)
  note t = cluster_run_tracks [OF p(1) shop_new_proxier]
  obtain p1 sres eres where u: "update_maps simple_ext (shop_orders [web_nn]) p = Inr (p1, sres, eres)"
    by (rule update_maps_tracks [OF t shop_new_proxier p(2)])
  note live = update_maps_live [OF t shop_new_proxier p(2) u]
  have "names_ok p1" "names_differ p1"
    using valid_names [OF shop_valid _ live] shop_new_proxier by (simp_all add: new_proxier_def)
  then have "ready simple_ext (shop_orders [web_nn]) p p1"
    using p(3) u shop_orders_legal cluster_run_graceful [OF p(1) shop_new_proxier] by (simp add: ready_def)
  then obtain w1 where "syncProxyRules simple_ext dp_env (shop_orders [web_nn]) p empty_dp = Inr (p1, w1)"
    using dp.ready_sync [OF empty_dp_ok empty_dp_own] by blast
  from cluster_run.runner [OF p(1,2) this]
  have r: "cluster_run simple_ext dp_env shop_new empty_dp shop_services shop_endpoints p1 w1" .
  moreover have "serviceMap p1 \<noteq> fmempty" using live(1) [of web_name] shop_entry by auto
  ultimately show ?thesis using cluster_types [OF r shop_new_proxier] by blast
qed


lemma dp_no_nulls: "no_nulls dp_env"
proof -
  have "None \<notin> set l" if "decode_data dp_env (decode_backends dp_env) r = Some l" for l r
    using that by (auto simp: decode_data_def dp_env_def split: option.splits sum.splits payload.splits)
  moreover have "None \<notin> set l" if "decode_data dp_env (decode_frontends dp_env) r = Some l" for l r
    using that by (auto simp: decode_data_def dp_env_def split: option.splits sum.splits payload.splits)
  ultimately show ?thesis
    by (auto simp: no_nulls_def GetBackends_def GetFrontends_def Let_def split: option.splits prod.splits)
qed

theorem cluster_never_panics_witness:
  "\<exists>p st. cluster_run simple_ext dp_env shop_new empty_dp shop_services shop_endpoints p empty_dp \<and>
     syncProxyRules simple_ext dp_env (shop_orders [web_nn]) p empty_dp = Inr st \<and> isInitialized p"
proof -
  obtain p where p: "cluster_run simple_ext dp_env shop_new empty_dp shop_services shop_endpoints p empty_dp"
    "orders_for (shop_orders [web_nn]) p" "isInitialized p" by (rule shop_run)
  then show ?thesis using cluster_never_panics [OF p(1) shop_new_proxier dp_no_nulls] by blast
qed

end
