(* ===== verification/Slice_Cluster.thy ===== *)
theory Slice_Cluster
  imports Cluster
begin

text \<open>
  The proxier registered with the configs of services and endpoint slices, as \<open>ProxyServer.Run\<close>
  of \<open>server/app/server.go\<close> does it when slices are enabled. The counterpart of \<open>Cluster\<close>: the
  maps as a function of the live services and slices, what HAProxy then gets, and what becomes
  of a slice that moves from one service to another.
\<close>

section \<open>The config of slices\<close>

definition slices_conf where
  "slices_conf x env so synced resync =
     RegisterSliceHandler (proxier_slices x env so) (fst (NewEndpointSliceConfig synced resync))"

lemmas slices_conf_defs = slices_conf_def NewEndpointSliceConfig_def RegisterSliceHandler_def proxier_slices_def

text \<open>
  What a change of a slice is to the proxier. Of an update it looks at the new slice only.
\<close>

definition slice_change ::
    "k8s_ext \<Rightarrow> endpoint_slice option \<Rightarrow> endpoint_slice option \<Rightarrow> proxier \<Rightarrow> (bool \<times> proxier) result" where
  "slice_change x prev cur p =
     (case cur of Some es \<Rightarrow> slice_event x (Some es) False p | None \<Rightarrow> slice_event x prev True p)"

lemma slice_change_simps [simp]:
  "slice_change x prev (Some es) = slice_event x (Some es) False"
  "slice_change x prev None = slice_event x prev True"
  by (simp_all add: slice_change_def fun_eq_iff)

text \<open>A notification that carries nil pointers only, or a nil pointer as the new object, panics.\<close>

lemma notify_slice:
  assumes "change_of as_slice n = Some (prev, cur)"
    and "notify (snd (NewEndpointSliceConfig synced resync)) (slices_conf x env so synced resync) n st = Inr (e, st')"
  shows "e = None \<and> on_proxier (slice_change x prev cur) st = Inr st'"
proof -
  have nil: "on_proxier (slice_event x None b) s = Inl NilDeref" for b and s :: "proxier \<times> 'c"
    by (simp add: on_proxier_def slice_event_def EndpointSliceUpdate_def split: prod.splits)
  show ?thesis
  proof (cases n)
    case (Added obj)
    then show ?thesis using assms
      by (cases cur) (auto simp: slices_conf_defs handleAddEndpointSlice_def done_with_iff
          OnEndpointSliceAdd_def [abs_def] split: option.splits)
  next
    case (Updated old new)
    then show ?thesis using assms
      by (cases cur) (auto simp: slices_conf_defs handleUpdateEndpointSlice_def done_with_iff
          OnEndpointSliceUpdate_def [abs_def] nil split: option.splits)
  next
    case (Deleted obj)
    then show ?thesis using assms
      by (auto simp: slices_conf_defs handleDeleteEndpointSlice_def done_with_iff
          OnEndpointSliceDelete_def [abs_def] split: option.splits)
  qed
qed

lemma notify_slice_stray:
  assumes "change_of as_slice n = None"
    and "notify (snd (NewEndpointSliceConfig synced resync)) (slices_conf x env so synced resync) n st = Inr (e, st')"
  shows "e \<noteq> None \<and> st' = st"
  using assms
  by (cases n) (auto simp: slices_conf_defs handleAddEndpointSlice_def handleUpdateEndpointSlice_def
      handleDeleteEndpointSlice_def split: option.splits)

section \<open>Runs with slices\<close>

definition slice_key :: "endpoint_slice \<Rightarrow> namespaced_name" where
  "slice_key es = NamespacedName (es_Namespace es) (es_Name es)"

definition slice_service :: "endpoint_slice \<Rightarrow> namespaced_name" where
  "slice_service es = fst (endpointSliceCacheKeys es)"

text \<open>
  What the API server guarantees of a slice: its ports have numbers and protocols, so its
  information can be made; and an update keeps the address type and, by convention, the label
  that names the service.
\<close>

definition ok_slice :: "endpoint_slice \<Rightarrow> bool" where
  "ok_slice es \<longleftrightarrow> (\<forall>p \<in> set (es_Ports es). slp_Port p \<noteq> None \<and> slp_Protocol p \<noteq> None)"

definition stays :: "endpoint_slice \<Rightarrow> endpoint_slice \<Rightarrow> bool" where
  "stays a b \<longleftrightarrow> slice_service a = slice_service b \<and> slice_supported a = slice_supported b"

definition good_change :: "endpoint_slice option \<Rightarrow> endpoint_slice option \<Rightarrow> bool" where
  "good_change prev cur \<longleftrightarrow> pred_option ok_slice cur \<and>
     (\<forall>a b. prev = Some a \<longrightarrow> cur = Some b \<longrightarrow> stays a b)"

definition slice_orders :: "sync_orders \<Rightarrow> proxier \<Rightarrow> bool" where
  "slice_orders so p \<longleftrightarrow> service_legal (so_items so) (serviceChanges p) \<and>
     slices_legal UNIV (so_eps so) (endpointsChanges p)"

text \<open>The steps are those of \<open>cluster_run\<close>, with slices in the place of endpoints.\<close>

inductive slice_cluster_run ::
    "k8s_ext \<Rightarrow> ('b, 'w) rest_env \<Rightarrow> proxier \<Rightarrow> 'w \<Rightarrow>
     (namespaced_name \<rightharpoonup> v1_service) \<Rightarrow> (namespaced_name \<rightharpoonup> endpoint_slice) \<Rightarrow> proxier \<Rightarrow> 'w \<Rightarrow> bool"
  for x :: k8s_ext and env :: "('b, 'w) rest_env" and p0 :: proxier and w0 :: 'w where
  start: "slice_cluster_run x env p0 w0 Map.empty Map.empty p0 w0"
| service: "slice_cluster_run x env p0 w0 lS lE p w \<Longrightarrow> change_of as_service n = Some (prev, cur) \<Longrightarrow>
     informer_event service_key lS prev cur \<Longrightarrow> pred_option ok_service cur \<Longrightarrow>
     notify (snd (NewServiceConfig synced resync)) (services_conf x env so synced resync) n (p, w) =
       Inr (e, (p', w')) \<Longrightarrow>
     slice_cluster_run x env p0 w0 (live_after service_key lS prev cur) lE p' w'"
| service_stray: "slice_cluster_run x env p0 w0 lS lE p w \<Longrightarrow> change_of as_service n = None \<Longrightarrow>
     notify (snd (NewServiceConfig synced resync)) (services_conf x env so synced resync) n (p, w) =
       Inr (e, (p', w')) \<Longrightarrow>
     slice_cluster_run x env p0 w0 lS lE p' w'"
| slice: "slice_cluster_run x env p0 w0 lS lE p w \<Longrightarrow> change_of as_slice n = Some (prev, cur) \<Longrightarrow>
     informer_event slice_key lE prev cur \<Longrightarrow> good_change prev cur \<Longrightarrow>
     notify (snd (NewEndpointSliceConfig synced resync)) (slices_conf x env so synced resync) n (p, w) =
       Inr (e, (p', w')) \<Longrightarrow>
     slice_cluster_run x env p0 w0 lS (live_after slice_key lE prev cur) p' w'"
| slice_stray: "slice_cluster_run x env p0 w0 lS lE p w \<Longrightarrow> change_of as_slice n = None \<Longrightarrow>
     notify (snd (NewEndpointSliceConfig synced resync)) (slices_conf x env so synced resync) n (p, w) =
       Inr (e, (p', w')) \<Longrightarrow>
     slice_cluster_run x env p0 w0 lS lE p' w'"
| services_synced: "slice_cluster_run x env p0 w0 lS lE p w \<Longrightarrow> slice_orders so p \<Longrightarrow>
     RunServiceConfig wait (services_conf x env so synced resync) (p, w) = Inr (p', w') \<Longrightarrow>
     slice_cluster_run x env p0 w0 lS lE p' w'"
| slices_synced: "slice_cluster_run x env p0 w0 lS lE p w \<Longrightarrow> slice_orders so p \<Longrightarrow>
     RunEndpointSliceConfig wait (slices_conf x env so synced resync) (p, w) = Inr (p', w') \<Longrightarrow>
     slice_cluster_run x env p0 w0 lS lE p' w'"
| runner: "slice_cluster_run x env p0 w0 lS lE p w \<Longrightarrow> slice_orders so p \<Longrightarrow>
     syncProxyRules x env so p w = Inr (p', w') \<Longrightarrow>
     slice_cluster_run x env p0 w0 lS lE p' w'"

section \<open>The slices of a service\<close>

definition slice_info_of :: "endpoint_slice \<Rightarrow> slice_info" where
  "slice_info_of es = projr (newEndpointSliceInfo es False)"

text \<open>The information of the live slice of a name, if it is supported and belongs to the service.\<close>

definition live_slice ::
    "(namespaced_name \<rightharpoonup> endpoint_slice) \<Rightarrow> namespaced_name \<Rightarrow> string \<Rightarrow> slice_info option" where
  "live_slice lE nn name =
     (case lE (NamespacedName (Namespace nn) name) of
        None \<Rightarrow> None
      | Some es \<Rightarrow> if slice_supported es \<and> slice_service es = nn then Some (slice_info_of es) else None)"

definition serves :: "(namespaced_name \<rightharpoonup> endpoint_slice) \<Rightarrow> (namespaced_name \<Rightarrow> slices) \<Rightarrow> bool" where
  "serves lE live \<longleftrightarrow> (\<forall>nn name. fmlookup (live nn) name = live_slice lE nn name)"

definition filed_slices :: "(namespaced_name \<rightharpoonup> endpoint_slice) \<Rightarrow> bool" where
  "filed_slices lE \<longleftrightarrow> (\<forall>k es. lE k = Some es \<longrightarrow> ok_slice es \<and> slice_key es = k)"

lemma ok_slice_info:
  assumes "ok_slice es"
  shows "\<exists>si. newEndpointSliceInfo es gone = Inr si \<and> proto_ok si"
proof -
  have "\<not> list_ex (\<lambda>p. slp_Port p = None) (es_Ports es)"
    using assms by (auto simp: ok_slice_def list_ex_iff)
  then show ?thesis using assms
    by (auto simp: newEndpointSliceInfo_def sort_ports_def proto_ok_def ok_slice_def)
qed

lemma slice_keys:
  "slice_supported es \<Longrightarrow> endpointSliceCacheKeys es = (slice_service es, es_Name es, False)"
  by (simp add: slice_supported_def slice_service_def endpointSliceCacheKeys_def Let_def)

lemma slice_service_namespace: "Namespace (slice_service es) = es_Namespace es"
  by (simp add: slice_service_def endpointSliceCacheKeys_def Let_def)

lemma informer_event_object:
  assumes "informer_event key l prev cur"
  obtains obj where "prev = l (key obj)" and "live_after key l prev cur = l(key obj := cur)"
    and "cur = Some obj \<or> cur = None \<and> prev = Some obj"
proof (cases cur)
  case None
  then obtain a where a: "prev = Some a" using assms by (cases prev) (auto simp: informer_event_def event_key_def)
  then have "l (key a) = Some a" using None assms by (auto simp: informer_event_def event_key_def)
  then show ?thesis using None a by (intro that [of a]) (simp_all add: event_key_def live_after_def)
next
  case (Some b)
  then show ?thesis using assms by (intro that [of b]) (simp_all add: informer_event_def event_key_def live_after_def)
qed

lemma filed_slices_after:
  assumes "filed_slices lE" and "informer_event slice_key lE prev cur" and "good_change prev cur"
  shows "filed_slices (live_after slice_key lE prev cur)"
  using assms
  by (auto simp: filed_slices_def good_change_def live_after_def informer_event_def event_key_def
      split: option.splits)

text \<open>
  After a change of the slice \<open>es\<close>: nothing for an unsupported slice, otherwise one slice of its
  service is replaced or goes.
\<close>

lemma live_slice_after:
  assumes "lE (slice_key es) = prev" and "good_change prev cur" and "cur = Some es \<or> cur = None \<and> prev = Some es"
  shows "live_slice (lE(slice_key es := cur)) nn name =
      (if slice_supported es \<and> nn = slice_service es \<and> name = es_Name es then map_option slice_info_of cur
       else live_slice lE nn name)"
proof -
  have old: "slice_service a = slice_service es \<and> slice_supported a = slice_supported es"
    if "lE (slice_key es) = Some a" for a
    using that assms by (auto simp: good_change_def stays_def)
  have key: "NamespacedName (Namespace nn) name = slice_key es \<longleftrightarrow> Namespace nn = es_Namespace es \<and> name = es_Name es"
    by (simp add: slice_key_def)
  show ?thesis
  proof (cases "NamespacedName (Namespace nn) name = slice_key es")
    case True
    have "live_slice lE nn name = None" if "\<not> (slice_supported es \<and> nn = slice_service es)"
      using that old True by (auto simp: live_slice_def split: option.splits)
    then show ?thesis using True assms(3) key by (auto simp: live_slice_def)
  next
    case False
    then have "\<not> (nn = slice_service es \<and> name = es_Name es)"
      using slice_service_namespace [of es] by (auto simp: key)
    then show ?thesis using False by (auto simp: live_slice_def)
  qed
qed

lemma serves_after:
  assumes "serves lE live" and "lE (slice_key es) = prev" and "good_change prev cur"
    and "cur = Some es \<or> cur = None \<and> prev = Some es"
  shows "serves (lE(slice_key es := cur))
     (if slice_supported es
      then live_slices_after live (slice_service es) (es_Name es) (map_option slice_info_of cur) else live)"
proof -
  have "fmlookup (live nn) name = live_slice lE nn name" for nn name
    using assms(1) by (simp add: serves_def)
  then show ?thesis unfolding serves_def live_slice_after [where lE = lE, OF assms(2-4)]
    by (cases cur) (simp_all add: live_slices_after_def)
qed

section \<open>The maps follow the live objects\<close>

definition slice_tracks ::
    "k8s_ext \<Rightarrow> proxier \<Rightarrow> (namespaced_name \<rightharpoonup> v1_service) \<Rightarrow>
     (namespaced_name \<rightharpoonup> endpoint_slice) \<Rightarrow> proxier \<Rightarrow> bool" where
  "slice_tracks x p0 lS lE p \<longleftrightarrow>
     service_run x (Some newServiceInfo) lS (serviceChanges p) (serviceMap p) \<and> filed_slices lE \<and>
     (\<exists>live. serves lE live \<and> slice_run x UNIV (endpointsChanges p0) live (endpointsChanges p) (endpointsMap p))"

text \<open>What \<open>NewProxier\<close> makes when slices are enabled.\<close>

definition new_slice_proxier :: "slice_cache \<Rightarrow> proxier \<Rightarrow> bool" where
  "new_slice_proxier c0 p \<longleftrightarrow> serviceChanges p = NewServiceChangeTracker (Some newServiceInfo) \<and>
     serviceMap p = fmempty \<and> endpointSliceCache (endpointsChanges p) = Some c0 \<and>
     trackerByServiceMap c0 = fmempty \<and> cache_makeEndpointInfo c0 = newEndpointInfo \<and>
     endpointsMap p = fmempty \<and> gracefuldeleteManager p = {||} \<and> fresh p"

lemma NewProxier_slices:
  assumes "NewProxier x interfaceByName True hostname ifName haproxyInfo mode = Inr p"
  shows "new_slice_proxier (the (endpointSliceCache (endpointsChanges p))) p"
  using assms
  by (auto simp: NewProxier_def bindr_Inr_iff Let_def new_slice_proxier_def NewEndpointSliceCache_def
      NewEndpointChangeTracker_def NewGracefulTerminationManager_def fresh_def flags_def isInitialized_def)

lemma slice_tracks_start: "new_slice_proxier c0 p0 \<Longrightarrow> slice_tracks x p0 Map.empty Map.empty p0"
  using service_run_start [of x "Some newServiceInfo"] slice_run.start [of x UNIV "endpointsChanges p0"]
  by (auto simp: slice_tracks_def new_slice_proxier_def filed_slices_def serves_def live_slice_def
      intro!: exI [of _ "\<lambda>_. fmempty"])

lemma slice_tracks_service:
  assumes "slice_tracks x p0 lS lE p" and "informer_event service_key lS prev cur"
    and "pred_option ok_service cur" and "OnServiceUpdate x prev cur p = Inr (r, p')"
  shows "slice_tracks x p0 (live_after service_key lS prev cur) lE p'"
proof -
  obtain ch sct where "sct_update x prev cur (serviceChanges p) = Inr (ch, sct)" "p' = p\<lparr>serviceChanges := sct\<rparr>"
    using assms(4) by (auto simp: OnServiceUpdate_def bindr_Inr_iff Let_def)
  then show ?thesis using assms(1) service_run_deliver [OF _ assms(2,3)] by (auto simp: slice_tracks_def)
qed

lemma slice_tracks_slice:
  assumes "slice_tracks x p0 lS lE p" and "informer_event slice_key lE prev cur"
    and "good_change prev cur" and "slice_change x prev cur p = Inr (r, p')"
  shows "slice_tracks x p0 lS (live_after slice_key lE prev cur) p'"
proof -
  obtain live where live: "serves lE live"
      "slice_run x UNIV (endpointsChanges p0) live (endpointsChanges p) (endpointsMap p)"
    and filed: "filed_slices lE" using assms(1) by (auto simp: slice_tracks_def)
  obtain es where k: "prev = lE (slice_key es)" "live_after slice_key lE prev cur = lE(slice_key es := cur)"
      "cur = Some es \<or> cur = None \<and> prev = Some es" by (rule informer_event_object [OF assms(2)])
  have call: "slice_change x prev cur p = slice_event x (Some es) (cur = None) p"
    using k(3) by auto
  then obtain ch ect where ect: "EndpointSliceUpdate x (Some es) (cur = None) (endpointsChanges p) = Inr (ch, ect)"
      "p' = p\<lparr>endpointsChanges := ect\<rparr>"
    using assms(4) unfolding call slice_event_def Let_def bindr_Inr_iff by auto
  have ok: "ok_slice es"
    using k(1,3) filed assms(3) by (auto simp: filed_slices_def good_change_def)
  obtain si where si: "newEndpointSliceInfo es (cur = None) = Inr si" "proto_ok si"
    using ok_slice_info [OF ok] by blast
  have info: "(if cur = None then None else Some si) = map_option slice_info_of cur"
    using si(1) k(3) by (auto simp: slice_info_of_def)
  have "slice_run x UNIV (endpointsChanges p0)
      (if slice_supported es then live_slices_after live (slice_service es) (es_Name es) (map_option slice_info_of cur)
       else live) ect (endpointsMap p)"
    using slice_run.deliver [OF live(2) _ si slice_keys ect(1)] slice_run.ignored [OF live(2) _ ect(1)]
    by (simp add: info)
  moreover have "filed_slices (live_after slice_key lE prev cur)" by (rule filed_slices_after [OF filed assms(2,3)])
  moreover note serves_after [OF live(1) k(1) [symmetric] assms(3) k(3)]
  ultimately show ?thesis using assms(1) ect(2) unfolding slice_tracks_def k(2) by auto
qed

text \<open>The endpoints that the live slices of a service list, and a list that has one per address.\<close>

definition live_candidates ::
    "k8s_ext \<Rightarrow> slice_cache \<Rightarrow> (namespaced_name \<rightharpoonup> endpoint_slice) \<Rightarrow> service_port_name \<Rightarrow> endpoint set" where
  "live_candidates x c0 lE spn =
     {e. \<exists>k es. lE k = Some es \<and> slice_supported es \<and> slice_service es = NamespacedName_of spn \<and>
        (spn, e) \<in> slice_candidates x c0 (NamespacedName_of spn) (slice_info_of es)}"

definition lists_live ::
    "k8s_ext \<Rightarrow> slice_cache \<Rightarrow> (namespaced_name \<rightharpoonup> endpoint_slice) \<Rightarrow> service_port_name \<Rightarrow>
     endpoint list option \<Rightarrow> bool" where
  "lists_live x c0 lE spn lo \<longleftrightarrow>
     (case lo of
        None \<Rightarrow> live_candidates x c0 lE spn = {}
      | Some l \<Rightarrow> l \<noteq> [] \<and> set l \<subseteq> live_candidates x c0 lE spn \<and>
          sorted_wrt (<) (map endpoint_String l) \<and> distinct (map (endpoint_IP x) l) \<and>
          (\<forall>e \<in> live_candidates x c0 lE spn.
             \<exists>e' \<in> set l. endpoint_IP x e' = endpoint_IP x e \<and> (GetIsLocal e \<longrightarrow> GetIsLocal e')))"

lemma serves_candidates:
  assumes "serves lE live" and "filed_slices lE"
  shows "{e. (spn, e) \<in> candidates x c0 (NamespacedName_of spn) (live (NamespacedName_of spn))} =
     live_candidates x c0 lE spn"
proof -
  let ?nn = "NamespacedName_of spn"
  have eq: "(\<exists>name. fmlookup (live ?nn) name = Some si) \<longleftrightarrow>
      (\<exists>k es. lE k = Some es \<and> slice_supported es \<and> slice_service es = ?nn \<and> si = slice_info_of es)" for si
  proof
    assume "\<exists>k es. lE k = Some es \<and> slice_supported es \<and> slice_service es = ?nn \<and> si = slice_info_of es"
    then obtain es where es: "lE (slice_key es) = Some es" "slice_supported es" "slice_service es = ?nn"
        "si = slice_info_of es" using assms(2) by (auto simp: filed_slices_def)
    then have "live_slice lE ?nn (es_Name es) = Some si"
      using slice_service_namespace [of es] by (simp add: live_slice_def slice_key_def)
    then show "\<exists>name. fmlookup (live ?nn) name = Some si" using assms(1) by (auto simp: serves_def)
  next
    assume "\<exists>name. fmlookup (live ?nn) name = Some si"
    then show "\<exists>k es. lE k = Some es \<and> slice_supported es \<and> slice_service es = ?nn \<and> si = slice_info_of es"
      using assms(1) by (auto simp: serves_def live_slice_def split: option.splits if_splits)
  qed
  have "(spn, e) \<in> candidates x c0 ?nn (live ?nn) \<longleftrightarrow>
      (\<exists>si. (\<exists>name. fmlookup (live ?nn) name = Some si) \<and> (spn, e) \<in> slice_candidates x c0 ?nn si)" for e
    by (auto simp: candidates_def)
  then show ?thesis unfolding live_candidates_def eq by blast
qed

lemma drain_of_update:
  assumes "UpdateEndpointsMap x v em ect = Inr (em', ect', res)"
  shows "ect' = endpoints_drain x v ect"
proof -
  obtain ch ect1 where c: "ect_checkoutChanges x v ect = Inr (ch, ect1)"
    using assms by (auto simp: UpdateEndpointsMap_def endpoints_map_apply_def bindr_Inr_iff)
  show ?thesis using assms
    by (simp add: UpdateEndpointsMap_def endpoints_drain_def endpoints_map_apply_def c checkoutTriggerTimes_def
        Let_def split: prod.splits)
qed

lemma update_maps_slices:
  assumes "slice_tracks x p0 lS lE p" and "new_slice_proxier c0 p0" and "slice_orders so p"
  obtains p1 sres eres where "update_maps x so p = Inr (p1, sres, eres)" and "slice_tracks x p0 lS lE p1"
    and "\<forall>spn. fmlookup (serviceMap p1) spn = live_entry x lS spn"
    and "\<forall>spn. lists_live x c0 lE spn (fmlookup (endpointsMap p1) spn)"
    and "endpointsMap p1 = endpoints_commit x (so_eps so) (endpointsChanges p) (endpointsMap p)"
    and "\<forall>so' em. slice_orders so' p1 \<longrightarrow> endpoints_commit x (so_eps so') (endpointsChanges p1) em = em"
proof -
  let ?sct = "serviceChanges p" and ?ect = "endpointsChanges p"
  obtain sm sct sres where s: "UpdateServiceMap x (so_items so) (so_hc so) (serviceMap p) ?sct = (sm, sct, sres)"
    by (metis prod_cases3)
  have sm: "sm = service_commit x (so_items so) ?sct (serviceMap p)" "sct = service_drain x (so_items so) ?sct"
    using UpdateServiceMap_fst [of x "so_items so" "so_hc so" "serviceMap p" ?sct]
      UpdateServiceMap_tracker [of x "so_items so" "so_hc so" "serviceMap p" ?sct]
    by (simp_all add: s service_drain_def service_map_apply_def)
  have run: "service_run x (Some newServiceInfo) lS ?sct (serviceMap p)" and filed: "filed_slices lE"
    and leg: "service_legal (so_items so) ?sct" "slices_legal UNIV (so_eps so) ?ect"
    using assms(1,3) by (simp_all add: slice_tracks_def slice_orders_def)
  obtain live where live: "serves lE live" "slice_run x UNIV (endpointsChanges p0) live ?ect (endpointsMap p)"
    using assms(1) by (auto simp: slice_tracks_def)
  have c0: "endpointSliceCache (endpointsChanges p0) = Some c0" "trackerByServiceMap c0 = fmempty" "keeps_base c0"
    using assms(2) by (simp_all add: new_slice_proxier_def keeps_base_def newEndpointInfo_def)
  obtain em ect eres where e: "UpdateEndpointsMap x (so_eps so) (endpointsMap p) ?ect = Inr (em, ect, eres)"
    and all: "\<And>nn. \<exists>vs m. (\<forall>m. visits (vs m) m) \<and> getEndpointsMap x vs c0 nn (live nn) = Inr m \<and>
        (\<forall>spn. NamespacedName_of spn = nn \<longrightarrow> fmlookup em spn = fmlookup m spn)"
    using UpdateEndpointsMap_slice_run [OF live(2) c0(1,2) leg(2)] by blast
  have em: "em = endpoints_commit x (so_eps so) ?ect (endpointsMap p)"
    by (simp add: endpoints_commit_def e)
  note ect = drain_of_update [OF e]
  let ?p1 = "p\<lparr>serviceMap := sm, serviceChanges := sct, endpointsMap := em, endpointsChanges := ect\<rparr>"
  have u: "update_maps x so p = Inr (?p1, sres, eres)" by (simp add: update_maps_def s e)
  have t: "slice_tracks x p0 lS lE ?p1"
    using service_run_sync [OF run leg(1)] filed live(1) slice_run.sync [OF live(2) leg(2)]
    by (auto simp: slice_tracks_def sm em ect)
  have sv: "fmlookup (serviceMap ?p1) spn = live_entry x lS spn" for spn
    using svc_tracker.run_sync_exact [OF run [unfolded service_run_def] service_good_New service_pending_New leg(1)]
    by (simp add: sm live_entry_def split: option.split)
  have l: "lists_live x c0 lE spn (fmlookup (endpointsMap ?p1) spn)" for spn
  proof -
    obtain vs m where vis: "\<And>m. visits (vs m) m"
      and m: "getEndpointsMap x vs c0 (NamespacedName_of spn) (live (NamespacedName_of spn)) = Inr m"
        "fmlookup em spn = fmlookup m spn" using all [of "NamespacedName_of spn"] by blast
    have "(spn, e) \<in> candidates x c0 (NamespacedName_of spn) (live (NamespacedName_of spn)) \<longleftrightarrow>
        e \<in> live_candidates x c0 lE spn" for e
      using serves_candidates [OF live(1) filed, of spn x c0] by blast
    then show ?thesis using getEndpointsMap_listed [OF m(1) c0(3) vis, of spn] m(2)
      by (cases "fmlookup m spn") (auto simp: lists_live_def)
  qed
  have "slice_run_inv x UNIV c0 live ?ect (endpointsMap p)"
    by (rule slice_run_keeps [OF live(2) _ _ c0(1,2), of "\<lambda>m. sorted_list_of_fset (fmdom m)"])
      (simp_all add: visits_sorted)
  note again = commit_drained [OF this leg(2)]
  show ?thesis
    by (rule that [OF u t]) (use sv l again in \<open>auto simp: em ect slice_orders_def\<close>)
qed

text \<open>Rule induction over a run, with the configs and the handlers resolved.\<close>

lemma slice_cluster_run_handlers [consumes 1, case_names start service slice sync]:
  assumes "slice_cluster_run x env p0 w0 lS lE p w"
    and "P Map.empty Map.empty p0"
    and "\<And>lS lE p prev cur r p'. P lS lE p \<Longrightarrow> informer_event service_key lS prev cur \<Longrightarrow>
       pred_option ok_service cur \<Longrightarrow> OnServiceUpdate x prev cur p = Inr (r, p') \<Longrightarrow>
       P (live_after service_key lS prev cur) lE p'"
    and "\<And>lS lE p prev cur r p'. P lS lE p \<Longrightarrow> informer_event slice_key lE prev cur \<Longrightarrow>
       good_change prev cur \<Longrightarrow> slice_change x prev cur p = Inr (r, p') \<Longrightarrow>
       P lS (live_after slice_key lE prev cur) p'"
    and "\<And>lS lE p q so w p' w'. P lS lE p \<Longrightarrow> slice_orders so p \<Longrightarrow> flagged p q \<Longrightarrow>
       syncProxyRules x env so q w = Inr (p', w') \<Longrightarrow> P lS lE p'"
  shows "P lS lE p"
  using assms(1)
proof (induction rule: slice_cluster_run.induct)
  case start
  show ?case by (rule assms(2))
next
  case (service lS lE p w n prev cur synced resync so e p' w')
  then have "on_proxier (OnServiceUpdate x prev cur) (p, w) = Inr (p', w')"
    by (simp only: services.notify_change_iff [OF service.hyps(2)])
  then obtain r where "OnServiceUpdate x prev cur p = Inr (r, p')"
    by (auto simp: on_proxier_def bindr_Inr_iff)
  then show ?case by (rule assms(3) [OF service.IH service.hyps(3,4)])
next
  case (service_stray lS lE p w n synced resync so e p' w')
  then show ?case using services.notify_stray_same [OF service_stray.hyps(2,3)] by simp
next
  case (slice lS lE p w n prev cur synced resync so e p' w')
  then obtain r where "slice_change x prev cur p = Inr (r, p')"
    using notify_slice [OF slice.hyps(2,5)] by (auto simp: on_proxier_def bindr_Inr_iff)
  then show ?case by (rule assms(4) [OF slice.IH slice.hyps(3,4)])
next
  case (slice_stray lS lE p w n synced resync so e p' w')
  then show ?case using notify_slice_stray [OF slice_stray.hyps(2,3)] by simp
next
  case (services_synced lS lE p w so wait synced resync p' w')
  then have "p' = p \<or> (\<exists>b. syncProxyRules x env so (setInitialized b (p\<lparr>servicesSynced := True\<rparr>)) w = Inr (p', w'))"
    by (auto simp: RunServiceConfig_def conf_defs OnServiceSynced_def Let_def split: if_splits)
  then show ?case
    by (elim disjE exE) (simp add: services_synced.IH,
      rule assms(5) [OF services_synced.IH services_synced.hyps(2)], auto simp: flagged_def)
next
  case (slices_synced lS lE p w so wait synced resync p' w')
  then have "p' = p \<or> (\<exists>b. syncProxyRules x env so (setInitialized b (p\<lparr>endpointSlicesSynced := True\<rparr>)) w = Inr (p', w'))"
    by (auto simp: RunEndpointSliceConfig_def slices_conf_defs OnEndpointSlicesSynced_def Let_def split: if_splits)
  then show ?case
    by (elim disjE exE) (simp add: slices_synced.IH,
      rule assms(5) [OF slices_synced.IH slices_synced.hyps(2)], auto simp: flagged_def)
next
  case (runner lS lE p w so p' w')
  show ?case by (rule assms(5) [OF runner.IH runner.hyps(2) _ runner.hyps(3)]) (simp add: flagged_def)
qed

lemma slice_cluster_run_tracks:
  assumes "slice_cluster_run x env p0 w0 lS lE p w" and "new_slice_proxier c0 p0"
  shows "slice_tracks x p0 lS lE p"
  using assms(1)
proof (induction rule: slice_cluster_run_handlers)
  case start
  show ?case by (rule slice_tracks_start [OF assms(2)])
next
  case (sync lS lE p q so w p' w')
  note frame = flagged_frame [OF sync(3)]
  have q: "slice_tracks x p0 lS lE q" "slice_orders so q"
    using sync(1,2) by (simp_all add: slice_tracks_def slice_orders_def frame)
  obtain p1 sres eres where u: "update_maps x so q = Inr (p1, sres, eres)" "slice_tracks x p0 lS lE p1"
    by (rule update_maps_slices [OF q(1) assms(2) q(2)])
  consider "p' = q" | "p' = p1\<lparr>gracefuldeleteManager := gracefuldeleteManager p'\<rparr>"
    using sync_frame [OF sync(4)] u(1) by auto
  then show ?case
  proof cases
    case 2
    show ?thesis by (subst 2) (use u(2) in \<open>simp add: slice_tracks_def\<close>)
  qed (use q(1) in simp)
qed (use slice_tracks_service slice_tracks_slice in blast)+

lemma slice_cluster_run_graceful:
  assumes "slice_cluster_run x env p0 w0 lS lE p w" and "new_slice_proxier c0 p0"
  shows "gracefuldeleteManager p = {||}"
  using assms(1)
proof (induction rule: slice_cluster_run_handlers)
  case start
  show ?case using assms(2) by (simp add: new_slice_proxier_def)
next
  case (slice lS lE p prev cur r p')
  then show ?case
    by (cases cur) (auto simp: slice_event_def bindr_Inr_iff Let_def split: prod.splits)
next
  case (sync lS lE p q so w p' w')
  then show ?case using sync_graceful [OF sync(4)] flagged_frame [OF sync(3)] by simp
qed (auto simp: OnServiceUpdate_def bindr_Inr_iff Let_def split: prod.splits)

section \<open>Valid slices\<close>

text \<open>The addresses of a slice need no escaping.\<close>

definition valid_slices :: "(namespaced_name \<rightharpoonup> endpoint_slice) \<Rightarrow> bool" where
  "valid_slices lE \<longleftrightarrow> (\<forall>k es. lE k = Some es \<longrightarrow>
     (\<forall>ep \<in> set (es_Endpoints es). \<forall>a \<in> set (sle_Addresses ep). \<forall>q \<in> set (es_Ports es). \<forall>n.
        slp_Port q = Some n \<longrightarrow> url_plain (SERVER_PREFIX @ JoinHostPort a (Itoa n))))"

lemma slice_info_of_parts:
  assumes "ok_slice es"
  shows "set (si_Ports (slice_info_of es)) \<subseteq> set (es_Ports es)"
    and "i \<in> set (si_Endpoints (slice_info_of es)) \<Longrightarrow>
      \<exists>ep \<in> set (es_Endpoints es). ei_Addresses i = sle_Addresses ep"
proof -
  have "\<not> list_ex (\<lambda>p. slp_Port p = None) (es_Ports es)"
    using assms by (auto simp: ok_slice_def list_ex_iff)
  note d = slice_info_of_def newEndpointSliceInfo_def sort_ports_def sort_by_address_def this
  show "set (si_Ports (slice_info_of es)) \<subseteq> set (es_Ports es)" by (simp add: d)
  show "\<exists>ep \<in> set (es_Endpoints es). ei_Addresses i = sle_Addresses ep"
    if "i \<in> set (si_Endpoints (slice_info_of es))" using that by (auto simp: d)
qed

lemma candidate_plain:
  assumes "e \<in> live_candidates x c0 lE spn" and "valid_slices lE" and "filed_slices lE"
    and mk: "cache_makeEndpointInfo c0 = newEndpointInfo"
  shows "url_plain (SERVER_PREFIX @ endpoint_String e)"
proof -
  obtain k es q where es: "lE k = Some es" and q: "q \<in> set (si_Ports (slice_info_of es))"
      "(spn, e) \<in> port_candidates x c0 (NamespacedName_of spn) (slice_info_of es) q"
    using assms(1) by (auto simp: live_candidates_def slice_candidates_def)
  have ok: "ok_slice es" using es assms(3) by (simp add: filed_slices_def)
  obtain n i where n: "slp_Port q = Some n" and i: "i \<in> set (si_Endpoints (slice_info_of es))"
      "endpoint_candidate x c0 n i = Some e"
    using q(2) by (auto simp: port_candidates_def split: option.splits if_splits)
  have "\<exists>a \<in> set (ei_Addresses i). endpoint_String e = JoinHostPort a (Itoa n)"
    using i(2) by (auto simp: endpoint_candidate_def mk newEndpointInfo_def newBaseEndpointInfo_def
        endpoint_String_def split: list.splits if_splits)
  then obtain a where a: "a \<in> set (ei_Addresses i)" "endpoint_String e = JoinHostPort a (Itoa n)" ..
  show ?thesis using assms(2) es n q(1) slice_info_of_parts [OF ok] i(1) a unfolding valid_slices_def
    by (metis subsetD)
qed

lemma slice_names:
  assumes "valid_services lS" and "valid_slices lE" and "filed_slices lE"
    and "cache_makeEndpointInfo c0 = newEndpointInfo"
    and "\<And>spn. fmlookup (serviceMap p1) spn = live_entry x lS spn"
    and "\<And>spn. lists_live x c0 lE spn (fmlookup (endpointsMap p1) spn)"
  shows "names_ok p1" and "names_differ p1"
proof -
  show "names_differ p1" by (rule service_names(2) [OF assms(1,5)])
  have "url_plain (SERVER_PREFIX @ endpoint_String e)" if "e \<in> set (port_endpoints p1 spn)" for spn e
  proof -
    from that have "e \<in> live_candidates x c0 lE spn" using assms(6) [of spn]
      by (auto simp: port_endpoints_def lists_live_def split: option.splits)
    then show ?thesis using candidate_plain assms(2-4) by blast
  qed
  then show "names_ok p1" using service_names(1) [OF assms(1,5)] by (simp add: names_ok_def)
qed

section \<open>No panics\<close>

lemma slice_event_total:
  assumes "ok_slice es" and "endpointSliceCache (endpointsChanges p) \<noteq> None"
  shows "\<exists>r. slice_event x (Some es) gone p = Inr r"
proof -
  have "EndpointSliceUpdate x (Some es) gone (endpointsChanges p) \<noteq> Inl e" for e
    using assms by (auto simp: EndpointSliceUpdate_panics ok_slice_def)
  then show ?thesis
    by (cases "EndpointSliceUpdate x (Some es) gone (endpointsChanges p)")
      (auto simp: slice_event_def Let_def split: prod.splits)
qed

lemma slice_change_total:
  assumes "slice_tracks x p0 lS lE p" and "new_slice_proxier c0 p0"
    and "informer_event slice_key lE prev cur" and "good_change prev cur"
  shows "\<exists>r. slice_change x prev cur p = Inr r"
proof -
  obtain live where run: "slice_run x UNIV (endpointsChanges p0) live (endpointsChanges p) (endpointsMap p)"
    and filed: "filed_slices lE" using assms(1) by (auto simp: slice_tracks_def)
  obtain es where k: "prev = lE (slice_key es)" "cur = Some es \<or> cur = None \<and> prev = Some es"
    by (rule informer_event_object [OF assms(3)])
  have "ok_slice es" using k filed assms(4) by (auto simp: filed_slices_def good_change_def)
  moreover have "endpointSliceCache (endpointsChanges p) \<noteq> None"
    using slice_run_keeps [OF run, of "\<lambda>m. sorted_list_of_fset (fmdom m)" c0] assms(2)
    by (auto simp: slice_run_inv_def new_slice_proxier_def visits_sorted)
  ultimately show ?thesis using k(2) slice_event_total by auto
qed

text \<open>A notification as an informer makes it: a new object is not nil, only a deletion has none.\<close>

lemma notify_slice_total:
  assumes "change_of as_slice n = Some (prev, cur)" and "cur = None \<longrightarrow> (\<exists>obj. n = Deleted obj)"
    and "slice_change x prev cur p = Inr r"
  shows "\<exists>st. notify (snd (NewEndpointSliceConfig synced resync)) (slices_conf x env so synced resync) n (p, w) =
     Inr (None, st)"
  using assms
  by (cases n; cases cur) (auto simp: slices_conf_defs handleAddEndpointSlice_def handleUpdateEndpointSlice_def
      handleDeleteEndpointSlice_def OnEndpointSliceAdd_def OnEndpointSliceUpdate_def
      OnEndpointSliceDelete_def on_proxier_def split: option.splits prod.splits)

lemma slice_sync_total:
  assumes "slice_cluster_run x env p0 w0 lS lE p w" and "new_slice_proxier c0 p0"
    and "no_nulls env" and "slice_orders so p"
  shows "\<exists>st. syncProxyRules x env so p w = Inr st"
proof -
  obtain p1 sres eres where "update_maps x so p = Inr (p1, sres, eres)"
    by (rule update_maps_slices [OF slice_cluster_run_tracks [OF assms(1,2)] assms(2,4)])
  then show ?thesis using sync_total [OF assms(3), of p x so w] by blast
qed

section \<open>Properties\<close>

text \<open>
  C4. With slices: however the informers notify the configs and whenever the syncs run, when the
  proxier updates its maps it does not panic, the service map holds exactly the entries of the
  live services, and the endpoints map lists for every service port exactly what the live
  slices of the service list: one endpoint per address, local ones preferred, sorted. Every sync
  may visit the slices of a service in another order. The updates in the run leave the label that
  names the service of a slice as it is (\<open>good_change\<close>); what becomes of a slice that moves is C24.
\<close>

theorem slice_cluster_maps_exact:
  assumes "slice_cluster_run x env p0 w0 lS lE p w" and "new_slice_proxier c0 p0"
    and "slice_orders so p"
  shows "\<exists>p1 sres eres. update_maps x so p = Inr (p1, sres, eres) \<and>
     (\<forall>spn. fmlookup (serviceMap p1) spn = live_entry x lS spn) \<and>
     (\<forall>spn. lists_live x c0 lE spn (fmlookup (endpointsMap p1) spn))"
proof -
  obtain p1 sres eres where "update_maps x so p = Inr (p1, sres, eres)"
      "\<forall>spn. fmlookup (serviceMap p1) spn = live_entry x lS spn"
      "\<forall>spn. lists_live x c0 lE spn (fmlookup (endpointsMap p1) spn)"
    by (rule update_maps_slices [OF slice_cluster_run_tracks [OF assms(1,2)] assms(2,3)])
  then show ?thesis by blast
qed

text \<open>
  C3. End to end with slices: in a run of valid objects, once the proxier is initialised and
  HAProxy holds only a store the proxier owns in which no backend is without its frontend, a
  sync succeeds, and the one after it leaves in HAProxy exactly what the live services and slices
  ask for: under the name of every port of a live service (that is not skipped, with a mode and a
  load balancing the server knows) the wanted
  backend, frontend and bind and the servers of the endpoints that its live slices list, and no
  other frontend than these and \<open>stats\<close>. As in C4 every sync may visit the slices in another order,
  and slices do not move from one service to another.
\<close>

theorem slice_cluster_converges:
  assumes "slice_cluster_run x env p0 w0 lS lE p w" and "new_slice_proxier c0 p0"
    and "haproxy_store env view ok" and "ok w" and "own_store (view w)" and "paired (view w)"
    and "isInitialized p" and "valid_services lS" and "valid_slices lE"
    and "legal_orders so" and "slice_orders so p"
  shows "\<exists>p1 w1. syncProxyRules x env so p w = Inr (p1, w1) \<and>
     (\<forall>so'. legal_orders so' \<longrightarrow> slice_orders so' p1 \<longrightarrow>
        (\<exists>p2 w2 E. syncProxyRules x env so' p1 w1 = Inr (p2, w2) \<and>
           (\<forall>spn. lists_live x c0 lE spn (E spn)) \<and> holds_exactly x p (live_entry x lS) E (view w2)))"
proof -
  note t = slice_cluster_run_tracks [OF assms(1,2)]
  have filed: "filed_slices lE" using t by (simp add: slice_tracks_def)
  have mk: "cache_makeEndpointInfo c0 = newEndpointInfo" using assms(2) by (simp add: new_slice_proxier_def)
  note names = slice_names [OF assms(8,9) filed mk]
  have g: "gracefuldeleteManager p = {||}" by (rule slice_cluster_run_graceful [OF assms(1,2)])
  obtain p1 sres eres where u1: "update_maps x so p = Inr (p1, sres, eres)" and t1: "slice_tracks x p0 lS lE p1"
    and s1: "\<forall>spn. fmlookup (serviceMap p1) spn = live_entry x lS spn"
    and l1: "\<forall>spn. lists_live x c0 lE spn (fmlookup (endpointsMap p1) spn)"
    and again: "\<forall>so' em. slice_orders so' p1 \<longrightarrow> endpoints_commit x (so_eps so') (endpointsChanges p1) em = em"
    by (rule update_maps_slices [OF t assms(2,11)])
  note set1 = update_maps_same_settings [OF u1]
  have r1: "ready x so p p1" using assms(7,10) u1 g names [OF s1 [rule_format] l1 [rule_format]] by (auto simp: ready_def)
  obtain w1 where w1: "syncProxyRules x env so p w = Inr (p1, w1)"
    using haproxy_store.ready_sync [OF assms(3-5) r1] by blast
  have "\<exists>p2 w2 E. syncProxyRules x env so' p1 w1 = Inr (p2, w2) \<and>
      (\<forall>spn. lists_live x c0 lE spn (E spn)) \<and> holds_exactly x p (live_entry x lS) E (view w2)"
    if so': "legal_orders so'" "slice_orders so' p1" for so'
  proof -
    obtain p2 sres' eres' where u2: "update_maps x so' p1 = Inr (p2, sres', eres')"
      and s2: "\<forall>spn. fmlookup (serviceMap p2) spn = live_entry x lS spn"
      and l2: "\<forall>spn. lists_live x c0 lE spn (fmlookup (endpointsMap p2) spn)"
      and e2: "endpointsMap p2 = endpoints_commit x (so_eps so') (endpointsChanges p1) (endpointsMap p1)"
      by (rule update_maps_slices [OF t1 assms(2) so'(2)])
    have same: "serviceMap p2 = serviceMap p1" "endpointsMap p2 = endpointsMap p1"
      using s1 s2 e2 again so'(2) by (auto intro!: fmap_ext)
    have r2: "ready x so' p1 p2" using assms(7) so'(1) u2 g set1 names [OF s2 [rule_format] l2 [rule_format]] by (auto simp: ready_def)
    obtain w1' w2 where "syncProxyRules x env so p w = Inr (p1, w1')" "syncProxyRules x env so' p1 w1' = Inr (p2, w2)"
        "holds_exactly x p (fmlookup (serviceMap p1)) (fmlookup (endpointsMap p1)) (view w2)"
      using two_syncs_hold [OF assms(3-6) r1 r2 same] by blast
    moreover have "fmlookup (serviceMap p1) = live_entry x lS" using s1 by auto
    ultimately show ?thesis using w1 l1 by (intro exI [of _ p2] exI [of _ w2] exI [of _ "fmlookup (endpointsMap p1)"]) simp
  qed
  then show ?thesis using w1 by blast
qed


section \<open>Slices that move\<close>

definition effective_in :: "proxier \<Rightarrow> namespaced_name \<Rightarrow> string \<Rightarrow> slice_info option" where
  "effective_in p nn name =
     (case endpointSliceCache (endpointsChanges p) of None \<Rightarrow> None | Some c \<Rightarrow> effective c nn name)"

definition cache_inv_in :: "proxier \<Rightarrow> bool" where
  "cache_inv_in p \<longleftrightarrow> (\<exists>c. endpointSliceCache (endpointsChanges p) = Some c \<and> cache_inv c)"

lemma slice_event_effective:
  assumes "slice_event x (Some es) gone p = Inr (r, p')" and "slice_supported es" and "cache_inv_in p"
  shows "cache_inv_in p' \<and> (\<exists>si. newEndpointSliceInfo es gone = Inr si \<and>
     (\<forall>nn name. effective_in p' nn name =
        (if nn = slice_service es \<and> name = es_Name es then (if gone then None else Some si)
         else effective_in p nn name)))"
proof -
  obtain c where c: "endpointSliceCache (endpointsChanges p) = Some c" "cache_inv c"
    using assms(3) by (auto simp: cache_inv_in_def)
  obtain ch ect where ect: "EndpointSliceUpdate x (Some es) gone (endpointsChanges p) = Inr (ch, ect)"
      "p' = p\<lparr>endpointsChanges := ect\<rparr>"
    using assms(1) unfolding slice_event_def Let_def bindr_Inr_iff by auto
  obtain c' where c': "updatePending c es gone = Inr (ch, c')" "endpointSliceCache ect = Some c'"
    using EndpointSliceUpdate_supported [OF assms(2) c(1) ect(1)] by blast
  note keys = slice_keys [OF assms(2)]
  obtain si where si: "newEndpointSliceInfo es gone = Inr si"
    using c'(1) by (auto simp: updatePending_def keys bindr_Inr_iff)
  show ?thesis using updatePending_effective [OF c(2) keys si] c'(1) si
    by (auto simp: effective_in_def cache_inv_in_def c(1) c'(2) ect(2))
qed

text \<open>
  C24. A slice whose label names another service after an update stays with its old service for
  good: neither the update nor the later deletion of the slice removes it from there, because
  the handler of an update looks at the new slice only and a deletion goes to the service of
  the slice that is deleted.
\<close>

theorem moved_slice_stays:
  assumes "OnEndpointSliceUpdate x (Some old) (Some new) p = Inr (r1, p1)"
    and "OnEndpointSliceDelete x (Some new) p1 = Inr (r2, p2)"
    and "slice_supported new" and "slice_service new \<noteq> slice_service old" and "cache_inv_in p"
    and "effective_in p (slice_service old) (es_Name old) = Some si"
  shows "effective_in p1 (slice_service old) (es_Name old) = Some si \<and>
     effective_in p2 (slice_service old) (es_Name old) = Some si \<and>
     effective_in p2 (slice_service new) (es_Name new) = None"
proof -
  have e: "slice_event x (Some new) False p = Inr (r1, p1)" "slice_event x (Some new) True p1 = Inr (r2, p2)"
    using assms(1,2) by (simp_all add: OnEndpointSliceUpdate_def OnEndpointSliceDelete_def)
  note u = slice_event_effective [OF e(1) assms(3,5)]
  then show ?thesis using slice_event_effective [OF e(2) assms(3)] assms(4,6) by auto
qed


section \<open>A closed run\<close>

text \<open>
  Slices are enabled; the caches of services and slices are synced while nothing is there yet,
  then the service \<open>shop/web\<close> and a slice of it are added.
\<close>

definition shop_slice :: "string \<Rightarrow> endpoint_slice" where
  "shop_slice svc =
     \<lparr>es_Namespace = ''shop'', es_Name = ''web-1'', es_Labels = fmupd LabelServiceName svc fmempty,
      es_Annotations = fmempty, AddressType = ''IPv4'',
      es_Endpoints = [\<lparr>sle_Addresses = [''10.1.0.5''], Ready = Some True, sle_Topology = None\<rparr>],
      es_Ports = [\<lparr>slp_Name = Some ''http'', slp_Port = Some 8080, slp_Protocol = Some ''TCP'', slp_AppProtocol = None\<rparr>]\<rparr>"

definition shop_cache :: slice_cache where
  "shop_cache = NewEndpointSliceCache ''node1'' (Some False) (Some newEndpointInfo)"

definition slice_new :: proxier where
  "slice_new = shop_new\<lparr>endpointsChanges := NewEndpointChangeTracker ''node1'' (Some newEndpointInfo) (Some False) True\<rparr>"

definition slice_started :: proxier where
  "slice_started = setInitialized True (setInitialized False (slice_new\<lparr>servicesSynced := True\<rparr>)\<lparr>endpointSlicesSynced := True\<rparr>)"

abbreviation by_name :: "slices \<Rightarrow> string list" where
  "by_name \<equiv> (\<lambda>m. sorted_list_of_fset (fmdom m))"

text \<open>Orders for whatever is pending.\<close>

definition slice_orders_at :: "proxier \<Rightarrow> sync_orders" where
  "slice_orders_at p = web_sync_orders\<lparr>so_items := sorted_list_of_fset (fmdom (items (serviceChanges p))),
     so_eps := web_orders\<lparr>ord_of :=
       (case endpointSliceCache (endpointsChanges p) of None \<Rightarrow> []
        | Some c \<Rightarrow> sorted_list_of_fset (fmdom (trackerByServiceMap c)))\<rparr>\<rparr>"

lemma slice_orders_at_ok: "legal_orders (slice_orders_at p)" "slice_orders (slice_orders_at p) p"
  using web_sync_orders_legal
  by (simp_all add: legal_orders_def slice_orders_at_def slice_orders_def service_legal_def slices_legal_def
      visits_sorted web_orders_def)

lemma sorted_list_of_no_keys [simp]: "sorted_list_of_fset {||} = []"
  by (simp add: sorted_list_of_fset.rep_eq)

lemma slice_new_proxier: "new_slice_proxier shop_cache slice_new"
  using shop_new_proxier
  by (simp add: new_slice_proxier_def slice_new_def new_proxier_def fresh_def flags_def isInitialized_def)
    (simp add: NewEndpointChangeTracker_def shop_cache_def NewEndpointSliceCache_def)

lemma slice_started_fields:
  "serviceChanges slice_started = NewServiceChangeTracker (Some newServiceInfo)" "serviceMap slice_started = fmempty"
  "endpointsChanges slice_started = endpointsChanges slice_new" "endpointsMap slice_started = fmempty"
  "gracefuldeleteManager slice_started = {||}" "isInitialized slice_started" "px_mode slice_started = ''local''"
  "serverAlgorithm slice_started = ''roundrobin''"
  using slice_new_proxier
  by (simp_all add: slice_started_def new_slice_proxier_def)
    (simp_all add: setInitialized_def new_slice_proxier_def isInitialized_def slice_new_def shop_new_def
      web_new_def web_proxier_def)

lemma slice_idle: "\<exists>sres eres. update_maps simple_ext (slice_orders_at slice_started) slice_started = Inr (slice_started, sres, eres)"
proof -
  have c: "endpointSliceCache (endpointsChanges slice_new) = Some shop_cache" "trackerByServiceMap shop_cache = fmempty"
    using slice_new_proxier by (simp_all add: new_slice_proxier_def)
  have t: "(endpointsChanges slice_new)\<lparr>endpointSliceCache := Some shop_cache, lastChangeTriggerTimes := fmempty\<rparr> =
      endpointsChanges slice_new"
    by (simp add: slice_new_def NewEndpointChangeTracker_def shop_cache_def)
  have s: "\<exists>sres. UpdateServiceMap simple_ext [] hc fmempty (NewServiceChangeTracker (Some newServiceInfo)) =
      (fmempty, NewServiceChangeTracker (Some newServiceInfo), sres)" for hc
    by (simp add: UpdateServiceMap_def service_map_apply_def Let_def NewServiceChangeTracker_def split: prod.splits)
  let ?o = "slice_orders_at slice_started"
  have o: "so_items ?o = []" "ord_of (so_eps ?o) = []" "vs_of (so_eps ?o) = by_name"
    by (simp_all add: slice_orders_at_def slice_started_fields NewServiceChangeTracker_def c web_orders_def)
  have "cache_checkoutChanges simple_ext by_name [] shop_cache = Inr ([], shop_cache)"
    by (simp add: cache_checkoutChanges_def)
  then obtain eres where e: "UpdateEndpointsMap simple_ext (so_eps ?o) fmempty (endpointsChanges slice_new) =
      Inr (fmempty, endpointsChanges slice_new, eres)"
    using UpdateEndpointsMap_slices [OF c(1), of simple_ext "so_eps ?o" "[]" shop_cache fmempty] o t by auto
  have "slice_started\<lparr>serviceMap := serviceMap slice_started, serviceChanges := serviceChanges slice_started,
      endpointsMap := endpointsMap slice_started, endpointsChanges := endpointsChanges slice_started\<rparr> = slice_started"
    by simp
  then have "slice_started\<lparr>serviceMap := fmempty, serviceChanges := NewServiceChangeTracker (Some newServiceInfo),
      endpointsMap := fmempty, endpointsChanges := endpointsChanges slice_new\<rparr> = slice_started"
    unfolding slice_started_fields .
  then show ?thesis using s [of "so_hc ?o"] by (auto simp: update_maps_def slice_started_fields o e)
qed


lemma slice_started_run:
  "slice_cluster_run simple_ext dp_env slice_new empty_dp Map.empty Map.empty slice_started empty_dp"
proof -
  let ?p1 = "setInitialized False (slice_new\<lparr>servicesSynced := True\<rparr>)"
  let ?wait = "\<lambda>_ _ _. True"
  have f: "serviceMap slice_new = fmempty" "\<not> endpointsSynced slice_new" "\<not> isInitialized slice_new"
    by (simp_all add: slice_new_def shop_new_def isInitialized_def) (simp_all add: web_new_def)
  have "RunServiceConfig ?wait (services_conf simple_ext dp_env (slice_orders_at slice_new) (\<lambda>_. True) 0) (slice_new, empty_dp) =
      Inr (?p1, empty_dp)"
    by (simp add: RunServiceConfig_def conf_defs OnServiceSynced_def Let_def sync_uninitialized f)
  from slice_cluster_run.services_synced [OF slice_cluster_run.start slice_orders_at_ok(2) this] have
    r1: "slice_cluster_run simple_ext dp_env slice_new empty_dp Map.empty Map.empty ?p1 empty_dp" .
  have same: "slice_orders_at slice_started = slice_orders_at ?p1"
    by (simp add: slice_orders_at_def slice_started_def setInitialized_def)
  have o: "slice_orders (slice_orders_at slice_started) ?p1" unfolding same by (rule slice_orders_at_ok)
  have sync: "syncProxyRules simple_ext dp_env (slice_orders_at slice_started) slice_started empty_dp = Inr (slice_started, empty_dp)"
    using slice_idle idle_sync [of simple_ext "slice_orders_at slice_started" slice_started] slice_started_fields(2,5) by blast
  have "RunEndpointSliceConfig ?wait (slices_conf simple_ext dp_env (slice_orders_at slice_started) (\<lambda>_. True) 0) (?p1, empty_dp) =
      Inr (slice_started, empty_dp)"
    using sync by (simp add: RunEndpointSliceConfig_def slices_conf_defs OnEndpointSlicesSynced_def Let_def slice_started_def)
  from slice_cluster_run.slices_synced [OF r1 o this] show ?thesis .
qed

lemma shop_slice_facts:
  "ok_slice (shop_slice svc)" "slice_key (shop_slice svc) = NamespacedName ''shop'' ''web-1''"
  "svc \<noteq> '''' \<Longrightarrow> slice_supported (shop_slice svc)" "slice_service (shop_slice svc) = NamespacedName ''shop'' svc"
  "es_Name (shop_slice svc) = ''web-1''"
  by (simp_all add: shop_slice_def ok_slice_def slice_key_def slice_service_def slice_supported_def
      endpointSliceCacheKeys_def supportedEndpointSliceAddressTypes_def)

abbreviation shop_slices :: "namespaced_name \<rightharpoonup> endpoint_slice" where
  "shop_slices \<equiv> [NamespacedName ''shop'' ''web-1'' \<mapsto> shop_slice ''web'']"

lemma shop_slice_run:
  obtains p where "slice_cluster_run simple_ext dp_env slice_new empty_dp shop_services shop_slices p empty_dp"
    and "isInitialized p" and "px_mode p = ''local''" and "serverAlgorithm p = ''roundrobin''"
proof -
  let ?run = "slice_cluster_run simple_ext dp_env slice_new empty_dp"
  have key: "service_key web_service = web_nn" by (simp add: service_key_def web_service_def)
  have okS: "pred_option ok_service (Some web_service)" by (simp add: ok_service_def web_service_def)
  note t = slice_cluster_run_tracks [OF slice_started_run slice_new_proxier]
  have ev: "informer_event service_key Map.empty None (Some web_service)"
    by (simp add: informer_event_def event_key_def)
  obtain r sct where s: "sct_update simple_ext None (Some web_service) (serviceChanges slice_started) = Inr (r, sct)"
    using service_run_progress [OF _ ev okS] t unfolding slice_tracks_def by blast
  let ?p1 = "slice_started\<lparr>serviceChanges := sct\<rparr>"
  have "notify (snd (NewServiceConfig (\<lambda>_. True) 0)) (services_conf simple_ext dp_env (shop_orders []) (\<lambda>_. True) 0)
      (Added (ObjService (Some web_service))) (slice_started, empty_dp) = Inr (None, (?p1, empty_dp))"
    by (subst services.notify_change_iff [where a = None and b = "Some web_service"])
      (simp_all add: on_proxier_def OnServiceUpdate_def s Let_def)
  from slice_cluster_run.service [OF slice_started_run _ ev okS this]
  have r1: "?run shop_services Map.empty ?p1 empty_dp"
    by (simp add: event_key_def live_after_def key)
  have evL: "informer_event slice_key Map.empty None (Some (shop_slice ''web''))"
    by (simp add: informer_event_def event_key_def)
  have good: "good_change None (Some (shop_slice ''web''))"
    by (simp add: good_change_def shop_slice_facts)
  have "endpointSliceCache (endpointsChanges ?p1) \<noteq> None"
    using slice_new_proxier by (simp add: slice_started_fields new_slice_proxier_def)
  then obtain b p2 where p2: "slice_event simple_ext (Some (shop_slice ''web'')) False ?p1 = Inr (b, p2)"
    using slice_event_total [OF shop_slice_facts(1)] by (metis prod.exhaust)
  then have frame: "isInitialized p2 = isInitialized ?p1 \<and> px_mode p2 = px_mode ?p1 \<and>
      serverAlgorithm p2 = serverAlgorithm ?p1"
    unfolding slice_event_def Let_def bindr_Inr_iff by (auto simp: isInitialized_def)
  have n: "change_of as_slice (Added (ObjSlice (Some (shop_slice ''web'')))) = Some (None, Some (shop_slice ''web''))" by simp
  have "notify (snd (NewEndpointSliceConfig (\<lambda>_. True) 0)) (slices_conf simple_ext dp_env (shop_orders []) (\<lambda>_. True) 0)
      (Added (ObjSlice (Some (shop_slice ''web'')))) (?p1, empty_dp) = Inr (None, (p2, empty_dp))"
    using p2 by (simp add: slices_conf_defs handleAddEndpointSlice_def OnEndpointSliceAdd_def on_proxier_def)
  from slice_cluster_run.slice [OF r1 n evL good this]
  have "?run shop_services shop_slices p2 empty_dp"
    by (simp add: event_key_def live_after_def shop_slice_facts)
  moreover have "isInitialized p2" "px_mode p2 = ''local''" "serverAlgorithm p2 = ''roundrobin''"
    using frame slice_started_fields(6-8) by (simp_all add: isInitialized_def)
  ultimately show ?thesis by (rule that)
qed


section \<open>Witnesses\<close>

definition shop_endpoint :: endpoint where
  "shop_endpoint = EndpointsInfo \<lparr>Endpoint = ''10.1.0.5:8080'', IsLocal = False, Topology = None\<rparr> ''''"

lemma shop_slice_info:
  "slice_info_of (shop_slice svc) =
     \<lparr>si_Ports = [\<lparr>slp_Name = Some ''http'', slp_Port = Some 8080, slp_Protocol = Some ''TCP'', slp_AppProtocol = None\<rparr>],
      si_Endpoints = [\<lparr>ei_Addresses = [''10.1.0.5''], ei_Topology = None\<rparr>], Remove = False\<rparr>"
  by (simp add: slice_info_of_def newEndpointSliceInfo_def shop_slice_def sort_ports_def sort_by_address_def)

lemma shop_candidates: "live_candidates simple_ext shop_cache shop_slices web_name = {shop_endpoint}"
proof -
  have "Itoa 8080 = ''8080''" by (simp add: Itoa_eval)
  then have "endpoint_candidate simple_ext shop_cache 8080 \<lparr>ei_Addresses = [''10.1.0.5''], ei_Topology = None\<rparr> =
      Some shop_endpoint"
    by (simp add: endpoint_candidate_def shop_cache_def NewEndpointSliceCache_def newBaseEndpointInfo_def
        JoinHostPort_def newEndpointInfo_def cache_isLocal_def topology_host_def shop_endpoint_def simple_ext_def)
  then show ?thesis
    by (auto simp: live_candidates_def shop_slice_facts slice_candidates_def shop_slice_info port_candidates_def web_name_def)
qed

lemma shop_listed: "lists_live simple_ext shop_cache shop_slices web_name lo \<Longrightarrow> lo = Some [shop_endpoint]"
proof (cases lo)
  case (Some l)
  assume l: "lists_live simple_ext shop_cache shop_slices web_name lo"
  then have "l \<noteq> []" "set l \<subseteq> {shop_endpoint}" "distinct (map (endpoint_IP simple_ext) l)"
    using Some by (simp_all add: lists_live_def shop_candidates)
  then show ?thesis using Some by (cases l; cases "tl l") auto
qed (simp add: lists_live_def shop_candidates)

theorem slice_cluster_maps_exact_witness:
  "\<exists>p p1 sres eres. slice_cluster_run simple_ext dp_env slice_new empty_dp shop_services shop_slices p empty_dp \<and>
     update_maps simple_ext (slice_orders_at p) p = Inr (p1, sres, eres) \<and>
     fmlookup (serviceMap p1) web_name = Some (ServiceInfo shop_info ''shop/web:http'') \<and>
     fmlookup (endpointsMap p1) web_name = Some [shop_endpoint]"
proof -
  obtain p where p: "slice_cluster_run simple_ext dp_env slice_new empty_dp shop_services shop_slices p empty_dp"
    by (rule shop_slice_run)
  show ?thesis
    using slice_cluster_maps_exact [OF p slice_new_proxier slice_orders_at_ok(2)] p shop_entry shop_listed
    by metis
qed

lemma shop_valid_slices: "valid_slices shop_slices"
proof -
  have "Itoa 8080 = ''8080''" by (simp add: Itoa_eval)
  then show ?thesis by (simp add: valid_slices_def shop_slice_def url_plain_def SERVER_PREFIX_def JoinHostPort_def)
qed

theorem slice_cluster_converges_witness:
  "\<exists>p p1 w1 p2 w2. slice_cluster_run simple_ext dp_env slice_new empty_dp shop_services shop_slices p empty_dp \<and>
     syncProxyRules simple_ext dp_env (slice_orders_at p) p empty_dp = Inr (p1, w1) \<and>
     syncProxyRules simple_ext dp_env (slice_orders_at p1) p1 w1 = Inr (p2, w2) \<and>
     view_of ''shop.web.http'' (dp_store w2) =
       full_view (haproxy_objects simple_ext p web_name shop_info)
         (wanted_servers simple_ext (isHealthCheck p) [shop_endpoint])"
proof -
  obtain p where p: "slice_cluster_run simple_ext dp_env slice_new empty_dp shop_services shop_slices p empty_dp"
    "isInitialized p" "px_mode p = ''local''" "serverAlgorithm p = ''roundrobin''" by (rule shop_slice_run)
  have valid: "valid_services shop_services" using shop_valid by (simp add: valid_objects_def)
  obtain p1 w1 where s1: "syncProxyRules simple_ext dp_env (slice_orders_at p) p empty_dp = Inr (p1, w1)"
    and s2: "\<And>so'. legal_orders so' \<Longrightarrow> slice_orders so' p1 \<Longrightarrow>
        \<exists>p2 w2 E. syncProxyRules simple_ext dp_env so' p1 w1 = Inr (p2, w2) \<and>
           (\<forall>spn. lists_live simple_ext shop_cache shop_slices spn (E spn)) \<and>
           holds_exactly simple_ext p (live_entry simple_ext shop_services) E (dp_store w2)"
    using slice_cluster_converges [OF p(1) slice_new_proxier dp.haproxy_store_axioms empty_dp_ok
        empty_dp_own empty_dp_paired p(2) valid shop_valid_slices slice_orders_at_ok] by blast
  obtain p2 w2 E where w2: "syncProxyRules simple_ext dp_env (slice_orders_at p1) p1 w1 = Inr (p2, w2)"
      "\<forall>spn. lists_live simple_ext shop_cache shop_slices spn (E spn)"
      "holds_exactly simple_ext p (live_entry simple_ext shop_services) E (dp_store w2)"
    using s2 [OF slice_orders_at_ok] by blast
  have "E web_name = Some [shop_endpoint]" using w2(2) shop_listed by blast
  moreover have "\<not> skipped p (svc_name_string web_name)" using p(3) by (simp add: skipped_def)
  ultimately have "view_of (svc_name_string web_name) (dp_store w2) =
      full_view (haproxy_objects simple_ext p web_name shop_info)
        (wanted_servers simple_ext (isHealthCheck p) [shop_endpoint])"
    using w2(3) shop_entry shop_accepted [OF p(4)] by (simp add: holds_exactly_def listed_def)
  then show ?thesis using p(1) s1 w2(1) unfolding web_name_string by blast
qed

theorem moved_slice_stays_witness:
  "\<exists>r0 p r1 p1 r2 p2. OnEndpointSliceAdd simple_ext (Some (shop_slice ''web'')) slice_new = Inr (r0, p) \<and>
     OnEndpointSliceUpdate simple_ext (Some (shop_slice ''web'')) (Some (shop_slice ''api'')) p = Inr (r1, p1) \<and>
     OnEndpointSliceDelete simple_ext (Some (shop_slice ''api'')) p1 = Inr (r2, p2) \<and>
     effective_in p2 (NamespacedName ''shop'' ''web'') ''web-1'' = Some (slice_info_of (shop_slice ''web''))"
proof -
  have cache: "cache_inv_in p \<Longrightarrow> endpointSliceCache (endpointsChanges p) \<noteq> None" for p
    by (auto simp: cache_inv_in_def)
  have sup: "slice_supported (shop_slice ''web'')" "slice_supported (shop_slice ''api'')"
    by (simp_all add: shop_slice_facts)
  have i0: "cache_inv_in slice_new"
    using slice_new_proxier by (auto simp: new_slice_proxier_def cache_inv_in_def cache_inv_def)
  obtain r0 p where p: "slice_event simple_ext (Some (shop_slice ''web'')) False slice_new = Inr (r0, p)"
    using slice_event_total [OF shop_slice_facts(1) cache [OF i0]] by (metis prod.exhaust)
  note e0 = slice_event_effective [OF p sup(1) i0]
  then have i1: "cache_inv_in p" by blast
  obtain r1 p1 where p1: "slice_event simple_ext (Some (shop_slice ''api'')) False p = Inr (r1, p1)"
    using slice_event_total [OF shop_slice_facts(1) cache [OF i1]] by (metis prod.exhaust)
  have i2: "cache_inv_in p1" using slice_event_effective [OF p1 sup(2) i1] by blast
  obtain r2 p2 where p2: "slice_event simple_ext (Some (shop_slice ''api'')) True p1 = Inr (r2, p2)"
    using slice_event_total [OF shop_slice_facts(1) cache [OF i2]] by (metis prod.exhaust)
  have u: "OnEndpointSliceUpdate simple_ext (Some (shop_slice ''web'')) (Some (shop_slice ''api'')) p = Inr (r1, p1)"
      "OnEndpointSliceDelete simple_ext (Some (shop_slice ''api'')) p1 = Inr (r2, p2)"
    using p1 p2 by (simp_all add: OnEndpointSliceUpdate_def OnEndpointSliceDelete_def)
  have ne: "slice_service (shop_slice ''api'') \<noteq> slice_service (shop_slice ''web'')"
    by (simp add: shop_slice_facts)
  have "effective_in p (slice_service (shop_slice ''web'')) (es_Name (shop_slice ''web'')) =
      Some (slice_info_of (shop_slice ''web''))"
    using e0 by (auto simp: slice_info_of_def)
  from moved_slice_stays [OF u sup(2) ne i1 this] show ?thesis
    using p u by (auto simp: shop_slice_facts OnEndpointSliceAdd_def)
qed

end
