(* ===== verification/Server_Properties.thy ===== *)
theory Server_Properties
  imports Server Slice_Cluster
begin

text \<open>
  Properties of \<open>server/app\<close>: which algorithm numbers panic, what the construction of the server
  gives for all options and hosts, that a started proxy never returns and registers before the
  informers start, that the clean-up stops at its first success, and what the pair of CIDRs holds.
\<close>

section \<open>The loop that waits\<close>

lemma wait_for_error_run:
  "(\<forall>m. k \<le> m \<and> m < n \<longrightarrow> recv m = Some None) \<Longrightarrow> k \<le> n \<Longrightarrow> wait_for_error recv k = wait_for_error recv n"
proof (induction "n - k" arbitrary: k)
  case (Suc d)
  then have "recv k = Some None" "wait_for_error recv (Suc k) = wait_for_error recv n" by auto
  then show ?case by (subst wait_for_error.simps) simp
qed simp

lemma wait_for_error_returns:
  "recv n = Some (Some e) \<Longrightarrow> (\<forall>m<n. recv m = Some None) \<Longrightarrow> wait_for_error recv 0 = Some e"
  using wait_for_error_run [of 0 n recv] wait_for_error.simps [of recv n] by simp

lemma wait_for_error_only:
  assumes "wait_for_error recv k = Some e"
  shows "\<exists>n\<ge>k. recv n = Some (Some e) \<and> (\<forall>m. k \<le> m \<and> m < n \<longrightarrow> recv m = Some None)"
proof (rule wait_for_error.raw_induct [OF _ assms])
  fix wait :: "(nat \<Rightarrow> string option option) \<Rightarrow> nat \<Rightarrow> string option" and recv k e
  assume 1: "\<And>recv k e. wait recv k = Some e \<Longrightarrow>
      \<exists>n\<ge>k. recv n = Some (Some e) \<and> (\<forall>m. k \<le> m \<and> m < n \<longrightarrow> recv m = Some None)"
    "(case recv k of None \<Rightarrow> None | Some None \<Rightarrow> wait recv (Suc k) | Some (Some err) \<Rightarrow> Some err) = Some e"
  show "\<exists>n\<ge>k. recv n = Some (Some e) \<and> (\<forall>m. k \<le> m \<and> m < n \<longrightarrow> recv m = Some None)"
  proof (cases "recv k")
    case (Some r)
    show ?thesis
    proof (cases r)
      case None
      then obtain n where n: "n \<ge> Suc k" "recv n = Some (Some e)" "\<forall>m. Suc k \<le> m \<and> m < n \<longrightarrow> recv m = Some None"
        using 1 Some by fastforce
      then show ?thesis using Some None by (intro exI [of _ n]) (auto simp: Suc_le_eq nat_less_le)
    qed (use 1 Some in auto)
  qed (use 1 in auto)
qed

lemma wait_for_error_iff:
  "wait_for_error recv 0 = Some e \<longleftrightarrow> (\<exists>n. recv n = Some (Some e) \<and> (\<forall>m<n. recv m = Some None))"
  using wait_for_error_returns wait_for_error_only [of recv 0 e] by blast

lemma never_sent: "wait_for_error (sent_results None) 0 = None"
proof (cases "wait_for_error (sent_results None) 0")
  case (Some e)
  then show ?thesis by (auto simp: wait_for_error_iff sent_results_def split: if_splits)
qed

text \<open>The channel of a server that is made is nil: its loop waits for good.\<close>

lemma Options_Run_hangs:
  assumes "newProxyServer x host opts = Inr (Inr s)" and "\<not> cleanupAndExit opts"
  shows "Options_Run x host env opts w = Hangs (fst (ProxyServer_Run s))"
proof -
  have "\<not> BindAddressHardFail s"
    using assms by (auto simp: newProxyServer_def bindr_Inr_iff Let_def split: sum.splits if_splits)
  then have "snd (ProxyServer_Run s) = None" by (simp add: ProxyServer_Run_def Let_def)
  then have "runLoop s = (fst (ProxyServer_Run s), None)" by (simp add: runLoop_def case_prod_beta never_sent)
  then show ?thesis using assms by (simp add: Options_Run_def)
qed

section \<open>Cleaning up\<close>

text \<open>Every frontend but \<open>stats\<close> has its default backend.\<close>

definition backed :: "store \<Rightarrow> bool" where
  "backed st \<longleftrightarrow> (\<forall>k f. fmlookup (st_frontends st) k = Some f \<longrightarrow> k \<noteq> ''stats'' \<longrightarrow>
     DefaultBackend f \<noteq> '''' \<and> DefaultBackend f |\<in>| fmdom (st_backends st))"

section \<open>Pairs of CIDRs\<close>

text \<open>The list without its first element for which the test holds.\<close>

fun without_first :: "('a \<Rightarrow> bool) \<Rightarrow> 'a list \<Rightarrow> 'a list" where
  "without_first v [] = []"
| "without_first v (y # ys) = (if v y then ys else y # without_first v ys)"

definition first_or :: "'a option \<Rightarrow> 'a list \<Rightarrow> 'a option" where
  "first_or o_found l = (case o_found of Some y \<Rightarrow> Some y | None \<Rightarrow> (case l of [] \<Rightarrow> None | y # _ \<Rightarrow> Some y))"

lemma cidr_loop_exact:
  "cidr_loop v6 cs (four, six) =
     (first_or four (if six = None then without_first v6 cs else cs), first_or six (filter v6 cs))"
  by (induction v6 cs "(four, six)" arbitrary: four six rule: cidr_loop.induct)
    (auto simp: first_or_def Let_def split: option.splits list.splits if_splits)

section \<open>Constructing the server\<close>

text \<open>The construction, when no clean-up is asked for and host and clients are there.\<close>

definition host_ready :: "'c host_env \<Rightarrow> options \<Rightarrow> bool" where
  "host_ready host opt \<longleftrightarrow> \<not> cleanupAndExit opt \<and> (\<exists>name. GetHostname host = Inr name) \<and>
     (\<exists>cs. createClients (Clients host) (o_config opt) = Inr cs)"

lemma getProxyMode_known: "getProxyMode m \<in> {proxyModeOF, proxyModeLocal, proxyModeMeshAll}"
  by (simp add: getProxyMode_def)

lemma Algorithm_cases:
  "Algorithm a = (if a < 0 \<or> a = 10 then Inl IndexOutOfRange
     else Inr (if a > 10 then ''roundrobin'' else algorithmArray ! nat a))"
proof -
  have "length algorithmArray = 10" "algorithmArray ! 0 = ''roundrobin''" by (simp_all add: algorithmArray_def)
  then show ?thesis by (auto simp: Algorithm_def)
qed

text \<open>
  The look-up of the address of an interface panics: a device is named, and among its addresses
  one that is not an IP network comes before every one that has an IPv4 form.
\<close>

definition address_panics :: "(string \<Rightarrow> string + (string + if_addr list)) \<Rightarrow> string \<Rightarrow> bool" where
  "address_panics ifs dev \<longleftrightarrow> dev \<noteq> '''' \<and>
     (\<exists>pre post. ifs dev = Inr (Inr (pre @ OtherAddr # post)) \<and> set pre \<subseteq> {IPNet None})"

lemma first_ipv4_panics:
  "first_ipv4 as = Inl p \<longleftrightarrow> (\<exists>pre post. as = pre @ OtherAddr # post \<and> set pre \<subseteq> {IPNet None})"
proof (induction as rule: first_ipv4.induct)
  case (2 as)
  then show ?case by (cases p) (auto intro: exI [of _ "[]"])
next
  case (3 ip as)
  then show ?case by (auto simp: Cons_eq_append_conv)
next
  case (4 as)
  have "(\<exists>pre post. IPNet None # as = pre @ OtherAddr # post \<and> set pre \<subseteq> {IPNet None}) \<longleftrightarrow>
      (\<exists>pre post. as = pre @ OtherAddr # post \<and> set pre \<subseteq> {IPNet None})"
    (is "?l \<longleftrightarrow> ?r")
  proof
    assume ?r
    then obtain pre post where "as = pre @ OtherAddr # post" "set pre \<subseteq> {IPNet None}" by blast
    then show ?l by (intro exI [of _ "IPNet None # pre"] exI [of _ post]) simp
  next
    assume ?l
    then obtain pre post where "IPNet None # as = pre @ OtherAddr # post" "set pre \<subseteq> {IPNet None}" by blast
    then show ?r by (intro exI [of _ "tl pre"] exI [of _ post]) (cases pre; auto)
  qed
  then show ?case using 4 by simp
qed simp

lemma NewProxier_panics:
  "NewProxier x ifs slices hostname ifn info mode = Inl p \<longleftrightarrow> address_panics ifs ifn"
proof -
  have "GetLocalAddr ifs ifn = Inl p \<longleftrightarrow> (\<exists>as. ifs ifn = Inr (Inr as) \<and> first_ipv4 as = Inl p)"
    by (auto simp: GetLocalAddr_def split: sum.splits option.splits)
  then show ?thesis
    by (auto simp: NewProxier_def Let_def bindr_Inl_iff address_panics_def first_ipv4_panics)
qed

lemma NewProxier_total:
  assumes "\<not> address_panics ifs ifn"
  shows "\<exists>p. NewProxier x ifs slices hostname ifn info mode = Inr p"
  using assms NewProxier_panics by (cases "NewProxier x ifs slices hostname ifn info mode") auto

lemma no_address_panic:
  "\<forall>dev as. ifs dev = Inr (Inr as) \<longrightarrow> OtherAddr \<notin> set as \<Longrightarrow> \<not> address_panics ifs dev"
  by (force simp: address_panics_def)

lemma NewProxier_fields:
  "NewProxier x ifs slices hostname ifn info mode = Inr p \<Longrightarrow>
     px_mode p = mode \<and> serverAlgorithm p = ServerAlgorithm info \<and> isHealthCheck p = IsCheckServer info"
  by (auto simp: NewProxier_def bindr_Inr_iff Let_def)

lemma NewProxier_kind:
  assumes "NewProxier x ifs slices hostname ifn info mode = Inr p"
  shows "if slices then \<exists>c. new_slice_proxier c p else new_proxier p"
  using assms NewProxier_slices [of x ifs hostname ifn info mode p] NewProxier_new [of x ifs hostname ifn info mode p]
  by (cases slices) auto

lemma newProxyServer_made:
  assumes "host_ready host opt" and "\<not> EndpointSliceProxying host"
    and "\<forall>dev as. Interfaces host dev = Inr (Inr as) \<longrightarrow> OtherAddr \<notin> set as"
    and "Algorithm (sint (o_algorithm opt)) = Inr alg"
  shows "\<exists>s p. newProxyServer x host opt = Inr (Inr s) \<and> ps_Proxier s = Some p \<and> new_proxier p \<and>
     px_mode p = getProxyMode (ii_Mode (haproxyInfo opt)) \<and> ProxyMode s = px_mode p \<and>
     serverAlgorithm p = alg \<and> \<not> UseEndpointSlices s"
proof -
  obtain name c e where h: "\<not> cleanupAndExit opt" "GetHostname host = Inr name"
      "createClients (Clients host) (o_config opt) = Inr (c, e)"
    using assms(1) by (auto simp: host_ready_def)
  let ?info = "(haproxyInfo opt)\<lparr>ServerAlgorithm := alg\<rparr>" and ?mode = "getProxyMode (ii_Mode (haproxyInfo opt))"
  obtain p where p: "NewProxier x (Interfaces host) False name (Dev ?info) ?info ?mode = Inr p"
    using NewProxier_total [OF no_address_panic [OF assms(3)]] by blast
  then show ?thesis
    using h assms(2,4) NewProxier_fields [OF p] NewProxier_new [OF p] getProxyMode_known
    by (simp add: newProxyServer_def)
qed

context haproxy_store begin

lemma cleanup_fails:
  assumes "ok w" and "backed (view w)"
  shows "\<exists>e w'. CleanupAndExit env w = Inr (Some e, w') \<and> ok w' \<and>
     (view w' = view w \<or> (\<exists>b. b |\<in>| fmdom (st_backends (view w)) \<and> view w' = drop_backend b (view w)))"
proof -
  let ?bs = "st_backends (view w)" and ?fs = "st_frontends (view w)"
  obtain ss w1 where g: "GetServices env w = Inr (ss, w1)" "ok w1" "view w1 = view w"
      "set ss = (if ?fs = fmempty \<or> ?bs = fmempty then {}
         else service_of ?bs ` {f. fmlookup ?fs (fe_Name f) = Some f \<and> fe_Name f \<noteq> ''stats''})"
    using get_services [OF assms(1)] by blast
  show ?thesis
  proof (cases ss)
    case Nil
    then show ?thesis using g by (simp add: CleanupAndExit_def)
  next
    case (Cons svc rest)
    then have "svc \<in> service_of ?bs ` {f. fmlookup ?fs (fe_Name f) = Some f \<and> fe_Name f \<noteq> ''stats''}"
      using g(4) by (auto split: if_splits)
    then obtain f where f: "fmlookup ?fs (fe_Name f) = Some f" "fe_Name f \<noteq> ''stats''" "svc = service_of ?bs f"
      by blast
    then obtain b where b: "DefaultBackend f \<noteq> ''''" "fmlookup ?bs (DefaultBackend f) = Some b"
      using assms(2) by (auto simp: backed_def fmlookup_dom_iff)
    then have name: "bk_Name (s_Backend svc) = DefaultBackend f"
      using wf [OF assms(1)] by (auto simp: f(3) service_of_def store_wf_def dest: fmpredD)
    have dom: "DefaultBackend f |\<in>| fmdom ?bs" using b(2) by (rule fmdomI)
    obtain w2 where "DeleteBackend env (DefaultBackend f) w1 = (True, w2)" "ok w2"
        "view w2 = drop_backend (DefaultBackend f) (view w)"
      using delete_backend [OF g(2) b(1)] dom g(3) by auto
    then show ?thesis using g(1) Cons name dom by (auto simp: CleanupAndExit_def)
  qed
qed

end

section \<open>Properties\<close>

lemma sint_ten: "sint (a :: 32 word) = 10 \<longleftrightarrow> a = 10"
proof -
  have "sint (10 :: 32 word) = 10" by simp
  then show ?thesis by (metis signed_word_eqI)
qed

text \<open>
  C28. Bounds: the number of an algorithm, 32 bits wide, makes \<open>Algorithm\<close> panic exactly if it is
  negative or 10, the length of the table; a number beyond that gives \<open>roundrobin\<close>, one below
  it its entry.
\<close>

theorem Algorithm_bounds:
  fixes a :: "32 word"
  shows "(Algorithm (sint a) = Inl IndexOutOfRange \<longleftrightarrow> sint a < 0 \<or> a = 10) \<and>
     (10 < sint a \<longrightarrow> Algorithm (sint a) = Inr ''roundrobin'') \<and>
     (0 \<le> sint a \<and> sint a < 10 \<longrightarrow> Algorithm (sint a) = Inr (algorithmArray ! nat (sint a)))"
  by (auto simp: Algorithm_cases sint_ten)

text \<open>
  C27. The construction of the server, for all options and all hosts. A clean-up asks for nothing:
  the empty server. Otherwise the error of the host's name or of the clients is returned; then
  the construction panics if the number of the algorithm is negative or 10, else if the look-up
  of the interface's address meets one that is not an IP network first; in all other cases it
  gives a server whose proxier is a new one, for slices exactly if the host has the feature, in
  the mode of the flag (\<open>of\<close> for an unknown one), with the algorithm of the number.
\<close>

theorem newProxyServer_exact:
  "(cleanupAndExit opt \<longrightarrow> newProxyServer x host opt = Inr (Inr empty_server)) \<and>
   (\<not> cleanupAndExit opt \<longrightarrow>
     (case (GetHostname host, createClients (Clients host) (o_config opt)) of
        (Inl err, _) \<Rightarrow> newProxyServer x host opt = Inr (Inl err)
      | (Inr _, Inl err) \<Rightarrow> newProxyServer x host opt = Inr (Inl err)
      | (Inr name, Inr (client, eventClient)) \<Rightarrow>
          if sint (o_algorithm opt) < 0 \<or> o_algorithm opt = 10
          then newProxyServer x host opt = Inl (AlgorithmPanic IndexOutOfRange)
          else if address_panics (Interfaces host) (Dev (haproxyInfo opt))
          then newProxyServer x host opt = Inl (AddressPanic TypeAssertion)
          else \<exists>s p. newProxyServer x host opt = Inr (Inr s) \<and> ps_Proxier s = Some p \<and>
            (if EndpointSliceProxying host then \<exists>c. new_slice_proxier c p else new_proxier p) \<and>
            UseEndpointSlices s = EndpointSliceProxying host \<and>
            px_mode p = getProxyMode (ii_Mode (haproxyInfo opt)) \<and> ProxyMode s = px_mode p \<and>
            serverAlgorithm p = (if 10 < sint (o_algorithm opt) then ''roundrobin''
              else algorithmArray ! nat (sint (o_algorithm opt))) \<and>
            isHealthCheck p = IsCheckServer (haproxyInfo opt) \<and>
            Client s = Some client \<and> EventClient s = Some eventClient \<and> NodeRef s = Some name \<and>
            ps_ConfigSyncPeriod s = configSyncPeriod opt \<and> \<not> BindAddressHardFail s))"
proof (cases "cleanupAndExit opt")
  case True
  then show ?thesis by (simp add: newProxyServer_def)
next
  case False
  note new = newProxyServer_def [of x host opt]
  show ?thesis
  proof (cases "\<exists>name client eventClient. GetHostname host = Inr name \<and>
      createClients (Clients host) (o_config opt) = Inr (client, eventClient)")
    case False
    then show ?thesis using \<open>\<not> cleanupAndExit opt\<close> by (auto simp: new split: sum.splits)
  next
    case True
    then obtain name c e where h: "GetHostname host = Inr name"
        "createClients (Clients host) (o_config opt) = Inr (c, e)" by blast
    let ?a = "sint (o_algorithm opt)"
    show ?thesis
    proof (cases "?a < 0 \<or> ?a = 10")
      case True
      then have "newProxyServer x host opt = Inl (AlgorithmPanic IndexOutOfRange)"
        using False h by (simp add: new Algorithm_cases)
      then show ?thesis using False h True sint_ten by simp
    next
      case alg: False
      define al where "al = (if 10 < ?a then ''roundrobin'' else algorithmArray ! nat ?a)"
      let ?info = "(haproxyInfo opt)\<lparr>ServerAlgorithm := al\<rparr>" and ?mode = "getProxyMode (ii_Mode (haproxyInfo opt))"
      let ?p = "NewProxier x (Interfaces host) (EndpointSliceProxying host) name (Dev ?info) ?info ?mode"
      have al: "Algorithm ?a = Inr al" using alg by (simp add: Algorithm_cases al_def)
      show ?thesis
      proof (cases ?p)
        case (Inl err)
        then have "address_panics (Interfaces host) (Dev (haproxyInfo opt))" using NewProxier_panics by simp
        moreover have "newProxyServer x host opt = Inl (AddressPanic TypeAssertion)"
          using False h al Inl getProxyMode_known by (cases err) (simp add: new)
        ultimately show ?thesis using False h alg sint_ten by simp
      next
        case (Inr p)
        then have "\<not> address_panics (Interfaces host) (Dev (haproxyInfo opt))"
          using NewProxier_panics [of x "Interfaces host" "EndpointSliceProxying host" name "Dev ?info" ?info ?mode]
          by simp
        moreover have "if EndpointSliceProxying host then \<exists>c. new_slice_proxier c p else new_proxier p"
          using NewProxier_kind [OF Inr] .
        ultimately show ?thesis using False h alg sint_ten al Inr NewProxier_fields [OF Inr] getProxyMode_known
          by (simp add: new al_def)
      qed
    qed
  qed
qed

text \<open>
  C25. A program that is not asked to clean up returns only if the construction fails: once the
  server is made, \<open>Run\<close> never returns, because it waits on a channel that is nil. What it has
  started by then: the proxier is registered with the services and with either the slices or
  the endpoints, before the informers start.
\<close>

theorem Options_Run_never_returns:
  assumes "newProxyServer x host opts = Inr (Inr s)" and "\<not> cleanupAndExit opts"
  shows "\<exists>before after. Options_Run x host env opts w = Hangs (before @ StartInformers # after) \<and>
     {r. RegisterProxier r \<in> set before} =
       {Services, if EndpointSliceProxying host then EndpointSlices else EndpointsObjects} \<and>
     (\<forall>r. RegisterProxier r \<notin> set after) \<and> GoSyncLoop \<in> set after"
proof -
  have s: "UseEndpointSlices s = EndpointSliceProxying host"
    using assms by (auto simp: newProxyServer_def bindr_Inr_iff Let_def split: sum.splits if_splits)
  define before where "before = (if Broadcaster s \<and> EventClient s \<noteq> None then [StartRecordingToSink] else []) @
      [NewInformerFactory (ps_ConfigSyncPeriod s)] @ watch_actions Services (ps_ConfigSyncPeriod s) @
      watch_actions (if UseEndpointSlices s then EndpointSlices else EndpointsObjects) (ps_ConfigSyncPeriod s)"
  have "fst (ProxyServer_Run s) = before @ StartInformers # [Event ''Starting kube-proxy.'', GoSyncLoop]"
    by (simp add: ProxyServer_Run_def before_def Let_def)
  moreover have "{r. RegisterProxier r \<in> set before} =
      {Services, if EndpointSliceProxying host then EndpointSlices else EndpointsObjects}"
    by (auto simp: before_def watch_actions_def s split: if_splits)
  ultimately show ?thesis using Options_Run_hangs [OF assms]
    by (intro exI [of _ before] exI [of _ "[Event ''Starting kube-proxy.'', GoSyncLoop]"]) simp
qed

text \<open>
  The clean-up never succeeds. If there is nothing to clean up it says so as an error; else
  it removes the backend of one service, takes that success for an error and ends, so that the
  frontends and all other backends stay.
\<close>

theorem CleanupAndExit_fails:
  assumes "haproxy_store env view ok" and "ok w" and "backed (view w)"
  shows "\<exists>e w'. CleanupAndExit env w = Inr (Some e, w') \<and> ok w' \<and>
     (view w' = view w \<or> (\<exists>b. b |\<in>| fmdom (st_backends (view w)) \<and> view w' = drop_backend b (view w)))"
  by (rule haproxy_store.cleanup_fails [OF assms])

text \<open>
  The pair of CIDRs: the second is the first IPv6 CIDR of the list; the first is the first
  element of what is left when that one is taken out, of whatever family, so that of two IPv6
  CIDRs alone the second stands in the place of the IPv4 one.
\<close>

theorem cidrTuple_exact:
  "cidrTuple v6 l = (case_option '''' id (first_or None (without_first v6 (split_on (CHR '','') l))),
     case_option '''' id (first_or None (filter v6 (split_on (CHR '','') l))))"
  by (simp add: cidrTuple_def cidr_loop_exact)

section \<open>Witnesses\<close>

theorem Algorithm_bounds_witness:
  "Algorithm (sint (10 :: 32 word)) = Inl IndexOutOfRange \<and> Algorithm (sint (11 :: 32 word)) = Inr ''roundrobin'' \<and>
   Algorithm (sint (3 :: 32 word)) = Inr ''first '' \<and> Algorithm (sint (- 1 :: 32 word)) = Inl IndexOutOfRange"
  using Algorithm_bounds [of 10] Algorithm_bounds [of 11] Algorithm_bounds [of 3] Algorithm_bounds [of "-1"]
  by (simp add: algorithmArray_def)

definition small_cluster_host :: "unit host_env" where
  "small_cluster_host = \<lparr>GetHostname = Inr ''node1'', Interfaces = \<lambda>_. Inr (Inr [IPNet None, IPNet (Some [10, 0, 0, 1])]),
     Clients = \<lparr>InClusterConfig = Inr \<lparr>rc_base = ''in-cluster'', rc_AcceptContentTypes = '''', rc_ContentType = '''',
         rc_QPS = 0, rc_Burst = 0\<rparr>, ClientConfig = \<lambda>_. Inl ''no file'', NewForConfig = \<lambda>_. Inr ()\<rparr>,
     EndpointSliceProxying = False\<rparr>"

text \<open>The options after the flags are registered and none is given.\<close>

lemma default_options:
  "ii_Mode (haproxyInfo (AddFlags NewOptions)) = ''of''" "o_algorithm (AddFlags NewOptions) = 0"
  "\<not> cleanupAndExit (AddFlags NewOptions)" "Kubeconfig (o_config (AddFlags NewOptions)) = ''''"
  "syncPeriod (AddFlags NewOptions) = 180000000000" "minSyncPeriod (AddFlags NewOptions) = 60000000000"
  "ii_Host (haproxyInfo (AddFlags NewOptions)) = ''http://127.0.0.1:5555''"
  by (simp_all add: AddFlags_def the_flags_def NewOptions_def in_config_def in_haproxy_def second_def)

lemma default_ready: "host_ready small_cluster_host (AddFlags NewOptions)"
  by (simp add: host_ready_def default_options) (simp add: small_cluster_host_def createClients_def default_options)

lemma default_algorithm: "Algorithm (sint (o_algorithm (AddFlags NewOptions))) = Inr ''roundrobin''"
  by (simp add: default_options Algorithm_cases algorithmArray_def)

lemma small_cluster_fields:
  "\<not> EndpointSliceProxying small_cluster_host"
  "\<forall>dev as. Interfaces small_cluster_host dev = Inr (Inr as) \<longrightarrow> OtherAddr \<notin> set as"
  by (auto simp: small_cluster_host_def)

text \<open>A host with slices, and one whose interface has an address that is not an IP network.\<close>

theorem newProxyServer_exact_witness:
  "(\<exists>s p. newProxyServer simple_ext small_cluster_host (AddFlags NewOptions) = Inr (Inr s) \<and> ps_Proxier s = Some p \<and>
     new_proxier p \<and> px_mode p = ''of'' \<and> serverAlgorithm p = ''roundrobin'') \<and>
   (\<exists>s p c. newProxyServer simple_ext (small_cluster_host\<lparr>EndpointSliceProxying := True\<rparr>) (AddFlags NewOptions) =
     Inr (Inr s) \<and> ps_Proxier s = Some p \<and> new_slice_proxier c p) \<and>
   newProxyServer simple_ext (small_cluster_host\<lparr>Interfaces := \<lambda>_. Inr (Inr [OtherAddr])\<rparr>) (AddFlags NewOptions) =
     Inl (AddressPanic TypeAssertion)"
proof -
  have mode: "getProxyMode (ii_Mode (haproxyInfo (AddFlags NewOptions))) = ''of''"
    by (simp add: default_options getProxyMode_def proxyModeOF_def proxyModeLocal_def)
  let ?h1 = "small_cluster_host\<lparr>EndpointSliceProxying := True\<rparr>"
  let ?h2 = "small_cluster_host\<lparr>Interfaces := \<lambda>_. Inr (Inr [OtherAddr])\<rparr>"
  have host: "GetHostname h = Inr ''node1'' \<and> createClients (Clients h) (o_config (AddFlags NewOptions)) = Inr ((), ())"
    if "h \<in> {small_cluster_host, ?h1, ?h2}" for h
    using that by (auto simp: small_cluster_host_def createClients_def default_options)
  have alg: "\<not> (sint (o_algorithm (AddFlags NewOptions)) < 0 \<or> o_algorithm (AddFlags NewOptions) = 10)"
      "(if 10 < sint (o_algorithm (AddFlags NewOptions)) then ''roundrobin''
        else algorithmArray ! nat (sint (o_algorithm (AddFlags NewOptions)))) = ''roundrobin''"
    by (simp_all add: default_options algorithmArray_def)
  have ok: "\<not> address_panics (Interfaces h) dev" if "h \<in> {small_cluster_host, ?h1}" for h dev
    using that small_cluster_fields(2) by (auto intro!: no_address_panic)
  have dev: "Dev (haproxyInfo (AddFlags NewOptions)) \<noteq> ''''"
    by (simp add: AddFlags_def the_flags_def NewOptions_def in_config_def in_haproxy_def)
  then have bad: "address_panics (Interfaces ?h2) (Dev (haproxyInfo (AddFlags NewOptions)))"
    by (auto simp: address_panics_def intro: exI [of _ "[]"])
  have made: "\<exists>s p. newProxyServer simple_ext h (AddFlags NewOptions) = Inr (Inr s) \<and> ps_Proxier s = Some p \<and>
      (if EndpointSliceProxying h then \<exists>c. new_slice_proxier c p else new_proxier p) \<and>
      px_mode p = ''of'' \<and> serverAlgorithm p = ''roundrobin''"
    if h: "h \<in> {small_cluster_host, ?h1}" for h
  proof -
    have "GetHostname h = Inr ''node1''" "createClients (Clients h) (o_config (AddFlags NewOptions)) = Inr ((), ())"
      using host h by blast+
    with conjunct2 [OF newProxyServer_exact, THEN mp, OF default_options(3), of simple_ext h] show ?thesis
      unfolding alg(2) mode using ok [OF h] alg(1) by (simp only: prod.case sum.case if_False) blast
  qed
  have "GetHostname ?h2 = Inr ''node1''" "createClients (Clients ?h2) (o_config (AddFlags NewOptions)) = Inr ((), ())"
    using host [of ?h2] by blast+
  then have "newProxyServer simple_ext ?h2 (AddFlags NewOptions) = Inl (AddressPanic TypeAssertion)"
    using conjunct2 [OF newProxyServer_exact, THEN mp, OF default_options(3), of simple_ext ?h2] alg(1) bad
    by (simp only: prod.case sum.case if_False if_True simp_thms)
  moreover have "\<exists>s p. newProxyServer simple_ext small_cluster_host (AddFlags NewOptions) = Inr (Inr s) \<and>
      ps_Proxier s = Some p \<and> new_proxier p \<and> px_mode p = ''of'' \<and> serverAlgorithm p = ''roundrobin''"
    using made [of small_cluster_host] small_cluster_fields(1) by simp
  moreover have "\<exists>s p c. newProxyServer simple_ext ?h1 (AddFlags NewOptions) = Inr (Inr s) \<and> ps_Proxier s = Some p \<and>
      new_slice_proxier c p"
    using made [of ?h1] by auto
  ultimately show ?thesis by blast
qed

theorem Options_Run_never_returns_witness:
  "\<exists>acts. Options_Run simple_ext small_cluster_host dp_env (AddFlags NewOptions) empty_dp = Hangs acts \<and>
     RegisterProxier Services \<in> set acts \<and> RegisterProxier EndpointsObjects \<in> set acts"
proof -
  obtain s where s: "newProxyServer simple_ext small_cluster_host (AddFlags NewOptions) = Inr (Inr s)"
    using newProxyServer_made [OF default_ready small_cluster_fields default_algorithm] by blast
  obtain before after where run: "Options_Run simple_ext small_cluster_host dp_env (AddFlags NewOptions) empty_dp =
        Hangs (before @ StartInformers # after)"
      and reg: "{r. RegisterProxier r \<in> set before} =
        {Services, if EndpointSliceProxying small_cluster_host then EndpointSlices else EndpointsObjects}"
    using Options_Run_never_returns [OF s default_options(3), of dp_env empty_dp] by (elim exE conjE) (rule that)
  have "Services \<in> {r. RegisterProxier r \<in> set before}" "EndpointsObjects \<in> {r. RegisterProxier r \<in> set before}"
    unfolding reg using small_cluster_fields(1) by simp_all
  then show ?thesis unfolding run run_outcome.inject
    by (intro exI [of _ "before @ StartInformers # after"] conjI refl) simp_all
qed

definition shop_dp :: dataplane where
  "shop_dp = empty_dp\<lparr>dp_store := (dp_store empty_dp)\<lparr>
     st_backends := fmupd ''BACKEND.a'' (zero_backend\<lparr>bk_Name := ''BACKEND.a''\<rparr>) fmempty,
     st_frontends := fmupd ''FRONTEND.a'' (zero_frontend\<lparr>fe_Name := ''FRONTEND.a'', DefaultBackend := ''BACKEND.a''\<rparr>) fmempty\<rparr>\<rparr>"

theorem CleanupAndExit_fails_witness:
  "\<exists>e w'. CleanupAndExit dp_env shop_dp = Inr (Some e, w') \<and> dp_ok w'"
proof -
  have "dp_ok shop_dp"
    by (simp add: shop_dp_def empty_dp_def dp_ok_def store_wf_def max_int_def) (intro conjI fmpred_upd; simp)
  moreover have "backed (dp_store shop_dp)" by (simp add: backed_def shop_dp_def)
  ultimately show ?thesis using CleanupAndExit_fails [OF dp.haproxy_store_axioms] by blast
qed

end
