(* ===== verification/Interleaving.thy ===== *)
theory Interleaving
  imports Cluster
begin

text \<open>
  The threads of the proxier at the grain of its locks. The informers call the handlers of
  \<open>haproxy/proxier.go\<close> while a sync is under way: a handler takes the lock of a tracker only, a
  sync holds the mutex of the proxier and takes the trackers' locks one after the other
  (\<open>ServiceMap.apply\<close> of \<open>controller/service.go\<close>, \<open>checkoutChanges\<close> and \<open>checkoutTriggerTimes\<close> of
  \<open>controller/endpoints.go\<close>). The result: every interleaving ends in a state that calls and
  syncs as single steps reach too, with the events of each tracker in the same order; only the
  trigger times that were collected may differ.
\<close>

section \<open>The sections of a sync\<close>

definition sync_services :: "k8s_ext \<Rightarrow> sync_orders \<Rightarrow> proxier \<Rightarrow> proxier" where
  "sync_services x so p =
     (let (sm, sct, _) = UpdateServiceMap x (so_items so) (so_hc so) (serviceMap p) (serviceChanges p)
      in p\<lparr>serviceMap := sm, serviceChanges := sct\<rparr>)"

text \<open>Checking out the changes takes the lock of the tracker; applying them concerns the map only.\<close>

definition sync_endpoints :: "k8s_ext \<Rightarrow> sync_orders \<Rightarrow> proxier \<Rightarrow> proxier result" where
  "sync_endpoints x so p =
     bindr (ect_checkoutChanges x (so_eps so) (endpointsChanges p)) (\<lambda>(changes, ect).
       let (em, _) = foldl (apply_endpoints_change (vo_of (so_eps so))) (endpointsMap p, ([], [])) changes
       in Inr (p\<lparr>endpointsMap := em, endpointsChanges := ect\<rparr>))"

definition sync_times :: "sync_orders \<Rightarrow> proxier \<Rightarrow> (namespaced_name, time list) fmap \<times> proxier" where
  "sync_times so p =
     (let (tts, ect) = checkoutTriggerTimes (ordT_of (so_eps so)) (endpointsChanges p) fmempty
      in (tts, p\<lparr>endpointsChanges := ect\<rparr>))"

text \<open>What is left touches neither tracker: it is the part that speaks to HAProxy.\<close>

definition sync_rest ::
    "k8s_ext \<Rightarrow> ('b, 'w) rest_env \<Rightarrow> sync_orders \<Rightarrow> proxier \<Rightarrow> 'w \<Rightarrow> (proxier \<times> 'w) result" where
  "sync_rest x env so p w =
     (let (healthy, w1) = EnsureHaproxy w
      in if \<not> healthy then Inr (p, w1)
         else
           let (active, q, w2) = range_in (so_services so (serviceMap p))
                 (sync_one x env (so_servers so) p) (serviceMap p) ({||}, gracefuldeleteManager p, w1)
           in bindr (GetServices env w2) (\<lambda>(services, w3).
                let cur = current_services services
                in Inr (p\<lparr>gracefuldeleteManager := q\<rparr>,
                     cleanLegacyService env (so_legacy so cur) active cur w3)))"

lemma sync_sections:
  "syncProxyRules x env so p w =
     (if \<not> isInitialized p then Inr (p, w)
      else bindr (sync_endpoints x so (sync_services x so p)) (\<lambda>p2. sync_rest x env so (snd (sync_times so p2)) w))"
proof -
  obtain sm sct sres where s: "UpdateServiceMap x (so_items so) (so_hc so) (serviceMap p) (serviceChanges p) = (sm, sct, sres)"
    by (metis prod_cases3)
  show ?thesis
    by (cases "ect_checkoutChanges x (so_eps so) (endpointsChanges p)")
      (auto simp: syncProxyRules_def update_maps_def s sync_services_def sync_endpoints_def UpdateEndpointsMap_def
        endpoints_map_apply_def sync_rest_def sync_times_def Let_def split: prod.splits)
qed

section \<open>Calls and threads\<close>

text \<open>
  A call of a handler, the section of a synced notification that sets its flag under the mutex
  (the sync it makes afterwards is a step of its own), and a sync. The orders of a step belong
  to its label.
\<close>

datatype call = Handle px_event | Flag px_event | Sync

fun set_flag :: "px_event \<Rightarrow> proxier \<Rightarrow> proxier" where
  "set_flag ServicesSynced p = (let p1 = p\<lparr>servicesSynced := True\<rparr> in setInitialized (endpointsSynced p1) p1)"
| "set_flag EndpointsSynced p = (let p1 = p\<lparr>endpointsSynced := True\<rparr> in setInitialized (servicesSynced p1) p1)"
| "set_flag SlicesSynced p = (let p1 = p\<lparr>endpointSlicesSynced := True\<rparr> in setInitialized (servicesSynced p1) p1)"
| "set_flag _ p = p"

lemma notifications:
  "OnServiceSynced x env so p w = syncProxyRules x env so (set_flag ServicesSynced p) w"
  "OnEndpointsSynced x env so p w = syncProxyRules x env so (set_flag EndpointsSynced p) w"
  "OnEndpointSlicesSynced x env so p w = syncProxyRules x env so (set_flag SlicesSynced p) w"
  by (simp_all add: OnServiceSynced_def OnEndpointsSynced_def OnEndpointSlicesSynced_def Let_def)

definition is_handler :: "px_event \<Rightarrow> bool" where
  "is_handler ev \<longleftrightarrow> \<not> is_synced ev \<and> ev \<noteq> RunSync"

text \<open>The sequential machine: whole calls and whole syncs.\<close>

fun whole_step ::
    "k8s_ext \<Rightarrow> ('b, 'w) rest_env \<Rightarrow> proxier \<times> 'w \<Rightarrow> sync_orders \<times> call \<Rightarrow> (proxier \<times> 'w) result" where
  "whole_step x env (p, w) (so, Handle ev) = px_step x env so ev (p, w)"
| "whole_step x env (p, w) (so, Flag ev) = Inr (set_flag ev p, w)"
| "whole_step x env (p, w) (so, Sync) = syncProxyRules x env so p w"

definition whole_steps ::
    "k8s_ext \<Rightarrow> ('b, 'w) rest_env \<Rightarrow> (sync_orders \<times> call) list \<Rightarrow> proxier \<times> 'w \<Rightarrow> (proxier \<times> 'w) result" where
  "whole_steps x env cs st = foldr_r (whole_step x env) st cs"

text \<open>
  The concurrent machine. The phase says how far the sync is that holds the mutex of the
  proxier, with its orders; the trace lists the calls, a sync when it ends.
\<close>

datatype phase =
    Unlocked
  | Locked sync_orders
  | ServicesDone sync_orders
  | EndpointsDone sync_orders
  | TimesDone sync_orders

inductive threads ::
    "k8s_ext \<Rightarrow> ('b, 'w) rest_env \<Rightarrow> proxier \<Rightarrow> 'w \<Rightarrow> (sync_orders \<times> call) list \<Rightarrow> phase \<Rightarrow> proxier \<Rightarrow> 'w \<Rightarrow> bool"
  for x :: k8s_ext and env :: "('b, 'w) rest_env" and p0 :: proxier and w0 :: 'w where
  start: "threads x env p0 w0 [] Unlocked p0 w0"
| handler: "threads x env p0 w0 tr ph p w \<Longrightarrow> is_handler ev \<Longrightarrow> px_step x env so ev (p, w) = Inr (p', w') \<Longrightarrow>
     threads x env p0 w0 (tr @ [(so, Handle ev)]) ph p' w'"
| flag: "threads x env p0 w0 tr Unlocked p w \<Longrightarrow> is_synced ev \<Longrightarrow>
     threads x env p0 w0 (tr @ [(so, Flag ev)]) Unlocked (set_flag ev p) w"
| enter: "threads x env p0 w0 tr Unlocked p w \<Longrightarrow> isInitialized p \<Longrightarrow>
     threads x env p0 w0 tr (Locked so) p w"
| idle: "threads x env p0 w0 tr Unlocked p w \<Longrightarrow> \<not> isInitialized p \<Longrightarrow>
     threads x env p0 w0 (tr @ [(so, Sync)]) Unlocked p w"
| services: "threads x env p0 w0 tr (Locked so) p w \<Longrightarrow>
     threads x env p0 w0 tr (ServicesDone so) (sync_services x so p) w"
| endpoints: "threads x env p0 w0 tr (ServicesDone so) p w \<Longrightarrow> sync_endpoints x so p = Inr p' \<Longrightarrow>
     threads x env p0 w0 tr (EndpointsDone so) p' w"
| times: "threads x env p0 w0 tr (EndpointsDone so) p w \<Longrightarrow>
     threads x env p0 w0 tr (TimesDone so) (snd (sync_times so p)) w"
| program: "threads x env p0 w0 tr (TimesDone so) p w \<Longrightarrow> sync_rest x env so p w = Inr (p', w') \<Longrightarrow>
     threads x env p0 w0 (tr @ [(so, Sync)]) Unlocked p' w'"

section \<open>What a handler changes\<close>

fun service_call :: "k8s_ext \<Rightarrow> px_event \<Rightarrow> (service_change_tracker \<Rightarrow> (bool \<times> service_change_tracker) result) option" where
  "service_call x (ServiceAdd s) = Some (sct_update x None s)"
| "service_call x (ServiceUpdate old s) = Some (sct_update x old s)"
| "service_call x (ServiceDelete s) = Some (sct_update x s None)"
| "service_call x _ = None"

fun endpoints_call :: "k8s_ext \<Rightarrow> px_event \<Rightarrow> (endpoint_change_tracker \<Rightarrow> (bool \<times> endpoint_change_tracker) result) option" where
  "endpoints_call x (EndpointsAdd e) = Some (\<lambda>t. Inr (ect_update x None e t))"
| "endpoints_call x (EndpointsUpdate old e) = Some (\<lambda>t. Inr (ect_update x old e t))"
| "endpoints_call x (EndpointsDelete e) = Some (\<lambda>t. Inr (ect_update x e None t))"
| "endpoints_call x (SliceAdd s) = Some (EndpointSliceUpdate x s False)"
| "endpoints_call x (SliceUpdate old s) = Some (EndpointSliceUpdate x s False)"
| "endpoints_call x (SliceDelete s) = Some (EndpointSliceUpdate x s True)"
| "endpoints_call x _ = None"

lemmas handler_defs = OnServiceAdd_def OnServiceDelete_def OnServiceUpdate_def OnEndpointsAdd_def
  OnEndpointsDelete_def OnEndpointsUpdate_def OnEndpointSliceAdd_def OnEndpointSliceUpdate_def
  OnEndpointSliceDelete_def slice_event_def

lemma handler_cases:
  assumes "is_handler ev"
  obtains f where "service_call x ev = Some f" and "endpoints_call x ev = None" |
    f where "endpoints_call x ev = Some f" and "service_call x ev = None"
  using assms by (cases ev) (auto simp: is_handler_def is_synced_def)

lemma px_step_service:
  assumes "service_call x ev = Some f"
  shows "px_step x env so ev (p, w) = bindr (f (serviceChanges p)) (\<lambda>(_, t). Inr (p\<lparr>serviceChanges := t\<rparr>, w))"
  using assms
  by (cases ev; cases "f (serviceChanges p)") (auto simp: px_step_def handler_defs Let_def split: prod.splits)

lemma px_step_endpoints:
  assumes "endpoints_call x ev = Some f"
  shows "px_step x env so ev (p, w) = bindr (f (endpointsChanges p)) (\<lambda>(_, t). Inr (p\<lparr>endpointsChanges := t\<rparr>, w))"
  using assms
  by (cases ev; cases "f (endpointsChanges p)") (auto simp: px_step_def handler_defs Let_def split: prod.splits)

section \<open>Up to trigger times\<close>

definition but_times :: "proxier \<Rightarrow> proxier \<Rightarrow> bool" where
  "but_times p q \<longleftrightarrow> (\<exists>a. q = p\<lparr>endpointsChanges := (endpointsChanges p)\<lparr>lastChangeTriggerTimes := a\<rparr>\<rparr>)"

lemma but_times_refl [simp]: "but_times p p"
  by (auto simp: but_times_def intro: exI [of _ "lastChangeTriggerTimes (endpointsChanges p)"])

lemma but_times_trans: "but_times p q \<Longrightarrow> but_times q r \<Longrightarrow> but_times p r"
  by (auto simp: but_times_def)

lemma but_times_sym: "but_times p q \<Longrightarrow> but_times q p"
  by (auto simp: but_times_def intro!: exI [of _ "lastChangeTriggerTimes (endpointsChanges p)"])

lemma but_times_fields:
  assumes "but_times p q"
  shows "serviceChanges q = serviceChanges p" "serviceMap q = serviceMap p" "endpointsMap q = endpointsMap p"
    "isInitialized q = isInitialized p"
  using assms by (auto simp: but_times_def isInitialized_def)

lemma endpointsToEndpointsMap_times:
  "endpointsToEndpointsMap x (t\<lparr>lastChangeTriggerTimes := a\<rparr>) = endpointsToEndpointsMap x t"
  using endpointsToEndpointsMap_config [of t "t\<lparr>lastChangeTriggerTimes := a\<rparr>" x] by (simp add: same_ect_config_def)

lemma ect_update_but_times:
  "\<exists>b. ect_update x prev cur (t\<lparr>lastChangeTriggerTimes := a\<rparr>) =
     (fst (ect_update x prev cur t), (snd (ect_update x prev cur t))\<lparr>lastChangeTriggerTimes := b\<rparr>)"
  unfolding ect_update_def by (auto simp: endpointsToEndpointsMap_times Let_def split: option.split)

lemma EndpointSliceUpdate_but_times:
  assumes "EndpointSliceUpdate x s gone t = Inr (r, t')"
  shows "\<exists>b. EndpointSliceUpdate x s gone (t\<lparr>lastChangeTriggerTimes := a\<rparr>) = Inr (r, t'\<lparr>lastChangeTriggerTimes := b\<rparr>)"
proof -
  obtain es where s: "s = Some es" using assms by (cases s) (simp_all add: EndpointSliceUpdate_def)
  show ?thesis
  proof (cases "slice_supported es")
    case True
    then obtain nn name where keys: "endpointSliceCacheKeys es = (nn, name, False)"
        and sup: "AddressType es \<in> set supportedEndpointSliceAddressTypes"
      by (cases "endpointSliceCacheKeys es") (auto simp: slice_supported_def)
    obtain c c' where c: "endpointSliceCache t = Some c" "updatePending c es gone = Inr (r, c')"
      using assms by (auto simp: s EndpointSliceUpdate_def keys sup bindr_Inr_iff Let_def split: option.splits)
    show ?thesis using assms c(2)
      by (cases gone; cases r; cases "getLastChangeTriggerTime x (es_Annotations es) = 0")
        (auto simp: s EndpointSliceUpdate_def keys sup c(1) Let_def intro: exI [of _ a])
  next
    case False
    then show ?thesis using assms by (auto simp: s EndpointSliceUpdate_ignored)
  qed
qed

lemma endpoints_call_but_times:
  assumes "endpoints_call x ev = Some f" and "f t = Inr (r, t')"
  shows "\<exists>b. f (t\<lparr>lastChangeTriggerTimes := a\<rparr>) = Inr (r, t'\<lparr>lastChangeTriggerTimes := b\<rparr>)"
proof -
  have u: "\<exists>b. Inr (ect_update x prev cur (t\<lparr>lastChangeTriggerTimes := a\<rparr>)) = Inr (r, t'\<lparr>lastChangeTriggerTimes := b\<rparr>)"
    if "ect_update x prev cur t = (r, t')" for prev cur
    using ect_update_but_times [of x prev cur a t] that by auto
  show ?thesis using assms
    by (cases ev) (auto intro: u EndpointSliceUpdate_but_times)
qed

lemma px_step_but_times:
  assumes "is_handler ev" and "px_step x env so ev (p, w) = Inr (p', w')" and "but_times p q"
  shows "\<exists>q'. px_step x env so ev (q, w) = Inr (q', w) \<and> but_times p' q' \<and> w' = w"
proof -
  obtain a where q: "q = p\<lparr>endpointsChanges := (endpointsChanges p)\<lparr>lastChangeTriggerTimes := a\<rparr>\<rparr>"
    using assms(3) by (auto simp: but_times_def)
  show ?thesis using assms(1)
  proof (cases rule: handler_cases [of ev x])
    case (1 f)
    then show ?thesis using assms(2)
      by (auto simp: px_step_service [OF 1(1)] q bindr_Inr_iff but_times_def intro!: exI [of _ a])
  next
    case (2 f)
    obtain r t where t: "f (endpointsChanges p) = Inr (r, t)" "p' = p\<lparr>endpointsChanges := t\<rparr>" "w' = w"
      using assms(2) by (auto simp: px_step_endpoints [OF 2(1)] bindr_Inr_iff)
    obtain b where "f ((endpointsChanges p)\<lparr>lastChangeTriggerTimes := a\<rparr>) = Inr (r, t\<lparr>lastChangeTriggerTimes := b\<rparr>)"
      using endpoints_call_but_times [OF 2(1) t(1)] by blast
    then show ?thesis using t by (auto simp: px_step_endpoints [OF 2(1)] q but_times_def)
  qed
qed

section \<open>What does not touch the trackers\<close>

lemma sync_rest_frame:
  "sync_rest x env so (p\<lparr>serviceChanges := s, endpointsChanges := e\<rparr>) w =
     bindr (sync_rest x env so p w) (\<lambda>(p', w'). Inr (p'\<lparr>serviceChanges := s, endpointsChanges := e\<rparr>, w'))"
proof -
  let ?p = "p\<lparr>serviceChanges := s, endpointsChanges := e\<rparr>"
  have obj: "haproxy_objects x ?p = haproxy_objects x p" "skipped ?p = skipped p"
    by (intro ext, simp add: haproxy_objects_def) (intro ext, simp add: skipped_def)
  have "sync_one x env elems ?p = sync_one x env elems p" for elems
    by (intro ext) (simp add: sync_one_def obj Let_def split: service_port.split prod.split)
  then show ?thesis
    by (simp add: sync_rest_def EnsureHaproxy_def Let_def split: prod.splits) (simp add: bindr_def split: sum.splits prod.splits)
qed

lemma sync_services_frame:
  "sync_services x so (p\<lparr>endpointsChanges := e\<rparr>) = (sync_services x so p)\<lparr>endpointsChanges := e\<rparr>"
  by (simp add: sync_services_def Let_def split: prod.splits)

lemma sync_endpoints_frame:
  "sync_endpoints x so (p\<lparr>serviceChanges := s\<rparr>) =
     bindr (sync_endpoints x so p) (\<lambda>p'. Inr (p'\<lparr>serviceChanges := s\<rparr>))"
  by (cases "ect_checkoutChanges x (so_eps so) (endpointsChanges p)")
    (auto simp: sync_endpoints_def split: prod.splits)

lemma sync_endpoints_but_times:
  assumes "sync_endpoints x so p = Inr p'" and "but_times p q"
  shows "\<exists>q'. sync_endpoints x so q = Inr q' \<and> but_times p' q'"
proof -
  obtain a where q: "q = p\<lparr>endpointsChanges := (endpointsChanges p)\<lparr>lastChangeTriggerTimes := a\<rparr>\<rparr>"
    using assms(2) by (auto simp: but_times_def)
  obtain ch t where c: "ect_checkoutChanges x (so_eps so) (endpointsChanges p) = Inr (ch, t)"
    using assms(1) by (auto simp: sync_endpoints_def bindr_Inr_iff)
  then have "ect_checkoutChanges x (so_eps so) ((endpointsChanges p)\<lparr>lastChangeTriggerTimes := a\<rparr>) =
      Inr (ch, t\<lparr>lastChangeTriggerTimes := a\<rparr>)"
    by (auto simp: ect_checkoutChanges_def bindr_Inr_iff split: option.splits)
  then show ?thesis using assms(1) c
    by (auto simp: sync_endpoints_def q but_times_def split: prod.splits)
qed

lemma sync_times_but_times: "but_times p (snd (sync_times so p))"
  by (auto simp: sync_times_def checkoutTriggerTimes_def Let_def but_times_def)

lemma sync_rest_trackers:
  assumes "sync_rest x env so p w = Inr (p', w')"
  shows "serviceChanges p' = serviceChanges p" "endpointsChanges p' = endpointsChanges p"
  using assms by (auto simp: sync_rest_def EnsureHaproxy_def Let_def bindr_Inr_iff split: prod.splits)

lemma sync_rest_service:
  assumes "sync_rest x env so (p\<lparr>serviceChanges := t\<rparr>) w = Inr (p', w')"
  shows "\<exists>p1. sync_rest x env so p w = Inr (p1, w') \<and> p' = p1\<lparr>serviceChanges := t\<rparr>"
proof -
  have eq: "p\<lparr>serviceChanges := t, endpointsChanges := endpointsChanges p\<rparr> = p\<lparr>serviceChanges := t\<rparr>" by simp
  obtain p1 where p1: "sync_rest x env so p w = Inr (p1, w')"
      "p' = p1\<lparr>serviceChanges := t, endpointsChanges := endpointsChanges p\<rparr>"
    using assms sync_rest_frame [where x = x and env = env and so = so and w = w and p = p and s = t and e = "endpointsChanges p"] unfolding eq by (auto simp: bindr_Inr_iff)
  then show ?thesis using sync_rest_trackers [OF p1(1)] by auto
qed

lemma sync_rest_set_endpoints:
  assumes "sync_rest x env so p w = Inr (p', w')"
  shows "sync_rest x env so (p\<lparr>endpointsChanges := t\<rparr>) w = Inr (p'\<lparr>endpointsChanges := t\<rparr>, w')"
proof -
  have eq: "p\<lparr>serviceChanges := serviceChanges p, endpointsChanges := t\<rparr> = p\<lparr>endpointsChanges := t\<rparr>" by simp
  have "sync_rest x env so (p\<lparr>endpointsChanges := t\<rparr>) w =
      Inr (p'\<lparr>serviceChanges := serviceChanges p, endpointsChanges := t\<rparr>, w')"
    using sync_rest_frame [where x = x and env = env and so = so and w = w and p = p and s = "serviceChanges p" and e = t]
    unfolding eq by (simp add: assms)
  also have "p'\<lparr>serviceChanges := serviceChanges p, endpointsChanges := t\<rparr> = p'\<lparr>endpointsChanges := t\<rparr>"
    using sync_rest_trackers(1) [OF assms] by simp
  finally show ?thesis .
qed

lemma sync_rest_endpoints:
  assumes "sync_rest x env so (p\<lparr>endpointsChanges := t\<rparr>) w = Inr (p', w')"
  shows "\<exists>p1. sync_rest x env so p w = Inr (p1, w') \<and> p' = p1\<lparr>endpointsChanges := t\<rparr>"
proof -
  have eq: "p\<lparr>serviceChanges := serviceChanges p, endpointsChanges := t\<rparr> = p\<lparr>endpointsChanges := t\<rparr>" by simp
  obtain p1 where p1: "sync_rest x env so p w = Inr (p1, w')"
      "p' = p1\<lparr>serviceChanges := serviceChanges p, endpointsChanges := t\<rparr>"
    using assms sync_rest_frame [where x = x and env = env and so = so and w = w and p = p and s = "serviceChanges p" and e = t] unfolding eq by (auto simp: bindr_Inr_iff)
  then show ?thesis using sync_rest_trackers [OF p1(1)] by auto
qed

lemma sync_rest_but_times:
  assumes "sync_rest x env so q w = Inr (q', w')" and "but_times p q"
  shows "\<exists>p'. sync_rest x env so p w = Inr (p', w') \<and> but_times p' q'"
proof -
  obtain a where q: "q = p\<lparr>endpointsChanges := (endpointsChanges p)\<lparr>lastChangeTriggerTimes := a\<rparr>\<rparr>"
    using assms(2) by (auto simp: but_times_def)
  obtain p' where "sync_rest x env so p w = Inr (p', w')"
      "q' = p'\<lparr>endpointsChanges := (endpointsChanges p)\<lparr>lastChangeTriggerTimes := a\<rparr>\<rparr>"
    using sync_rest_endpoints [OF assms(1) [unfolded q]] by blast
  then show ?thesis using sync_rest_trackers(2) by (fastforce simp: but_times_def)
qed

text \<open>A call while HAProxy is being programmed is a call after the sync.\<close>

lemma sync_rest_call:
  assumes "is_handler ev" and "px_step x env so' ev (p, w) = Inr (p', v)" and "sync_rest x env so p' w = Inr (p2, w2)"
  shows "v = w \<and> (\<exists>p1. sync_rest x env so p w = Inr (p1, w2) \<and> px_step x env so' ev (p1, w2) = Inr (p2, w2))"
  using assms(1)
proof (cases rule: handler_cases [of ev x])
  case (1 f)
  obtain r t where t: "f (serviceChanges p) = Inr (r, t)" "p' = p\<lparr>serviceChanges := t\<rparr>" "v = w"
    using assms(2) by (auto simp: px_step_service [OF 1(1)] bindr_Inr_iff)
  obtain p1 where p1: "sync_rest x env so p w = Inr (p1, w2)" "p2 = p1\<lparr>serviceChanges := t\<rparr>"
    using sync_rest_service [OF assms(3) [unfolded t(2)]] by blast
  then show ?thesis using t sync_rest_trackers(1) [OF p1(1)] by (simp add: px_step_service [OF 1(1)])
next
  case (2 f)
  obtain r t where t: "f (endpointsChanges p) = Inr (r, t)" "p' = p\<lparr>endpointsChanges := t\<rparr>" "v = w"
    using assms(2) by (auto simp: px_step_endpoints [OF 2(1)] bindr_Inr_iff)
  obtain p1 where p1: "sync_rest x env so p w = Inr (p1, w2)" "p2 = p1\<lparr>endpointsChanges := t\<rparr>"
    using sync_rest_endpoints [OF assms(3) [unfolded t(2)]] by blast
  then show ?thesis using t sync_rest_trackers(2) [OF p1(1)] by (simp add: px_step_endpoints [OF 2(1)])
qed

lemma px_step_initialized:
  assumes "is_handler ev" and "px_step x env so ev (p, w) = Inr (p', w')"
  shows "isInitialized p' = isInitialized p"
  using assms(1)
proof (cases rule: handler_cases [of ev x])
  case (1 f)
  then show ?thesis using assms(2) by (auto simp: px_step_service [OF 1(1)] bindr_Inr_iff isInitialized_def)
next
  case (2 f)
  then show ?thesis using assms(2) by (auto simp: px_step_endpoints [OF 2(1)] bindr_Inr_iff isInitialized_def)
qed

lemma set_flag_but_times:
  assumes "is_synced ev" and "but_times p q"
  shows "but_times (set_flag ev p) (set_flag ev q)"
proof -
  obtain a where "q = p\<lparr>endpointsChanges := (endpointsChanges p)\<lparr>lastChangeTriggerTimes := a\<rparr>\<rparr>"
    using assms(2) by (auto simp: but_times_def)
  then show ?thesis unfolding but_times_def
    using assms(1) by (intro exI [of _ a]) (auto simp: is_synced_def setInitialized_def Let_def)
qed

lemma sync_services_but_times:
  assumes "but_times p q"
  shows "but_times (sync_services x so p) (sync_services x so q)"
proof -
  obtain a where "q = p\<lparr>endpointsChanges := (endpointsChanges p)\<lparr>lastChangeTriggerTimes := a\<rparr>\<rparr>"
    using assms by (auto simp: but_times_def)
  then show ?thesis unfolding but_times_def
    by (intro exI [of _ a]) (simp add: sync_services_def Let_def split: prod.splits)
qed

section \<open>The order of the calls\<close>

fun on_services :: "call \<Rightarrow> bool" where
  "on_services (Handle (ServiceAdd _)) = True"
| "on_services (Handle (ServiceUpdate _ _)) = True"
| "on_services (Handle (ServiceDelete _)) = True"
| "on_services _ = False"

fun is_control :: "call \<Rightarrow> bool" where
  "is_control (Handle _) = False"
| "is_control _ = True"

definition on_endpoints :: "call \<Rightarrow> bool" where
  "on_endpoints c \<longleftrightarrow> \<not> is_control c \<and> \<not> on_services c"

text \<open>The events of services, those of endpoints and slices, and the rest, each in the same order.\<close>

definition same_orders :: "(sync_orders \<times> call) list \<Rightarrow> (sync_orders \<times> call) list \<Rightarrow> bool" where
  "same_orders tr cs \<longleftrightarrow>
     (\<forall>P \<in> {on_services, on_endpoints, is_control}. filter (P \<circ> snd) tr = filter (P \<circ> snd) cs)"

lemma same_orders_refl [simp]: "same_orders cs cs"
  by (simp add: same_orders_def)

lemma same_orders_append: "same_orders a b \<Longrightarrow> same_orders c d \<Longrightarrow> same_orders (a @ c) (b @ d)"
  by (simp add: same_orders_def)

lemma same_orders_trans: "same_orders a b \<Longrightarrow> same_orders b c \<Longrightarrow> same_orders a c"
  by (auto simp: same_orders_def)

lemma services_not_endpoints: "on_services \<noteq> on_endpoints"
  by (rule notI, drule fun_cong [of _ _ "Handle (SliceAdd None)"]) (simp add: on_endpoints_def)

lemma services_not_control: "on_services \<noteq> is_control"
  by (rule notI, drule fun_cong [of _ _ Sync]) simp

lemma same_orders_swap:
  assumes "\<forall>c \<in> set as. P (snd c)" and "\<forall>c \<in> set bs. Q (snd c)"
    and "{P, Q} \<subseteq> {on_services, on_endpoints, is_control}" and "P \<noteq> Q"
  shows "same_orders (as @ bs) (bs @ as)"
proof -
  have excl: "\<not> (R c \<and> S c)" if "R \<in> {on_services, on_endpoints, is_control}"
      "S \<in> {on_services, on_endpoints, is_control}" "R \<noteq> S" for R S c
    using that by (cases c rule: on_services.cases) (auto simp: on_endpoints_def)
  have "filter (R \<circ> snd) as = [] \<or> filter (R \<circ> snd) bs = []"
    if R: "R \<in> {on_services, on_endpoints, is_control}" for R
  proof (cases "R = P")
    case True
    then show ?thesis using excl [OF R, of Q] assms by (auto simp: filter_empty_conv)
  next
    case False
    then show ?thesis using excl [OF R, of P] assms by (auto simp: filter_empty_conv)
  qed
  then show ?thesis unfolding same_orders_def by fastforce
qed

section \<open>The simulation\<close>

lemma whole_steps_append:
  "whole_steps x env (cs @ ds) st = bindr (whole_steps x env cs st) (whole_steps x env ds)"
  by (simp add: whole_steps_def [abs_def] foldr_r_append)

lemma whole_steps_Cons:
  "whole_steps x env (c # cs) st = bindr (whole_step x env st c) (whole_steps x env cs)"
  by (simp add: whole_steps_def [abs_def])

lemma whole_steps_Nil [simp]: "whole_steps x env [] st = Inr st"
  by (simp add: whole_steps_def)

text \<open>Events of services alone work on the tracker of services alone.\<close>

lemma on_services_call:
  assumes "on_services c"
  shows "\<exists>ev f. c = Handle ev \<and> service_call x ev = Some f \<and> is_handler ev"
  using assms by (cases c rule: on_services.cases) (auto simp: is_handler_def is_synced_def)

lemma whole_steps_services:
  assumes "\<forall>c \<in> set ls. on_services (snd c)" and "whole_steps x env ls (p, w) = Inr (r, v)"
  shows "v = w \<and> r = p\<lparr>serviceChanges := serviceChanges r\<rparr> \<and>
     (\<forall>q u. serviceChanges q = serviceChanges p \<longrightarrow>
        whole_steps x env ls (q, u) = Inr (q\<lparr>serviceChanges := serviceChanges r\<rparr>, u))"
  using assms
proof (induction ls arbitrary: p w)
  case (Cons c ls)
  obtain so k where c: "c = (so, k)" by (cases c)
  obtain ev f where ev: "k = Handle ev" "service_call x ev = Some f"
    using Cons.prems(1) c on_services_call [of k x] by auto
  obtain b t where t: "f (serviceChanges p) = Inr (b, t)"
    and rest: "whole_steps x env ls (p\<lparr>serviceChanges := t\<rparr>, w) = Inr (r, v)"
    using Cons.prems(2) by (auto simp: whole_steps_Cons c ev(1) px_step_service [OF ev(2)] bindr_Inr_iff)
  have IH: "v = w" "r = p\<lparr>serviceChanges := t\<rparr>\<lparr>serviceChanges := serviceChanges r\<rparr>"
      "\<And>q u. serviceChanges q = t \<Longrightarrow> whole_steps x env ls (q, u) = Inr (q\<lparr>serviceChanges := serviceChanges r\<rparr>, u)"
    using Cons.IH [OF _ rest] Cons.prems(1) by auto
  have "whole_steps x env (c # ls) (q, u) = Inr (q\<lparr>serviceChanges := serviceChanges r\<rparr>, u)"
    if "serviceChanges q = serviceChanges p" for q u
    using IH(3) [of "q\<lparr>serviceChanges := t\<rparr>" u] t that
    by (simp add: whole_steps_Cons c ev(1) px_step_service [OF ev(2)])
  then show ?case using IH(1,2) by simp
qed simp

text \<open>
  The state of the concurrent machine against that of the sequential one. Once the changes of
  the endpoints are checked out, the sequential machine has done the whole sync; between the two
  checkouts the events of services that came after the first are put off.
\<close>

definition sync_done ::
    "k8s_ext \<Rightarrow> ('b, 'w) rest_env \<Rightarrow> proxier \<Rightarrow> 'w \<Rightarrow> (sync_orders \<times> call) list \<Rightarrow> sync_orders \<Rightarrow> proxier \<Rightarrow> 'w \<Rightarrow> bool" where
  "sync_done x env p0 w0 tr so p w \<longleftrightarrow>
     (\<forall>p' w'. sync_rest x env so p w = Inr (p', w') \<longrightarrow>
        (\<exists>cs q. whole_steps x env cs (p0, w0) = Inr (q, w') \<and> but_times p' q \<and> same_orders (tr @ [(so, Sync)]) cs))"

fun simulated ::
    "k8s_ext \<Rightarrow> ('b, 'w) rest_env \<Rightarrow> proxier \<Rightarrow> 'w \<Rightarrow> (sync_orders \<times> call) list \<Rightarrow> phase \<Rightarrow> proxier \<Rightarrow> 'w \<Rightarrow> bool" where
  "simulated x env p0 w0 tr Unlocked p w \<longleftrightarrow>
     (\<exists>cs q. whole_steps x env cs (p0, w0) = Inr (q, w) \<and> but_times p q \<and> same_orders tr cs)"
| "simulated x env p0 w0 tr (Locked so) p w \<longleftrightarrow> isInitialized p \<and>
     (\<exists>cs q. whole_steps x env cs (p0, w0) = Inr (q, w) \<and> but_times p q \<and> same_orders tr cs)"
| "simulated x env p0 w0 tr (ServicesDone so) p w \<longleftrightarrow> isInitialized p \<and>
     (\<exists>cs q ls r. whole_steps x env cs (p0, w0) = Inr (q, w) \<and> (\<forall>c \<in> set ls. on_services (snd c)) \<and>
        whole_steps x env ls (sync_services x so q, w) = Inr (r, w) \<and> but_times p r \<and> same_orders tr (cs @ ls))"
| "simulated x env p0 w0 tr (EndpointsDone so) p w \<longleftrightarrow> sync_done x env p0 w0 tr so p w"
| "simulated x env p0 w0 tr (TimesDone so) p w \<longleftrightarrow> sync_done x env p0 w0 tr so p w"

lemma whole_steps_snoc:
  assumes "whole_steps x env cs st = Inr st'" and "whole_step x env st' c = Inr st''"
  shows "whole_steps x env (cs @ [c]) st = Inr st''"
  using assms by (simp add: whole_steps_append whole_steps_Cons)

lemma same_orders_snoc: "same_orders tr cs \<Longrightarrow> same_orders (tr @ [c]) (cs @ [c])"
  by (simp add: same_orders_append)

lemma simulated_call:
  assumes "is_handler ev" and "px_step x env so ev (p, w) = Inr (p', w')"
    and "whole_steps x env cs (p0, w0) = Inr (q, w)" and "but_times p q" and "same_orders tr cs"
  shows "w' = w \<and> (\<exists>q'. whole_steps x env (cs @ [(so, Handle ev)]) (p0, w0) = Inr (q', w) \<and> but_times p' q' \<and>
     same_orders (tr @ [(so, Handle ev)]) (cs @ [(so, Handle ev)]))"
proof -
  obtain q' where "px_step x env so ev (q, w) = Inr (q', w)" "but_times p' q'" "w' = w"
    using px_step_but_times [OF assms(1,2,4)] by blast
  then show ?thesis using whole_steps_snoc [OF assms(3), of "(so, Handle ev)"] same_orders_snoc [OF assms(5)] by auto
qed

lemma sync_done_call:
  assumes "is_handler ev" and "px_step x env so' ev (p, w) = Inr (p', w')" and "sync_done x env p0 w0 tr so p w"
  shows "sync_done x env p0 w0 (tr @ [(so', Handle ev)]) so p' w'"
  unfolding sync_done_def
proof (intro allI impI)
  fix p2 w2 assume rest: "sync_rest x env so p' w' = Inr (p2, w2)"
  have w: "w' = w" using px_step_but_times [OF assms(1,2) but_times_refl] by blast
  obtain p1 where p1: "sync_rest x env so p w = Inr (p1, w2)" "px_step x env so' ev (p1, w2) = Inr (p2, w2)"
    using sync_rest_call [OF assms(1,2) rest [unfolded w]] by blast
  obtain cs q where cs: "whole_steps x env cs (p0, w0) = Inr (q, w2)" "but_times p1 q" "same_orders (tr @ [(so, Sync)]) cs"
    using assms(3) p1(1) unfolding sync_done_def by blast
  obtain q' where q': "whole_steps x env (cs @ [(so', Handle ev)]) (p0, w0) = Inr (q', w2)" "but_times p2 q'"
      "same_orders ((tr @ [(so, Sync)]) @ [(so', Handle ev)]) (cs @ [(so', Handle ev)])"
    using simulated_call [OF assms(1) p1(2) cs] by blast
  have "same_orders ((tr @ [(so', Handle ev)]) @ [(so, Sync)]) ((tr @ [(so, Sync)]) @ [(so', Handle ev)])"
  proof -
    have "\<exists>P \<in> {on_services, on_endpoints}. P (Handle ev)" by (simp add: on_endpoints_def)
    then obtain P where P: "P \<in> {on_services, on_endpoints}" "P (Handle ev)" by blast
    have "P \<noteq> is_control" using P(2) by auto
    then have "same_orders ([(so', Handle ev)] @ [(so, Sync)]) ([(so, Sync)] @ [(so', Handle ev)])"
      using same_orders_swap [of "[(so', Handle ev)]" P "[(so, Sync)]" is_control] P by auto
    then show ?thesis using same_orders_append [OF same_orders_refl [of tr]] by simp
  qed
  then show "\<exists>cs q. whole_steps x env cs (p0, w0) = Inr (q, w2) \<and> but_times p2 q \<and>
      same_orders ((tr @ [(so', Handle ev)]) @ [(so, Sync)]) cs"
    using q' same_orders_trans by blast
qed

lemma sync_services_endpoints: "endpointsChanges (sync_services x so p) = endpointsChanges p"
  by (simp add: sync_services_def Let_def split: prod.splits)

lemma sync_services_initialized: "isInitialized (sync_services x so p) = isInitialized p"
  by (simp add: sync_services_def isInitialized_def Let_def split: prod.splits)

text \<open>Between the two checkouts: an event of a service is put off, one of endpoints comes before the sync.\<close>

lemma services_done_call:
  assumes "is_handler ev" and "px_step x env so' ev (p, w) = Inr (p', w')"
    and "simulated x env p0 w0 tr (ServicesDone so) p w"
  shows "simulated x env p0 w0 (tr @ [(so', Handle ev)]) (ServicesDone so) p' w'"
proof -
  let ?c = "(so', Handle ev)"
  obtain cs q ls r where cs: "whole_steps x env cs (p0, w0) = Inr (q, w)" and ls: "\<forall>c \<in> set ls. on_services (snd c)"
      and r: "whole_steps x env ls (sync_services x so q, w) = Inr (r, w)" "but_times p r" "same_orders tr (cs @ ls)"
      and i: "isInitialized p" using assms(3) by auto
  obtain r' where r': "px_step x env so' ev (r, w) = Inr (r', w)" "but_times p' r'" "w' = w"
    using px_step_but_times [OF assms(1,2) r(2)] by blast
  have i': "isInitialized p'" using px_step_initialized [OF assms(1,2)] i by simp
  show ?thesis using assms(1)
  proof (cases rule: handler_cases [of ev x])
    case (1 f)
    then have "on_services (Handle ev)" by (cases ev) simp_all
    then have "\<forall>c \<in> set (ls @ [?c]). on_services (snd c)" using ls by auto
    moreover have "whole_steps x env (ls @ [?c]) (sync_services x so q, w) = Inr (r', w)"
      using whole_steps_snoc [OF r(1), of ?c] r'(1) by simp
    moreover have "same_orders (tr @ [?c]) (cs @ (ls @ [?c]))" using same_orders_snoc [OF r(3)] by simp
    ultimately show ?thesis using cs r'(2,3) i' by (simp del: set_append) blast
  next
    case (2 f)
    have ls_r: "r = (sync_services x so q)\<lparr>serviceChanges := serviceChanges r\<rparr>"
      using whole_steps_services [OF ls r(1)] by blast
    obtain b t where t: "f (endpointsChanges r) = Inr (b, t)" "r' = r\<lparr>endpointsChanges := t\<rparr>"
      using r'(1) by (auto simp: px_step_endpoints [OF 2(1)] bindr_Inr_iff)
    let ?q = "q\<lparr>endpointsChanges := t\<rparr>"
    have "endpointsChanges r = endpointsChanges q" by (subst ls_r) (simp add: sync_services_endpoints)
    then have q: "px_step x env so' ev (q, w) = Inr (?q, w)"
      using t(1) by (simp add: px_step_endpoints [OF 2(1)])
    have "whole_steps x env ls (sync_services x so ?q, w) =
        Inr ((sync_services x so ?q)\<lparr>serviceChanges := serviceChanges r\<rparr>, w)"
      using whole_steps_services [OF ls r(1)] by (simp add: sync_services_frame)
    moreover have "(sync_services x so ?q)\<lparr>serviceChanges := serviceChanges r\<rparr> = r'"
      unfolding t(2) by (subst (2) ls_r) (simp add: sync_services_frame)
    moreover have "whole_steps x env (cs @ [?c]) (p0, w0) = Inr (?q, w)"
      using whole_steps_snoc [OF cs, of ?c] q by simp
    moreover have "same_orders (tr @ [?c]) ((cs @ [?c]) @ ls)"
    proof -
      have "on_endpoints (Handle ev)" using 2 by (cases ev) (simp_all add: on_endpoints_def)
      then have "same_orders (ls @ [?c]) ([?c] @ ls)"
        using same_orders_swap [of ls on_services "[?c]" on_endpoints] ls services_not_endpoints by auto
      then have "same_orders (cs @ ls @ [?c]) (cs @ [?c] @ ls)" by (rule same_orders_append [OF same_orders_refl])
      then show ?thesis using same_orders_trans [OF same_orders_snoc [OF r(3), of ?c]] by simp
    qed
    ultimately show ?thesis using ls r'(2,3) i' unfolding simulated.simps
      by (intro conjI exI [of _ "cs @ [?c]"] exI [of _ ?q] exI [of _ ls] exI [of _ r']) simp_all
  qed
qed

text \<open>The second checkout: the sequential machine makes the sync, then the events put off.\<close>

lemma services_done_endpoints:
  assumes "simulated x env p0 w0 tr (ServicesDone so) p w" and "sync_endpoints x so p = Inr p'"
  shows "sync_done x env p0 w0 tr so p' w"
  unfolding sync_done_def
proof (intro allI impI)
  fix p2 w2 assume rest: "sync_rest x env so p' w = Inr (p2, w2)"
  obtain cs q ls r where cs: "whole_steps x env cs (p0, w0) = Inr (q, w)" and ls: "\<forall>c \<in> set ls. on_services (snd c)"
      and r: "whole_steps x env ls (sync_services x so q, w) = Inr (r, w)" "but_times p r" "same_orders tr (cs @ ls)"
      and i: "isInitialized p" using assms(1) by auto
  note lsr = whole_steps_services [OF ls r(1)]
  have ls_r: "r = (sync_services x so q)\<lparr>serviceChanges := serviceChanges r\<rparr>" using lsr by blast
  obtain r' where r': "sync_endpoints x so r = Inr r'" "but_times p' r'"
    using sync_endpoints_but_times [OF assms(2) r(2)] by blast
  obtain q2 where q2: "sync_endpoints x so (sync_services x so q) = Inr q2" "r' = q2\<lparr>serviceChanges := serviceChanges r\<rparr>"
    using r'(1) by (subst (asm) ls_r) (auto simp: sync_endpoints_frame bindr_Inr_iff)
  let ?q3 = "snd (sync_times so q2)"
  have "but_times p' (?q3\<lparr>serviceChanges := serviceChanges r\<rparr>)"
    using r'(2) unfolding q2(2)
    by (rule but_times_trans)
      (auto simp: but_times_def sync_times_def checkoutTriggerTimes_def Let_def intro!: exI [of _ fmempty])
  then obtain p3 where p3: "sync_rest x env so (?q3\<lparr>serviceChanges := serviceChanges r\<rparr>) w = Inr (p3, w2)" "but_times p2 p3"
    using sync_rest_but_times [OF rest but_times_sym] but_times_sym by blast
  obtain q4 where q4: "sync_rest x env so ?q3 w = Inr (q4, w2)" "p3 = q4\<lparr>serviceChanges := serviceChanges r\<rparr>"
    using sync_rest_service [OF p3(1)] by blast
  have "isInitialized r" using but_times_fields(4) [OF r(2)] i by simp
  then have "isInitialized (sync_services x so q)" by (subst (asm) ls_r) (simp add: isInitialized_def)
  then have "isInitialized q" by (simp only: sync_services_initialized)
  then have "syncProxyRules x env so q w = Inr (q4, w2)" using q2(1) q4(1) by (simp add: sync_sections)
  then have "whole_steps x env (cs @ [(so, Sync)]) (p0, w0) = Inr (q4, w2)"
    using whole_steps_snoc [OF cs, of "(so, Sync)"] by simp
  moreover have "serviceChanges q4 = serviceChanges (sync_services x so q)"
  proof -
    have "serviceChanges q2 = serviceChanges (sync_services x so q)"
      using q2(1) unfolding sync_endpoints_def bindr_Inr_iff by (auto simp: case_prod_beta)
    then show ?thesis using sync_rest_trackers(1) [OF q4(1)] by (simp add: sync_times_def Let_def split: prod.splits)
  qed
  then have "whole_steps x env ls (q4, w2) = Inr (p3, w2)" using lsr q4(2) by simp
  ultimately have "whole_steps x env ((cs @ [(so, Sync)]) @ ls) (p0, w0) = Inr (p3, w2)"
    unfolding whole_steps_append [of x env "cs @ [(so, Sync)]" ls] by simp
  moreover have "same_orders (tr @ [(so, Sync)]) ((cs @ [(so, Sync)]) @ ls)"
  proof -
    have "same_orders (ls @ [(so, Sync)]) ([(so, Sync)] @ ls)"
      using same_orders_swap [of ls on_services "[(so, Sync)]" is_control] ls services_not_control by auto
    then have "same_orders (cs @ ls @ [(so, Sync)]) (cs @ [(so, Sync)] @ ls)" by (rule same_orders_append [OF same_orders_refl])
    then show ?thesis using same_orders_trans [OF same_orders_snoc [OF r(3), of "(so, Sync)"]] by simp
  qed
  ultimately show "\<exists>cs q. whole_steps x env cs (p0, w0) = Inr (q, w2) \<and> but_times p2 q \<and> same_orders (tr @ [(so, Sync)]) cs"
    using p3(2) by blast
qed

lemma threads_simulated:
  assumes "threads x env p0 w0 tr ph p w"
  shows "simulated x env p0 w0 tr ph p w"
  using assms
proof (induction rule: threads.induct)
  case start
  show ?case by (auto intro!: exI [of _ "[]"])
next
  case (handler tr ph p w ev so p' w')
  show ?case
  proof (cases ph)
    case Unlocked
    then obtain cs q where cs: "whole_steps x env cs (p0, w0) = Inr (q, w)" "but_times p q" "same_orders tr cs"
      using handler.IH by auto
    show ?thesis unfolding Unlocked using simulated_call [OF handler.hyps(2,3) cs] by auto
  next
    case (Locked so')
    then obtain cs q where cs: "whole_steps x env cs (p0, w0) = Inr (q, w)" "but_times p q" "same_orders tr cs"
      and i: "isInitialized p" using handler.IH by auto
    show ?thesis unfolding Locked
      using simulated_call [OF handler.hyps(2,3) cs] i px_step_initialized [OF handler.hyps(2,3)] by auto
  next
    case (ServicesDone so')
    have "w' = w" using px_step_but_times [OF handler.hyps(2,3) but_times_refl] by blast
    then show ?thesis using services_done_call [OF handler.hyps(2,3)] handler.IH ServicesDone by blast
  next
    case (EndpointsDone so')
    then show ?thesis using sync_done_call [OF handler.hyps(2,3)] handler.IH by simp
  next
    case (TimesDone so')
    then show ?thesis using sync_done_call [OF handler.hyps(2,3)] handler.IH by simp
  qed
next
  case (flag tr p w ev so)
  then obtain cs q where "whole_steps x env cs (p0, w0) = Inr (q, w)" "but_times p q" "same_orders tr cs" by auto
  then show ?case
    using whole_steps_snoc [of x env cs "(p0, w0)" "(q, w)" "(so, Flag ev)"] set_flag_but_times [OF flag.hyps(2)]
      same_orders_snoc by (auto intro!: exI [of _ "cs @ [(so, Flag ev)]"])
next
  case (idle tr p w so)
  then obtain cs q where "whole_steps x env cs (p0, w0) = Inr (q, w)" "but_times p q" "same_orders tr cs" by auto
  moreover from this have "\<not> isInitialized q" using but_times_fields(4) idle.hyps(2) by simp
  ultimately show ?case
    using whole_steps_snoc [of x env cs "(p0, w0)" "(q, w)" "(so, Sync)"] same_orders_snoc
    by (auto simp: sync_uninitialized intro!: exI [of _ "cs @ [(so, Sync)]"])
next
  case (services tr so p w)
  then obtain cs q where "whole_steps x env cs (p0, w0) = Inr (q, w)" "but_times p q" "same_orders tr cs" by auto
  moreover have "isInitialized p" using services.IH by simp
  ultimately show ?case unfolding simulated.simps sync_services_initialized
    by (intro conjI exI [of _ cs] exI [of _ q] exI [of _ "[]"] exI [of _ "sync_services x so q"])
      (simp_all add: sync_services_but_times)
next
  case (endpoints tr so p w p')
  show ?case unfolding simulated.simps by (rule services_done_endpoints [OF endpoints.IH endpoints.hyps(2)])
next
  case (times tr so p w)
  show ?case unfolding simulated.simps sync_done_def
  proof (intro allI impI)
    fix p2 w2 assume rest: "sync_rest x env so (snd (sync_times so p)) w = Inr (p2, w2)"
    obtain p1 where p1: "sync_rest x env so p w = Inr (p1, w2)" "but_times p1 p2"
      using sync_rest_but_times [OF rest sync_times_but_times] by blast
    obtain cs q where cs: "whole_steps x env cs (p0, w0) = Inr (q, w2)" "but_times p1 q" "same_orders (tr @ [(so, Sync)]) cs"
      using times.IH p1(1) unfolding simulated.simps sync_done_def by blast
    show "\<exists>cs q. whole_steps x env cs (p0, w0) = Inr (q, w2) \<and> but_times p2 q \<and> same_orders (tr @ [(so, Sync)]) cs"
      using cs but_times_trans [OF but_times_sym [OF p1(2)] cs(2)] by blast
  qed
next
  case (program tr so p w p' w')
  then show ?case by (auto simp: sync_done_def)
qed auto

section \<open>A closed interleaving\<close>

text \<open>
  A proxier that has started makes an idle sync; the endpoints of \<open>shop/web\<close> are added after the
  changes are checked out and before the trigger times are.
\<close>

lemma idle_sections:
  "sync_services simple_ext (shop_orders []) shop_started = shop_started"
  "sync_endpoints simple_ext (shop_orders []) shop_started = Inr shop_started"
  by (simp_all add: sync_services_def sync_endpoints_def shop_orders_def web_sync_orders_def UpdateServiceMap_def
      service_map_apply_def ect_checkoutChanges_def Let_def shop_started_eq web_proxier_def
      NewEndpointChangeTracker_def NewServiceChangeTracker_def split: prod.splits)

definition late_web :: proxier where
  "late_web = shop_started\<lparr>endpointsChanges :=
     snd (ect_update simple_ext None (Some web_endpoints) (endpointsChanges shop_started))\<rparr>"

lemma late_web_add:
  "px_step simple_ext dp_env (shop_orders []) (EndpointsAdd (Some web_endpoints)) (shop_started, empty_dp) =
     Inr (late_web, empty_dp)"
proof -
  have e: "endpoints_call simple_ext (EndpointsAdd (Some web_endpoints)) =
      Some (\<lambda>t. Inr (ect_update simple_ext None (Some web_endpoints) t))" by simp
  show ?thesis unfolding px_step_endpoints [OF e] by (simp add: late_web_def split: prod.splits)
qed

lemma late_web_fields:
  "endpointsMap late_web = fmempty"
  "web_nn |\<in>| fmdom (ect_items (endpointsChanges late_web))"
  "fmlookup (lastChangeTriggerTimes (endpointsChanges late_web)) web_nn = Some [5]"
  using web_time
  by (simp_all add: late_web_def shop_started_fields ect_update_def web_key Let_def endpointsToEndpointsMap_def
      NewEndpointChangeTracker_def add_trigger_time_def)

lemma late_web_threads:
  "threads simple_ext dp_env shop_started empty_dp [(shop_orders [], Handle (EndpointsAdd (Some web_endpoints)))]
     (EndpointsDone (shop_orders [])) late_web empty_dp"
proof -
  have i: "isInitialized shop_started" by (simp add: shop_started_fields)
  have "threads simple_ext dp_env shop_started empty_dp [] (EndpointsDone (shop_orders [])) shop_started empty_dp"
    by (intro threads.endpoints [OF threads.services [OF threads.enter [OF threads.start i]]]) (simp only: idle_sections)
  from threads.handler [OF this _ late_web_add] show ?thesis
    by (simp add: is_handler_def is_synced_def)
qed

section \<open>Properties\<close>

text \<open>
  C9. Every interleaving of the handlers with a sync, at the grain of the locks, is equivalent to
  a sequence of whole calls and whole syncs: when no sync is under way, that sequence reaches
  the same state outside and the same proxier but for the trigger times that are collected, and
  it has the events of services, the events of endpoints and slices, and the notifications and
  syncs each in the order in which they happened.
\<close>

theorem interleaving_sequential:
  assumes "threads x env p0 w0 tr Unlocked p w"
  shows "\<exists>cs q. whole_steps x env cs (p0, w0) = Inr (q, w) \<and> but_times p q \<and> same_orders tr cs"
  using threads_simulated [OF assms] by simp


theorem interleaving_sequential_witness:
  "\<exists>p w cs q. threads simple_ext dp_env shop_started empty_dp
       [(shop_orders [], Handle (EndpointsAdd (Some web_endpoints))), (shop_orders [], Sync)] Unlocked p w \<and>
     whole_steps simple_ext dp_env cs (shop_started, empty_dp) = Inr (q, w) \<and> but_times p q \<and>
     filter (on_endpoints \<circ> snd) cs = [(shop_orders [], Handle (EndpointsAdd (Some web_endpoints)))]"
proof -
  let ?o = "shop_orders []" and ?c = "(shop_orders [], Handle (EndpointsAdd (Some web_endpoints)))"
  have i: "isInitialized shop_started" by (simp add: shop_started_fields)
  have "sync_rest simple_ext dp_env ?o shop_started empty_dp = Inr (shop_started, empty_dp)"
  proof -
    have t: "snd (sync_times ?o shop_started) = shop_started"
      by (simp add: sync_times_def checkoutTriggerTimes_def Let_def shop_started_eq web_proxier_def NewEndpointChangeTracker_def)
    show ?thesis
      using shop_idle idle_sync [of simple_ext ?o shop_started] i idle_sections t
      by (auto simp: sync_sections shop_started_fields)
  qed
  moreover have late: "snd (sync_times ?o late_web) =
      shop_started\<lparr>endpointsChanges := endpointsChanges (snd (sync_times ?o late_web))\<rparr>"
    by (simp add: late_web_def sync_times_def checkoutTriggerTimes_def Let_def)
  ultimately have "sync_rest simple_ext dp_env ?o (snd (sync_times ?o late_web)) empty_dp =
      Inr (snd (sync_times ?o late_web), empty_dp)"
    using sync_rest_set_endpoints by metis
  from threads.program [OF threads.times [OF late_web_threads] this]
  have run: "threads simple_ext dp_env shop_started empty_dp [?c, (?o, Sync)] Unlocked (snd (sync_times ?o late_web)) empty_dp"
    by simp
  obtain cs q where cs: "whole_steps simple_ext dp_env cs (shop_started, empty_dp) = Inr (q, empty_dp)"
      "but_times (snd (sync_times ?o late_web)) q" "same_orders [?c, (?o, Sync)] cs"
    using interleaving_sequential [OF run] by blast
  from cs(3) have "filter (on_endpoints \<circ> snd) cs = [?c]" by (simp add: same_orders_def on_endpoints_def)
  then show ?thesis using run cs(1,2) by blast
qed

text \<open>
  The trigger times are not sequential: endpoints added between the two checkouts of a sync
  have their time collected by that sync, although their change stays pending and the map does
  not have them yet.
\<close>

theorem trigger_time_early:
  "\<exists>p. threads simple_ext dp_env shop_started empty_dp
       [(shop_orders [], Handle (EndpointsAdd (Some web_endpoints)))] (EndpointsDone (shop_orders [])) p empty_dp \<and>
     fmlookup (fst (sync_times (shop_orders []) p)) web_nn = Some [5] \<and>
     fmlookup (endpointsMap p) web_name = None \<and>
     web_nn |\<in>| fmdom (ect_items (endpointsChanges (snd (sync_times (shop_orders []) p)))) \<and>
     lastChangeTriggerTimes (endpointsChanges (snd (sync_times (shop_orders []) p))) = fmempty"
proof -
  have "ordT_of (so_eps (shop_orders [])) = [web_nn]" by (simp add: shop_orders_def web_orders_def)
  then show ?thesis using late_web_threads late_web_fields
    by (intro exI [of _ late_web]) (simp add: sync_times_def checkoutTriggerTimes_def Let_def)
qed

end
