(* ===== verification/Command.thy ===== *)
theory Command
  imports Server_Properties
begin

text \<open>
  The command: \<open>NewProxyCommand\<close> of \<open>server/app/server.go\<close> and \<open>main\<close> of \<open>server/haproxy.go\<close>. The
  command line is parsed by cobra, a parameter: it is given the flags that are registered and
  the arguments, and says what they are. How the process ends is the result: it exits with a
  code, a panic of the main goroutine crashes it, or it runs on.
\<close>

section \<open>The command line\<close>

text \<open>
  What cobra finds: flags it cannot parse, a request for help, or the flags in the order in
  which they are given, the arguments that are left, and whether the version is asked for.
\<close>

datatype parsed = BadFlags string | HelpWanted | Parsed "(string \<times> flag_value) list" "string list" bool

type_synonym parser = "(string \<times> flag_value) list \<Rightarrow> string list \<Rightarrow> parsed"

definition registered :: "options \<Rightarrow> (string \<times> flag_value) list" where
  "registered opts = map (\<lambda>(name, default, _). (name, default)) (the_flags opts)"

text \<open>A flag that is given stores its value in the variable it was registered with.\<close>

definition store_flag :: "options \<Rightarrow> string \<times> flag_value \<Rightarrow> options" where
  "store_flag opts nv =
     (case map_of (the_flags opts) (fst nv) of Some (_, store) \<Rightarrow> store (snd nv) opts | None \<Rightarrow> opts)"

definition given :: "(string \<times> flag_value) list \<Rightarrow> options" where
  "given fs = foldl store_flag (AddFlags NewOptions) fs"

section \<open>The run of the command\<close>

definition Complete :: "options \<Rightarrow> string option" where
  "Complete opts = None"

text \<open>A send to a channel; to a nil channel it blocks for good.\<close>

definition errorHandler :: "'e \<Rightarrow> 'e list option \<Rightarrow> 'e list option option" where
  "errorHandler err errCh = (case errCh of None \<Rightarrow> None | Some sent \<Rightarrow> Some (Some (sent @ [err])))"

text \<open>
  \<open>klog.Fatalf\<close> ends the process with the code 255, \<open>klog.Exit\<close> with 1, and the request for the
  version with 0. A panic crashes it; a run that never returns keeps it alive.
\<close>

datatype 'w process_end =
    Exits int 'w
  | Crashes "start_panic + go_panic"
  | Runs "run_action list"

datatype command_error = FlagError string | ArgsError string "string list"

datatype 'w executed = Returned "command_error option" 'w | Ended "'w process_end"

definition proxy_run ::
    "k8s_ext \<Rightarrow> 'c host_env \<Rightarrow> ('b, 'w) rest_env \<Rightarrow> bool \<Rightarrow> options \<Rightarrow> 'w \<Rightarrow> 'w executed" where
  "proxy_run x host env version opts w =
     (if version then Ended (Exits 0 w)
      else case Complete opts of
        Some err \<Rightarrow> Ended (Exits 255 w)
      | None \<Rightarrow>
          (case Options_Run x host env opts w of
             Returns (Some err) w1 \<Rightarrow> Ended (Exits 1 w1)
           | Returns None w1 \<Rightarrow> Returned None w1
           | Panics p \<Rightarrow> Ended (Crashes p)
           | Hangs acts \<Rightarrow> Ended (Runs acts)))"

definition validate_args :: "string \<Rightarrow> string list \<Rightarrow> command_error option" where
  "validate_args path args = (if check_args args then None else Some (ArgsError path args))"

text \<open>The execution of the command: the flags, the arguments, then the run.\<close>

definition NewProxyCommand ::
    "parser \<Rightarrow> k8s_ext \<Rightarrow> 'c host_env \<Rightarrow> ('b, 'w) rest_env \<Rightarrow> string list \<Rightarrow> 'w \<Rightarrow> 'w executed" where
  "NewProxyCommand parse x host env argv w =
     (case parse (registered NewOptions) argv of
        BadFlags err \<Rightarrow> Returned (Some (FlagError err)) w
      | HelpWanted \<Rightarrow> Returned None w
      | Parsed fs args version \<Rightarrow>
          (case validate_args ''kube-haproxy'' args of
             Some err \<Rightarrow> Returned (Some err) w
           | None \<Rightarrow> proxy_run x host env version (given fs) w))"

definition main_exit_code :: "'e option \<Rightarrow> int" where
  "main_exit_code err = (if err \<noteq> None then 1 else 0)"

definition main_program ::
    "parser \<Rightarrow> k8s_ext \<Rightarrow> 'c host_env \<Rightarrow> ('b, 'w) rest_env \<Rightarrow> string list \<Rightarrow> 'w \<Rightarrow> 'w process_end" where
  "main_program parse x host env argv w =
     (case NewProxyCommand parse x host env argv w of
        Returned err w1 \<Rightarrow> Exits (main_exit_code err) w1
      | Ended result \<Rightarrow> result)"

section \<open>How a flag is read back\<close>

text \<open>The last value that is given for \<open>cleanup\<close> counts; without one the default does.\<close>

definition last_given :: "string \<Rightarrow> (string \<times> flag_value) list \<Rightarrow> flag_value option" where
  "last_given name fs = map_of (rev fs) name"

lemma last_given_snoc:
  "last_given name (fs @ [(n, v)]) = (if n = name then Some v else last_given name fs)"
  by (simp add: last_given_def)

lemma store_flag_cleanup:
  "cleanupAndExit (store_flag opts (n, v)) = (if n = ''cleanup'' then bool_of v else cleanupAndExit opts)"
  by (auto simp: store_flag_def the_flags_def in_config_def in_haproxy_def)

lemma given_snoc: "given (fs @ [nv]) = store_flag (given fs) nv"
  by (simp add: given_def)

lemma given_cleanup:
  "cleanupAndExit (given fs) \<longleftrightarrow> (case last_given ''cleanup'' fs of Some v \<Rightarrow> bool_of v | None \<Rightarrow> False)"
proof (induction fs rule: rev_induct)
  case Nil
  show ?case using default_options(3) by (simp add: given_def last_given_def)
next
  case (snoc nv fs)
  then show ?case by (cases nv) (simp add: given_snoc store_flag_cleanup last_given_snoc)
qed


section \<open>Properties\<close>

lemma Options_Run_started:
  assumes "\<not> cleanupAndExit opts"
  shows "Options_Run x host env opts w =
     (case newProxyServer x host opts of
        Inl p \<Rightarrow> Panics (Inl p)
      | Inr (Inl err) \<Rightarrow> Returns (Some err) w
      | Inr (Inr s) \<Rightarrow> Hangs (fst (ProxyServer_Run s)))"
proof (cases "newProxyServer x host opts")
  case (Inl p)
  then show ?thesis by (simp add: Options_Run_def)
next
  case (Inr made)
  then show ?thesis using Options_Run_hangs [OF _ assms, of x host _ env w]
    by (cases made) (simp_all add: Options_Run_def)
qed

lemma main_program_parsed:
  assumes "parse (registered NewOptions) argv = Parsed fs args version"
  shows "main_program parse x host env argv w =
     (if \<not> check_args args then Exits 1 w
      else if version then Exits 0 w
      else case Options_Run x host env (given fs) w of
        Returns err w1 \<Rightarrow> Exits (main_exit_code err) w1
      | Panics p \<Rightarrow> Crashes p
      | Hangs acts \<Rightarrow> Runs acts)"
  using assms
  by (simp add: main_program_def NewProxyCommand_def validate_args_def proxy_run_def Complete_def main_exit_code_def
      split: run_outcome.split option.split)

text \<open>
  The status of a process that ends: a panic ends a Go program with 2. (A panic in a goroutine
  that the run has started would end it with 2 as well; the goroutines are not run here.)
\<close>

definition exit_status :: "'w process_end \<Rightarrow> int option" where
  "exit_status r = (case r of Exits c _ \<Rightarrow> Some c | Crashes _ \<Rightarrow> Some 2 | Runs _ \<Rightarrow> None)"

lemma cleanup_given:
  "cleanupAndExit (given fs) \<longleftrightarrow> last_given ''cleanup'' fs = Some (FBool True)"
  by (auto simp: given_cleanup split: option.splits elim: bool_of.elims)

text \<open>
  C26. How the program ends, for every command line, host and HAProxy in which every frontend but
  \<open>stats\<close> has its backend. Flags that cannot be parsed or an argument that is not empty: status
  1. Help or version: 0. With \<open>cleanup\<close> the status is 1, and at most one backend of HAProxy is
  removed. Otherwise the construction of the server decides: if it panics the process ends with
  2, with its error the status is 1, and once the server is made the process runs on. Except for
  the clean-up nothing outside changes, and the status is 0 for nothing but help and version.
\<close>

theorem main_program_exit:
  assumes "haproxy_store env view ok" and "ok w" and "backed (view w)"
    and "main_program parse x host env argv w = r"
  shows "(exit_status r = Some 0 \<longleftrightarrow> parse (registered NewOptions) argv = HelpWanted \<or>
       (\<exists>fs args. parse (registered NewOptions) argv = Parsed fs args True \<and> (\<forall>arg \<in> set args. arg = ''''))) \<and>
     (case parse (registered NewOptions) argv of
        BadFlags _ \<Rightarrow> r = Exits 1 w
      | HelpWanted \<Rightarrow> r = Exits 0 w
      | Parsed fs args version \<Rightarrow>
          if \<exists>arg \<in> set args. arg \<noteq> '''' then r = Exits 1 w
          else if version then r = Exits 0 w
          else if last_given ''cleanup'' fs = Some (FBool True)
          then \<exists>w1. r = Exits 1 w1 \<and> ok w1 \<and>
            (view w1 = view w \<or> (\<exists>b. b |\<in>| fmdom (st_backends (view w)) \<and> view w1 = drop_backend b (view w)))
          else (case newProxyServer x host (given fs) of
              Inl p \<Rightarrow> r = Crashes (Inl p) \<and> exit_status r = Some 2
            | Inr (Inl _) \<Rightarrow> r = Exits 1 w
            | Inr (Inr s) \<Rightarrow> r = Runs (fst (ProxyServer_Run s))))"
proof (cases "parse (registered NewOptions) argv")
  case (Parsed fs args version)
  note parsed = main_program_parsed [where parse = parse and argv = argv, OF Parsed]
  have blank: "check_args args \<longleftrightarrow> \<not> (\<exists>arg \<in> set args. arg \<noteq> '''')" by (auto simp: check_args_def)
  show ?thesis
  proof (cases "check_args args \<and> \<not> version")
    case run: True
    show ?thesis
    proof (cases "cleanupAndExit (given fs)")
      case True
      obtain e w' where c: "CleanupAndExit env w = Inr (Some e, w')" "ok w'"
          "view w' = view w \<or> (\<exists>b. b |\<in>| fmdom (st_backends (view w)) \<and> view w' = drop_backend b (view w))"
        using haproxy_store.cleanup_fails [OF assms(1-3)] by blast
      then have "r = Exits 1 w'" using assms(4) run True
        by (simp add: parsed Options_Run_def newProxyServer_def main_exit_code_def)
      then show ?thesis using c True run Parsed blank by (simp add: exit_status_def cleanup_given)
    next
      case False
      then have r: "case newProxyServer x host (given fs) of
              Inl p \<Rightarrow> r = Crashes (Inl p)
            | Inr (Inl _) \<Rightarrow> r = Exits 1 w
            | Inr (Inr s) \<Rightarrow> r = Runs (fst (ProxyServer_Run s))"
        using assms(4) run by (auto simp: parsed Options_Run_started main_exit_code_def split: sum.splits)
      then show ?thesis using False run Parsed blank
        by (auto simp: exit_status_def cleanup_given split: sum.splits)
    qed
  next
    case False
    then have "r = Exits (if check_args args then 0 else 1) w" using assms(4) by (auto simp: parsed)
    then show ?thesis using False Parsed blank by (auto simp: exit_status_def)
  qed
qed (use assms(4) in \<open>auto simp: main_program_def NewProxyCommand_def main_exit_code_def exit_status_def\<close>)

section \<open>Witnesses\<close>

lemma shop_dp_ok: "dp_ok shop_dp" "backed (dp_store shop_dp)"
proof -
  show "dp_ok shop_dp"
    by (simp add: shop_dp_def empty_dp_def dp_ok_def store_wf_def max_int_def) (intro conjI fmpred_upd; simp)
  show "backed (dp_store shop_dp)" by (simp add: backed_def shop_dp_def)
qed

text \<open>The clean-up asked for, and an algorithm beyond the table, with parsers that find these flags.\<close>

theorem main_program_exit_witness:
  "(\<exists>w1. main_program (\<lambda>_ _. Parsed [(''cleanup'', FBool True)] [] False) simple_ext small_cluster_host dp_env
      [''--cleanup''] shop_dp = Exits 1 w1 \<and> dp_ok w1) \<and>
   main_program (\<lambda>_ _. Parsed [(''algorithm'', FInt32 10)] [] False) simple_ext small_cluster_host dp_env
      [''--algorithm'', ''10''] shop_dp = Crashes (Inl (AlgorithmPanic IndexOutOfRange))"
proof -
  let ?fs = "[(''algorithm'', FInt32 10)]"
  note exit = main_program_exit [OF dp.haproxy_store_axioms shop_dp_ok refl, of _ simple_ext small_cluster_host]
  have host: "GetHostname small_cluster_host = Inr ''node1''"
    "createClients (Clients small_cluster_host) (o_config (given ?fs)) = Inr ((), ())"
    by (simp_all add: small_cluster_host_def createClients_def given_def store_flag_def the_flags_def AddFlags_def
        NewOptions_def in_config_def in_haproxy_def)
  have opts: "\<not> cleanupAndExit (given ?fs)" "o_algorithm (given ?fs) = 10"
    by (simp add: given_cleanup last_given_def)
      (simp add: given_def store_flag_def the_flags_def in_config_def in_haproxy_def)
  then have "newProxyServer simple_ext small_cluster_host (given ?fs) = Inl (AlgorithmPanic IndexOutOfRange)"
    using host by (simp add: newProxyServer_def Algorithm_cases)
  then show ?thesis
    using exit [of "\<lambda>_ _. Parsed [(''cleanup'', FBool True)] [] False" "[''--cleanup'']"]
      exit [of "\<lambda>_ _. Parsed ?fs [] False" "[''--algorithm'', ''10'']"]
    by (auto simp: last_given_def)
qed

end
