(* ===== verification/Interfaces.thy ===== *)
theory Interfaces
  imports Service_Tracker Endpoints
begin

text \<open>
  The interfaces \<open>ServicePort\<close> and \<open>Endpoint\<close> of \<open>api/types.go\<close> as records of their methods, the
  implementations of \<open>controller/service.go\<close>, \<open>controller/endpoints.go\<close> and \<open>haproxy/proxier.go\<close>
  as values of them, and what the methods answer.
\<close>

section \<open>Service ports\<close>

record api_service_port =
  m_String :: string
  m_ClusterIP :: net_ip
  m_Port :: int
  m_SessionAffinityType :: string
  m_StickyMaxAgeSeconds :: int
  m_ExternalIPStrings :: "string list"
  m_LoadBalancerIPStrings :: "string list"
  m_Protocol :: string
  m_LoadBalancerSourceRanges :: "string list"
  m_HealthCheckNodePort :: int
  m_NodePort :: int
  m_OnlyNodeLocalEndpoints :: bool
  m_TopologyKeys :: "string list"

definition BaseServiceInfo_methods :: "k8s_ext \<Rightarrow> base_service_info \<Rightarrow> api_service_port" where
  "BaseServiceInfo_methods x info =
     \<lparr>m_String = BaseServiceInfo_String x info,
      m_ClusterIP = clusterIP info,
      m_Port = port info,
      m_SessionAffinityType = sessionAffinityType info,
      m_StickyMaxAgeSeconds = stickyMaxAgeSeconds info,
      m_ExternalIPStrings = externalIPs info,
      m_LoadBalancerIPStrings = LoadBalancerIPStrings info,
      m_Protocol = protocol info,
      m_LoadBalancerSourceRanges = loadBalancerSourceRanges info,
      m_HealthCheckNodePort = healthCheckNodePort info,
      m_NodePort = nodePort info,
      m_OnlyNodeLocalEndpoints = onlyNodeLocalEndpoints info,
      m_TopologyKeys = topologyKeys info\<rparr>"

text \<open>The proxier's \<open>serviceInfo\<close> embeds the base information and overrides none of its methods.\<close>

definition as_ServicePort :: "k8s_ext \<Rightarrow> service_port \<Rightarrow> api_service_port" where
  "as_ServicePort x sp = BaseServiceInfo_methods x (base_of sp)"

text \<open>
  What the methods answer for the information made of a port of a service, when no IP family is
  set: the fields of the service, the ranges without surrounding blanks, a health check port
  only where one is needed, and a timeout only with client affinity.
\<close>

lemma made_methods:
  assumes "newBaseServiceInfo x (NewServiceChangeTracker mk) p s = Inr info"
  shows "BaseServiceInfo_methods x info =
     \<lparr>m_String = IPString x (ParseIP x (ClusterIP s)) @ '':'' @ Itoa (sp_Port p) @ ''/'' @ sp_Protocol p,
      m_ClusterIP = ParseIP x (ClusterIP s),
      m_Port = sp_Port p,
      m_SessionAffinityType = SessionAffinity s,
      m_StickyMaxAgeSeconds = (if SessionAffinity s = ''ClientIP'' then the (ClientIPTimeout s) else 0),
      m_ExternalIPStrings = ExternalIPs s,
      m_LoadBalancerIPStrings = map ing_IP (Ingress s),
      m_Protocol = sp_Protocol p,
      m_LoadBalancerSourceRanges = map TrimSpace (LoadBalancerSourceRanges s),
      m_HealthCheckNodePort = (if NeedsHealthCheck x s then HealthCheckNodePort s else 0),
      m_NodePort = sp_NodePort p,
      m_OnlyNodeLocalEndpoints = RequestsOnlyLocalTraffic x s,
      m_TopologyKeys = TopologyKeys s\<rparr>"
  using assms
  by (auto simp: newBaseServiceInfo_def NewServiceChangeTracker_def bindr_Inr_iff BaseServiceInfo_methods_def
      BaseServiceInfo_String_def LoadBalancerIPStrings_def Let_def split: if_splits option.splits)

section \<open>Endpoints\<close>

record api_endpoint =
  m_endpoint_String :: string
  m_GetIsLocal :: bool
  m_GetTopology :: "(string, string) fmap option"
  m_IP :: string
  m_endpoint_Port :: "int \<times> string option"
  m_Equal :: "endpoint \<Rightarrow> bool"

definition as_Endpoint :: "k8s_ext \<Rightarrow> endpoint \<Rightarrow> api_endpoint" where
  "as_Endpoint x e =
     \<lparr>m_endpoint_String = endpoint_String e,
      m_GetIsLocal = GetIsLocal e,
      m_GetTopology = Topology (ep_base e),
      m_IP = endpoint_IP x e,
      m_endpoint_Port = endpoint_Port x e,
      m_Equal = endpoint_Equal e\<rparr>"

text \<open>For logs only.\<close>

definition formatEndpointsList :: "endpoint list \<Rightarrow> string list" where
  "formatEndpointsList eps = map endpoint_String eps"

text \<open>
  \<open>Equal\<close> compares what is printed and where the endpoint runs, and never the topology. Within one
  implementation it is an equivalence; across the two it is not symmetric, for only the proxier's
  looks at the type of the other one.
\<close>

lemma endpoint_Equal_refl: "endpoint_Equal e e"
  by (cases e) (simp_all add: endpoint_Equal_def BaseEndpointInfo_Equal_def endpointsInfo_Equal_def
      endpoint_String_def GetIsLocal_def)

lemma endpoint_Equal_sym:
  assumes "(\<exists>b. e = BaseEndpointInfo b) \<longleftrightarrow> (\<exists>b. f = BaseEndpointInfo b)"
  shows "endpoint_Equal e f \<longleftrightarrow> endpoint_Equal f e"
  using assms
  by (cases e; cases f) (auto simp: endpoint_Equal_def BaseEndpointInfo_Equal_def endpointsInfo_Equal_def
      endpoint_String_def GetIsLocal_def)

lemma endpoint_Equal_mixed:
  "endpoint_Equal (BaseEndpointInfo b) (EndpointsInfo b p)"
  "\<not> endpoint_Equal (EndpointsInfo b p) (BaseEndpointInfo b)"
  by (simp_all add: endpoint_Equal_def BaseEndpointInfo_Equal_def endpointsInfo_Equal_def
      endpoint_String_def GetIsLocal_def)

text \<open>The endpoints the proxier makes have no protocol: their \<open>Equal\<close> is that of the two methods.\<close>

lemma made_endpoints_Equal:
  "m_Equal (as_Endpoint x (EndpointsInfo b '''')) (EndpointsInfo b' '''') \<longleftrightarrow>
     m_endpoint_String (as_Endpoint x (EndpointsInfo b '''')) = endpoint_String (EndpointsInfo b' '''') \<and>
     m_GetIsLocal (as_Endpoint x (EndpointsInfo b '''')) = GetIsLocal (EndpointsInfo b' '''')"
  by (simp add: as_Endpoint_def endpoint_Equal_def endpointsInfo_Equal_def endpoint_String_def GetIsLocal_def)

end
