(* ===== verification/Spec2Isabelle.thy ===== *)
theory Spec2Isabelle
  imports Service_Tracker Endpoints_Tracker Sync_Properties Client_Properties Proxier_Run
    Conntrack Server_Properties Slice_Cluster Interleaving Command Interfaces
begin

text \<open>
  A model of \<open>kube-haproxy\<close>, a Kubernetes service proxy that programs HAProxy.

  \<^bold>\<open>The program.\<close> Informers of Kubernetes deliver services, endpoints and (optionally)
  endpoint slices to the configs of \<open>config/config.go\<close>, which pass them to the proxier of
  \<open>haproxy/proxier.go\<close>. The proxier does not keep the objects: it hands them to the change
  trackers of \<open>controller/\<close>, which remember for each object what it contributed when it was last
  applied and what it contributes now. A sync (\<open>syncProxyRules\<close>) first applies the pending
  changes to the service map and the endpoints map, then writes the services to HAProxy through
  the client of \<open>haproxy/haproxy.go\<close> (a backend, a frontend, a bind and the servers of every
  service port), and deletes the frontends that belong to no service any more.
  \<open>server/app\<close> builds all this from the options of the command and runs it.

  \<^bold>\<open>Theories and sources.\<close>
  \<^item> \<open>Prelude\<close>: panics as the left side of a sum (\<open>result\<close>, \<open>bindr\<close>), maps of Go as finite maps,
    and \<open>range\<close> loops over maps as folds in an order that is an argument (\<open>range_in\<close>).
  \<^item> \<open>Go_Strings\<close>, \<open>Go_Format\<close>, \<open>Url\<close>: what the code uses of \<open>strings\<close>, \<open>strconv\<close>, \<open>net\<close>, of
    \<open>fmt.Errorf\<close> without operands, and of \<open>net/url\<close>.
  \<^item> \<open>Api\<close>: \<open>api/types.go\<close> and the fields of the Kubernetes objects that are read.
  \<^item> \<open>Tracker_Spec\<close>: the contract of the trackers, the locales \<open>change_source\<close> and
    \<open>object_tracker\<close>. Their theorem: after a sync the map is the map of the live objects.
  \<^item> \<open>Service_Tracker\<close>: \<open>controller/service.go\<close>; \<open>Endpoints\<close> and \<open>Endpoints_Tracker\<close>:
    \<open>controller/endpoints.go\<close>; \<open>Endpoint_Slices\<close>: \<open>controller/endpointsslice.go\<close>. Each of the
    three interprets the contract with its own operations. \<open>Interfaces\<close>: the interfaces of
    \<open>api/types.go\<close> as records of methods, with the implementations as values.
  \<^item> \<open>Haproxy_Types\<close>, \<open>Haproxy_Client\<close>: \<open>haproxy/types.go\<close>, \<open>haproxy/haproxy.go\<close>: one
    definition per operation, request by request.
  \<^item> \<open>Graceful\<close>: \<open>haproxy/graceful_termination.go\<close>; \<open>Proxier\<close>: \<open>haproxy/proxier.go\<close>.
  \<^item> \<open>Store_Spec\<close>: the contract of the other end of the client, the locale \<open>haproxy_store\<close>, with
    how a URL names a collection or an object, which says what the API offers;
    \<open>Reference_Dataplane\<close> interprets it with the operations of the client, run against a
    server in memory that routes the URLs they send.
  \<^item> \<open>Sync_Spec\<close>, \<open>Sync_Refine\<close>, \<open>Sync_Properties\<close>: the specification of a sync on the stored
    objects, the refinement, and what follows from it.
  \<^item> \<open>Config\<close>: \<open>config/config.go\<close>; its locale \<open>config_updates\<close> is the translation from the
    calls of an informer to the calls of a handler.
  \<^item> \<open>Proxier_Run\<close>, \<open>Cluster\<close>, \<open>Slice_Cluster\<close>: the proxier alone, and the proxier behind the
    configs of endpoints or of slices, under arbitrary sequences of events.
  \<^item> \<open>Interleaving\<close>: handlers that run while a sync is under way, at the grain of the locks.
  \<^item> \<open>Conntrack\<close>: \<open>server/app/conntrack.go\<close>; \<open>Server\<close>: \<open>server.go\<close>, \<open>server_others.go\<close> and
    \<open>type.go\<close> of \<open>server/app\<close>; \<open>Command\<close>: the command of \<open>server.go\<close> and \<open>server/haproxy.go\<close>.
    \<open>Client_Properties\<close> and \<open>Server_Properties\<close> model no code.

  \<^bold>\<open>What is shown.\<close>
  \<^item> Trackers: for any events and any grouping of them between syncs, the service map and the
    endpoints map (with and without slices) are exactly the entries of the live objects; slices
    give the same ports, IPs and localities in whatever order they are visited (of two endpoints
    that share IP and locality the order decides which stays); which inputs panic; which
    UDP connections, local addresses, health check ports and trigger times are reported.
  \<^item> Sync: \<open>syncProxyRules\<close> refines its specification on the objects in HAProxy, does not touch
    foreign objects, is independent of iteration orders, is stable once HAProxy is in line, and
    brings it in line within two runs (unless a backend without frontend, which the proxier never
    sees, is in the way).
  \<^item> Composition: from the calls of the informers to HAProxy. The maps are exact in every
    reachable state, the casts of a sync cannot fail, and two syncs after the last event give
    exactly the objects that the live services and endpoints ask for; the same with slices, if
    they keep the label of their service, with another visiting order at every sync. No delivery
    and no sync of a run panics, whatever HAProxy answers, as long as its lists have no null
    entries. When the proxier counts as initialised, and a history after which it never does.
  \<^item> Interleaving: a sync that is interleaved with handlers is equivalent to whole calls in a
    sequence, up to the trigger times, which are not; so the theorems on sequences carry over.
  \<^item> Client: what \<open>handleError\<close> makes of each answer, which requests can never succeed, and that
    names survive the way through URLs and back.
  \<^item> Server: the outcome of the construction for all options and hosts, panics included; that a
    started proxy does not return and registers its handlers before the informers start, that the
    clean-up fails at its first success, with which status the program ends (2 for a panic of the
    main goroutine); what the writers of the connection tracking limits leave behind.

  Where the code has a defect, the model has it too and a theorem states it (the graceful list
  stays empty, replacing never works, \<open>CleanupAndExit\<close> fails, the bound of \<open>Algorithm\<close>, a slice
  that moves to another service stays with the old one, too).

  \<^bold>\<open>Laws and witnesses.\<close> A theorem about HAProxy assumes \<open>haproxy_store\<close> for the client's
  environment. The laws are those of the documented API: objects are created once, in a parent
  that is there and with a mode and a balancing the API knows, read back as stored and deleted by
  name, and what the API does not offer is refused. \<open>Reference_Dataplane\<close> proves them for one
  server, and the witnesses evaluate the operations against it. A theorem about the kernel's
  limits assumes \<open>obedient\<close>: what is written is read back, the hash size possibly rounded up.

  \<^bold>\<open>Loops and fuel.\<close> No definition uses fuel. Loops over lists, maps and sets are folds or
  structural recursion. The one loop that may run forever, \<open>runLoop\<close>, is
  \<open>partial_function (option)\<close> with \<open>None\<close> for not returning, which a theorem shows it does.

  \<^bold>\<open>Not modelled.\<close>
  \<^item> Logs, printing, events, metrics and credentials: nothing reads them.
  \<^item> A panic in a goroutine that \<open>Run\<close> starts, which would end the process: the goroutines are
    actions of \<open>Run\<close>, their handlers and syncs are the steps of \<open>Cluster\<close>.
  \<^item> The order that \<open>sort.Sort\<close> leaves among equal keys: the sorts of the model are stable.
  \<^item> Scheduling below the locks: the runs of \<open>Cluster\<close> and \<open>Slice_Cluster\<close> have handlers and
    syncs as single steps, which \<open>Interleaving\<close> justifies for the trackers and the mutex of the
    proxier; the goroutine of the graceful manager works on its own list and is not in there.
    The bounded-frequency runner and the informers are outside the repository, so a sync may
    happen at any point of a run and \<open>Sync\<close> is only an output of a handler.
  \<^item> The REST client, the JSON codec, HAProxy, sysctl, mounts, files and the helpers of
    Kubernetes: fields of \<open>rest_env\<close>, \<open>sys_env\<close> and \<open>k8s_ext\<close>.
  \<^item> The callbacks \<open>processServiceMapChange\<close> and \<open>processEndpointsMapChange\<close>, nil in the only
    calls of the constructors.
  \<^item> The ticker of the graceful manager, the random seed in \<open>server/haproxy.go\<close>, the texts of the
    help, and the build files. The parsing of the command line is cobra's, a parameter of
    \<open>main_program\<close>.
\<close>

end
